(* ===== verification/Airpc_Prelude.thy ===== *)
theory Airpc_Prelude
  imports Main "HOL-Library.Word" "HOL-Library.Char_ord"
begin

text \<open>
  Shared vocabulary of the development: the types that stand for Go's basic types, Go's
  error conventions as values, two's complement \<^verbatim>\<open>int64\<close> arithmetic, buffered
  channels, and the lemma collections the component theories extend.

  \<^item> A Go \<^verbatim>\<open>string\<close> and a \<^verbatim>\<open>[]byte\<close> are both byte sequences and the code converts
    freely between them (\<^verbatim>\<open>[]byte(path)\<close>, \<^verbatim>\<open>string(frame.Payload)\<close>), so both are the
    type \<open>string\<close>, a list of 8-bit characters. A nil slice and an empty slice are both
    the empty list: no code of the program tells them apart.
  \<^item> A function that returns \<^verbatim>\<open>error\<close> returns \<open>'e option\<close> (\<open>None\<close> is \<^verbatim>\<open>nil\<close>); one that
    returns \<^verbatim>\<open>(T, error)\<close> returns \<open>'e + 'a\<close> (\<open>Inl\<close> is the error).
  \<^item> A Go \<^verbatim>\<open>int\<close> or \<^verbatim>\<open>int64\<close> that is only compared is an \<open>int\<close>; where the code computes with
    it and the result can leave the range, \<open>wrap64\<close> writes the wrap-around out.
\<close>

type_synonym bytes = string

type_synonym ('e, 'a) result = "'e + 'a"

text \<open>Collections the component theories add to and the proofs name.\<close>

named_theorems validate_defs \<open>unfolding rules of the envelope and configuration validators\<close>

named_theorems wire_defs \<open>unfolding rules of the link and session operations\<close>

named_theorems chan_simps \<open>facts on buffered channels\<close>

section \<open>int64 arithmetic\<close>

definition max_int64 :: int where
  "max_int64 = 9223372036854775807"

definition min_int64 :: int where
  "min_int64 = - 9223372036854775808"

text \<open>The value an \<^verbatim>\<open>int64\<close> register holds after a computation with exact result \<open>x\<close>.\<close>

definition wrap64 :: "int \<Rightarrow> int" where
  "wrap64 x = (x + 9223372036854775808) mod 18446744073709551616 - 9223372036854775808"

definition is_int64 :: "int \<Rightarrow> bool" where
  "is_int64 x \<longleftrightarrow> min_int64 \<le> x \<and> x \<le> max_int64"

lemma wrap64_id [simp]: "is_int64 x \<Longrightarrow> wrap64 x = x"
  by (simp add: wrap64_def is_int64_def max_int64_def min_int64_def)

lemma is_int64_wrap64 [simp]: "is_int64 (wrap64 x)"
proof -
  have "0 \<le> (x + 9223372036854775808) mod 18446744073709551616"
    by simp
  moreover have "(x + 9223372036854775808) mod 18446744073709551616 < 18446744073709551616"
    by simp
  ultimately show ?thesis
    unfolding wrap64_def is_int64_def max_int64_def min_int64_def by linarith
qed

text \<open>The same register as a 64-bit word: \<open>wrap64\<close> is the signed reading of the word.\<close>

lemma wrap64_sint: "wrap64 x = sint (word_of_int x :: 64 word)"
  by (simp add: wrap64_def signed_take_bit_int_eq_self_iff sint_sbintrunc'
      signed_take_bit_eq_take_bit_shift take_bit_int_def)

section \<open>Buffered channels\<close>

text \<open>
  A Go channel made with capacity \<open>n\<close> is the list of buffered values, oldest first. A send
  in a \<^verbatim>\<open>select\<close> with a \<^verbatim>\<open>default\<close> branch succeeds exactly when the buffer has room.
\<close>

definition chan_room :: "nat \<Rightarrow> 'a list \<Rightarrow> bool" where
  "chan_room n q \<longleftrightarrow> length q < n"

definition chan_try_send :: "nat \<Rightarrow> 'a \<Rightarrow> 'a list \<Rightarrow> 'a list option" where
  "chan_try_send n x q = (if chan_room n q then Some (q @ [x]) else None)"

lemma chan_try_send_bound [chan_simps]:
  "chan_try_send n x q = Some q' \<Longrightarrow> q' = q @ [x] \<and> length q' \<le> n"
  by (auto simp: chan_try_send_def chan_room_def split: if_splits)

lemma chan_try_send_full [chan_simps]:
  "chan_try_send n x q = None \<longleftrightarrow> n \<le> length q"
  by (simp add: chan_try_send_def chan_room_def)

section \<open>Lists and maps\<close>

lemma takeWhile_all [simp]: "list_all P xs \<Longrightarrow> takeWhile P xs = xs"
  by (induction xs) auto

lemma dropWhile_all [simp]: "list_all P xs \<Longrightarrow> dropWhile P xs = []"
  by (induction xs) auto

lemma filter_length_snoc [simp]:
  "length (filter P (xs @ [x])) = length (filter P xs) + (if P x then 1 else 0)"
  by simp

lemma sum_list_snoc: "sum_list (xs @ [x :: nat]) = sum_list xs + x"
  by simp

lemma length_filter_split:
  "length (filter P xs) + length (filter (\<lambda>x. \<not> P x) xs) = length xs"
  by (induction xs) auto

lemma drop_length_append [simp]: "drop (length xs) (xs @ ys) = ys"
  by simp

section \<open>Decimal numerals\<close>

text \<open>The \<^verbatim>\<open>%d\<close> of \<^verbatim>\<open>fmt.Sprintf\<close> and \<^verbatim>\<open>strconv.Itoa\<close> on non-negative values.\<close>

definition digit_char :: "nat \<Rightarrow> char" where
  "digit_char d = char_of (48 + d)"

fun itoa_nat :: "nat \<Rightarrow> string" where
  "itoa_nat n = (if n < 10 then [digit_char n] else itoa_nat (n div 10) @ [digit_char (n mod 10)])"

declare itoa_nat.simps [simp del]

definition itoa :: "int \<Rightarrow> string" where
  "itoa n = (if n < 0 then ''-'' @ itoa_nat (nat (- n)) else itoa_nat (nat n))"

end
