(* ===== verification/Go_Text.thy ===== *)
theory Go_Text
  imports Airpc_Prelude
begin

text \<open>
  The part of Go's language and standard library the program uses on strings:
  iteration over runes (\<^verbatim>\<open>for _, r := range s\<close>), \<^verbatim>\<open>strings\<close>, \<^verbatim>\<open>unicode\<close>, \<^verbatim>\<open>strconv\<close> and
  \<^verbatim>\<open>http.CanonicalHeaderKey\<close>. A string is its bytes; \<open>runes\<close> decodes UTF-8 the way a
  \<^verbatim>\<open>range\<close> loop does, an invalid byte giving U+FFFD with width one. The Unicode tables are
  those of Unicode 15.0.0, the version Go 1.22 ships.

  The lemmas show that a loop over runes that accepts only ASCII agrees with the same check
  on the bytes, and that \<^verbatim>\<open>CanonicalHeaderKey\<close> is idempotent and ignores letter case.
\<close>

section \<open>Bytes\<close>

definition is_lower_alpha :: "char \<Rightarrow> bool" where
  "is_lower_alpha c \<longleftrightarrow> CHR ''a'' \<le> c \<and> c \<le> CHR ''z''"

definition is_upper_alpha :: "char \<Rightarrow> bool" where
  "is_upper_alpha c \<longleftrightarrow> CHR ''A'' \<le> c \<and> c \<le> CHR ''Z''"

definition is_digit_char :: "char \<Rightarrow> bool" where
  "is_digit_char c \<longleftrightarrow> CHR ''0'' \<le> c \<and> c \<le> CHR ''9''"

definition is_ascii :: "char \<Rightarrow> bool" where
  "is_ascii c \<longleftrightarrow> of_char c < (128 :: nat)"

definition is_ctl :: "char \<Rightarrow> bool" where
  "is_ctl c \<longleftrightarrow> of_char c < (32 :: nat) \<or> of_char c = (127 :: nat)"

definition ascii_lower :: "char \<Rightarrow> char" where
  "ascii_lower c = (if is_upper_alpha c then char_of ((of_char c :: nat) + 32) else c)"

definition ascii_upper :: "char \<Rightarrow> char" where
  "ascii_upper c = (if is_lower_alpha c then char_of ((of_char c :: nat) - 32) else c)"

section \<open>Runes\<close>

text \<open>\<^verbatim>\<open>utf8.RuneError\<close>.\<close>

definition rune_error :: nat where
  "rune_error = 65533"

definition is_cont :: "nat \<Rightarrow> bool" where
  "is_cont b \<longleftrightarrow> 128 \<le> b \<and> b \<le> 191"

text \<open>The range of second bytes a three- or four-byte sequence may have after its first byte.\<close>

definition second_ok :: "nat \<Rightarrow> nat \<Rightarrow> bool" where
  "second_ok b0 b1 \<longleftrightarrow>
     (if b0 = 224 then 160 \<le> b1 \<and> b1 \<le> 191
      else if b0 = 237 then 128 \<le> b1 \<and> b1 \<le> 159
      else if b0 = 240 then 144 \<le> b1 \<and> b1 \<le> 191
      else if b0 = 244 then 128 \<le> b1 \<and> b1 \<le> 143
      else is_cont b1)"

text \<open>\<^verbatim>\<open>utf8.DecodeRuneInString\<close> on a non-empty string: the rune and its width.\<close>

definition decode_rune :: "char \<Rightarrow> string \<Rightarrow> nat \<times> nat" where
  "decode_rune c cs =
     (let b0 = of_char c; bs = map of_char cs in
      if b0 < 128 then (b0, 1)
      else if b0 < 194 \<or> 244 < b0 then (rune_error, 1)
      else if b0 < 224 then
        (case bs of b1 # _ \<Rightarrow>
            if is_cont b1 then ((b0 - 192) * 64 + (b1 - 128), 2) else (rune_error, 1)
         | [] \<Rightarrow> (rune_error, 1))
      else if b0 < 240 then
        (case bs of b1 # b2 # _ \<Rightarrow>
            if second_ok b0 b1 \<and> is_cont b2
            then ((b0 - 224) * 4096 + (b1 - 128) * 64 + (b2 - 128), 3) else (rune_error, 1)
         | _ \<Rightarrow> (rune_error, 1))
      else
        (case bs of b1 # b2 # b3 # _ \<Rightarrow>
            if second_ok b0 b1 \<and> is_cont b2 \<and> is_cont b3
            then ((b0 - 240) * 262144 + (b1 - 128) * 4096 + (b2 - 128) * 64 + (b3 - 128), 4)
            else (rune_error, 1)
         | _ \<Rightarrow> (rune_error, 1)))"

text \<open>A \<^verbatim>\<open>range\<close> loop over a string: each rune with the bytes it was decoded from.\<close>

fun runes :: "string \<Rightarrow> (nat \<times> string) list" where
  "runes [] = []"
| "runes (c # cs) =
     (let (r, w) = decode_rune c cs in (r, c # take (w - 1) cs) # runes (drop (w - 1) cs))"

definition rune_values :: "string \<Rightarrow> nat list" where
  "rune_values s = map fst (runes s)"

text \<open>\<^verbatim>\<open>utf8.AppendRune\<close>.\<close>

definition encode_rune :: "nat \<Rightarrow> string" where
  "encode_rune r =
     (if r < 128 then [char_of r]
      else if r < 2048 then [char_of (192 + r div 64), char_of (128 + r mod 64)]
      else if 1114112 \<le> r \<or> (55296 \<le> r \<and> r < 57344) then map char_of [239 :: nat, 191, 189]
      else if r < 65536 then
        [char_of (224 + r div 4096), char_of (128 + r div 64 mod 64), char_of (128 + r mod 64)]
      else [char_of (240 + r div 262144), char_of (128 + r div 4096 mod 64),
            char_of (128 + r div 64 mod 64), char_of (128 + r mod 64)])"

section \<open>Unicode tables\<close>

text \<open>
  Rows \<open>(lo, hi, stride, delta)\<close>: the runes \<open>lo\<close>, \<open>lo + stride\<close>, up to \<open>hi\<close> map to
  themselves plus \<open>delta\<close>. Only runes from 128 on are listed. The first table is the simple
  lower-case mapping (\<^verbatim>\<open>unicode.ToLower\<close>), the second sends every rune to one fixed member of
  its \<^verbatim>\<open>unicode.SimpleFold\<close> orbit, the third holds the first digit of each run of ten
  decimal digits (the mathematical digits, a run of fifty, apart).
\<close>

definition unicode_lower_table :: "(nat \<times> nat \<times> nat \<times> int) list" where
  "unicode_lower_table = [
    (192, 214, 1, 32), (216, 222, 1, 32), (256, 302, 2, 1), (304, 304, 1, - 199),
    (306, 310, 2, 1), (313, 327, 2, 1), (330, 374, 2, 1), (376, 376, 1, - 121), (377, 381, 2, 1),
    (385, 385, 1, 210), (386, 388, 2, 1), (390, 390, 1, 206), (391, 391, 1, 1),
    (393, 394, 1, 205), (395, 395, 1, 1), (398, 398, 1, 79), (399, 399, 1, 202),
    (400, 400, 1, 203), (401, 401, 1, 1), (403, 403, 1, 205), (404, 404, 1, 207),
    (406, 406, 1, 211), (407, 407, 1, 209), (408, 408, 1, 1), (412, 412, 1, 211),
    (413, 413, 1, 213), (415, 415, 1, 214), (416, 420, 2, 1), (422, 422, 1, 218),
    (423, 423, 1, 1), (425, 425, 1, 218), (428, 428, 1, 1), (430, 430, 1, 218), (431, 431, 1, 1),
    (433, 434, 1, 217), (435, 437, 2, 1), (439, 439, 1, 219), (440, 440, 1, 1), (444, 444, 1, 1),
    (452, 452, 1, 2), (453, 453, 1, 1), (455, 455, 1, 2), (456, 456, 1, 1), (458, 458, 1, 2),
    (459, 475, 2, 1), (478, 494, 2, 1), (497, 497, 1, 2), (498, 500, 2, 1), (502, 502, 1, - 97),
    (503, 503, 1, - 56), (504, 542, 2, 1), (544, 544, 1, - 130), (546, 562, 2, 1),
    (570, 570, 1, 10795), (571, 571, 1, 1), (573, 573, 1, - 163), (574, 574, 1, 10792),
    (577, 577, 1, 1), (579, 579, 1, - 195), (580, 580, 1, 69), (581, 581, 1, 71),
    (582, 590, 2, 1), (880, 882, 2, 1), (886, 886, 1, 1), (895, 895, 1, 116), (902, 902, 1, 38),
    (904, 906, 1, 37), (908, 908, 1, 64), (910, 911, 1, 63), (913, 929, 1, 32),
    (931, 939, 1, 32), (975, 975, 1, 8), (984, 1006, 2, 1), (1012, 1012, 1, - 60),
    (1015, 1015, 1, 1), (1017, 1017, 1, - 7), (1018, 1018, 1, 1), (1021, 1023, 1, - 130),
    (1024, 1039, 1, 80), (1040, 1071, 1, 32), (1120, 1152, 2, 1), (1162, 1214, 2, 1),
    (1216, 1216, 1, 15), (1217, 1229, 2, 1), (1232, 1326, 2, 1), (1329, 1366, 1, 48),
    (4256, 4293, 1, 7264), (4295, 4295, 1, 7264), (4301, 4301, 1, 7264), (5024, 5103, 1, 38864),
    (5104, 5109, 1, 8), (7312, 7354, 1, - 3008), (7357, 7359, 1, - 3008), (7680, 7828, 2, 1),
    (7838, 7838, 1, - 7615), (7840, 7934, 2, 1), (7944, 7951, 1, - 8), (7960, 7965, 1, - 8),
    (7976, 7983, 1, - 8), (7992, 7999, 1, - 8), (8008, 8013, 1, - 8), (8025, 8031, 2, - 8),
    (8040, 8047, 1, - 8), (8072, 8079, 1, - 8), (8088, 8095, 1, - 8), (8104, 8111, 1, - 8),
    (8120, 8121, 1, - 8), (8122, 8123, 1, - 74), (8124, 8124, 1, - 9), (8136, 8139, 1, - 86),
    (8140, 8140, 1, - 9), (8152, 8153, 1, - 8), (8154, 8155, 1, - 100), (8168, 8169, 1, - 8),
    (8170, 8171, 1, - 112), (8172, 8172, 1, - 7), (8184, 8185, 1, - 128), (8186, 8187, 1, - 126),
    (8188, 8188, 1, - 9), (8486, 8486, 1, - 7517), (8490, 8490, 1, - 8383),
    (8491, 8491, 1, - 8262), (8498, 8498, 1, 28), (8544, 8559, 1, 16), (8579, 8579, 1, 1),
    (9398, 9423, 1, 26), (11264, 11311, 1, 48), (11360, 11360, 1, 1), (11362, 11362, 1, - 10743),
    (11363, 11363, 1, - 3814), (11364, 11364, 1, - 10727), (11367, 11371, 2, 1),
    (11373, 11373, 1, - 10780), (11374, 11374, 1, - 10749), (11375, 11375, 1, - 10783),
    (11376, 11376, 1, - 10782), (11378, 11378, 1, 1), (11381, 11381, 1, 1),
    (11390, 11391, 1, - 10815), (11392, 11490, 2, 1), (11499, 11501, 2, 1), (11506, 11506, 1, 1),
    (42560, 42604, 2, 1), (42624, 42650, 2, 1), (42786, 42798, 2, 1), (42802, 42862, 2, 1),
    (42873, 42875, 2, 1), (42877, 42877, 1, - 35332), (42878, 42886, 2, 1), (42891, 42891, 1, 1),
    (42893, 42893, 1, - 42280), (42896, 42898, 2, 1), (42902, 42920, 2, 1),
    (42922, 42922, 1, - 42308), (42923, 42923, 1, - 42319), (42924, 42924, 1, - 42315),
    (42925, 42925, 1, - 42305), (42926, 42926, 1, - 42308), (42928, 42928, 1, - 42258),
    (42929, 42929, 1, - 42282), (42930, 42930, 1, - 42261), (42931, 42931, 1, 928),
    (42932, 42946, 2, 1), (42948, 42948, 1, - 48), (42949, 42949, 1, - 42307),
    (42950, 42950, 1, - 35384), (42951, 42953, 2, 1), (42960, 42960, 1, 1), (42966, 42968, 2, 1),
    (42997, 42997, 1, 1), (65313, 65338, 1, 32), (66560, 66599, 1, 40), (66736, 66771, 1, 40),
    (66928, 66938, 1, 39), (66940, 66954, 1, 39), (66956, 66962, 1, 39), (66964, 66965, 1, 39),
    (68736, 68786, 1, 64), (71840, 71871, 1, 32), (93760, 93791, 1, 32), (125184, 125217, 1, 34)]"

definition unicode_fold_table :: "(nat \<times> nat \<times> nat \<times> int) list" where
  "unicode_fold_table = [
    (181, 181, 1, 775), (192, 214, 1, 32), (216, 222, 1, 32), (256, 302, 2, 1), (306, 310, 2, 1),
    (313, 327, 2, 1), (330, 374, 2, 1), (376, 376, 1, - 121), (377, 381, 2, 1),
    (383, 383, 1, - 268), (385, 385, 1, 210), (386, 388, 2, 1), (390, 390, 1, 206),
    (391, 391, 1, 1), (393, 394, 1, 205), (395, 395, 1, 1), (398, 398, 1, 79),
    (399, 399, 1, 202), (400, 400, 1, 203), (401, 401, 1, 1), (403, 403, 1, 205),
    (404, 404, 1, 207), (406, 406, 1, 211), (407, 407, 1, 209), (408, 408, 1, 1),
    (412, 412, 1, 211), (413, 413, 1, 213), (415, 415, 1, 214), (416, 420, 2, 1),
    (422, 422, 1, 218), (423, 423, 1, 1), (425, 425, 1, 218), (428, 428, 1, 1),
    (430, 430, 1, 218), (431, 431, 1, 1), (433, 434, 1, 217), (435, 437, 2, 1),
    (439, 439, 1, 219), (440, 440, 1, 1), (444, 444, 1, 1), (452, 452, 1, 2), (453, 453, 1, 1),
    (455, 455, 1, 2), (456, 456, 1, 1), (458, 458, 1, 2), (459, 475, 2, 1), (478, 494, 2, 1),
    (497, 497, 1, 2), (498, 500, 2, 1), (502, 502, 1, - 97), (503, 503, 1, - 56),
    (504, 542, 2, 1), (544, 544, 1, - 130), (546, 562, 2, 1), (570, 570, 1, 10795),
    (571, 571, 1, 1), (573, 573, 1, - 163), (574, 574, 1, 10792), (577, 577, 1, 1),
    (579, 579, 1, - 195), (580, 580, 1, 69), (581, 581, 1, 71), (582, 590, 2, 1),
    (837, 837, 1, 116), (880, 882, 2, 1), (886, 886, 1, 1), (895, 895, 1, 116),
    (902, 902, 1, 38), (904, 906, 1, 37), (908, 908, 1, 64), (910, 911, 1, 63),
    (913, 929, 1, 32), (931, 939, 1, 32), (962, 962, 1, 1), (975, 975, 1, 8),
    (976, 976, 1, - 30), (977, 977, 1, - 25), (981, 981, 1, - 15), (982, 982, 1, - 22),
    (984, 1006, 2, 1), (1008, 1008, 1, - 54), (1009, 1009, 1, - 48), (1012, 1012, 1, - 60),
    (1013, 1013, 1, - 64), (1015, 1015, 1, 1), (1017, 1017, 1, - 7), (1018, 1018, 1, 1),
    (1021, 1023, 1, - 130), (1024, 1039, 1, 80), (1040, 1071, 1, 32), (1120, 1152, 2, 1),
    (1162, 1214, 2, 1), (1216, 1216, 1, 15), (1217, 1229, 2, 1), (1232, 1326, 2, 1),
    (1329, 1366, 1, 48), (4256, 4293, 1, 7264), (4295, 4295, 1, 7264), (4301, 4301, 1, 7264),
    (5112, 5117, 1, - 8), (7296, 7296, 1, - 6222), (7297, 7297, 1, - 6221),
    (7298, 7298, 1, - 6212), (7299, 7300, 1, - 6210), (7301, 7301, 1, - 6211),
    (7302, 7302, 1, - 6204), (7303, 7303, 1, - 6180), (7304, 7304, 1, 35267),
    (7312, 7354, 1, - 3008), (7357, 7359, 1, - 3008), (7680, 7828, 2, 1), (7835, 7835, 1, - 58),
    (7838, 7838, 1, - 7615), (7840, 7934, 2, 1), (7944, 7951, 1, - 8), (7960, 7965, 1, - 8),
    (7976, 7983, 1, - 8), (7992, 7999, 1, - 8), (8008, 8013, 1, - 8), (8025, 8031, 2, - 8),
    (8040, 8047, 1, - 8), (8072, 8079, 1, - 8), (8088, 8095, 1, - 8), (8104, 8111, 1, - 8),
    (8120, 8121, 1, - 8), (8122, 8123, 1, - 74), (8124, 8124, 1, - 9), (8126, 8126, 1, - 7173),
    (8136, 8139, 1, - 86), (8140, 8140, 1, - 9), (8152, 8153, 1, - 8), (8154, 8155, 1, - 100),
    (8168, 8169, 1, - 8), (8170, 8171, 1, - 112), (8172, 8172, 1, - 7), (8184, 8185, 1, - 128),
    (8186, 8187, 1, - 126), (8188, 8188, 1, - 9), (8486, 8486, 1, - 7517),
    (8490, 8490, 1, - 8383), (8491, 8491, 1, - 8262), (8498, 8498, 1, 28), (8544, 8559, 1, 16),
    (8579, 8579, 1, 1), (9398, 9423, 1, 26), (11264, 11311, 1, 48), (11360, 11360, 1, 1),
    (11362, 11362, 1, - 10743), (11363, 11363, 1, - 3814), (11364, 11364, 1, - 10727),
    (11367, 11371, 2, 1), (11373, 11373, 1, - 10780), (11374, 11374, 1, - 10749),
    (11375, 11375, 1, - 10783), (11376, 11376, 1, - 10782), (11378, 11378, 1, 1),
    (11381, 11381, 1, 1), (11390, 11391, 1, - 10815), (11392, 11490, 2, 1), (11499, 11501, 2, 1),
    (11506, 11506, 1, 1), (42560, 42604, 2, 1), (42624, 42650, 2, 1), (42786, 42798, 2, 1),
    (42802, 42862, 2, 1), (42873, 42875, 2, 1), (42877, 42877, 1, - 35332), (42878, 42886, 2, 1),
    (42891, 42891, 1, 1), (42893, 42893, 1, - 42280), (42896, 42898, 2, 1), (42902, 42920, 2, 1),
    (42922, 42922, 1, - 42308), (42923, 42923, 1, - 42319), (42924, 42924, 1, - 42315),
    (42925, 42925, 1, - 42305), (42926, 42926, 1, - 42308), (42928, 42928, 1, - 42258),
    (42929, 42929, 1, - 42282), (42930, 42930, 1, - 42261), (42931, 42931, 1, 928),
    (42932, 42946, 2, 1), (42948, 42948, 1, - 48), (42949, 42949, 1, - 42307),
    (42950, 42950, 1, - 35384), (42951, 42953, 2, 1), (42960, 42960, 1, 1), (42966, 42968, 2, 1),
    (42997, 42997, 1, 1), (43888, 43967, 1, - 38864), (65313, 65338, 1, 32),
    (66560, 66599, 1, 40), (66736, 66771, 1, 40), (66928, 66938, 1, 39), (66940, 66954, 1, 39),
    (66956, 66962, 1, 39), (66964, 66965, 1, 39), (68736, 68786, 1, 64), (71840, 71871, 1, 32),
    (93760, 93791, 1, 32), (125184, 125217, 1, 34)]"

definition unicode_digit_starts :: "nat list" where
  "unicode_digit_starts = [
    1632, 1776, 1984, 2406, 2534, 2662, 2790, 2918, 3046, 3174, 3302, 3430, 3558, 3664, 3792,
    3872, 4160, 4240, 6112, 6160, 6470, 6608, 6784, 6800, 6992, 7088, 7232, 7248, 42528, 43216,
    43264, 43472, 43504, 43600, 44016, 65296, 66720, 68912, 69734, 69872, 69942, 70096, 70384,
    70736, 70864, 71248, 71360, 71472, 71904, 72016, 72784, 73040, 73120, 73552, 92768, 92864,
    93008, 123200, 123632, 124144, 125264, 130032]"

definition in_row :: "nat \<Rightarrow> nat \<times> nat \<times> nat \<times> int \<Rightarrow> bool" where
  "in_row r row = (case row of (lo, hi, st, _) \<Rightarrow> lo \<le> r \<and> r \<le> hi \<and> (r - lo) mod st = 0)"

definition table_map :: "(nat \<times> nat \<times> nat \<times> int) list \<Rightarrow> nat \<Rightarrow> nat" where
  "table_map t r =
     (case find (in_row r) t of None \<Rightarrow> r | Some (_, _, _, d) \<Rightarrow> nat (int r + d))"

text \<open>\<^verbatim>\<open>unicode.ToLower\<close>.\<close>

definition lower_rune :: "nat \<Rightarrow> nat" where
  "lower_rune r =
     (if r < 128 then (if 65 \<le> r \<and> r \<le> 90 then r + 32 else r)
      else table_map unicode_lower_table r)"

text \<open>A representative of the \<^verbatim>\<open>unicode.SimpleFold\<close> orbit.\<close>

definition fold_rune :: "nat \<Rightarrow> nat" where
  "fold_rune r =
     (if r < 128 then (if 65 \<le> r \<and> r \<le> 90 then r + 32 else r)
      else table_map unicode_fold_table r)"

text \<open>\<^verbatim>\<open>unicode.IsDigit\<close>.\<close>

definition is_unicode_digit :: "nat \<Rightarrow> bool" where
  "is_unicode_digit r \<longleftrightarrow>
     (if r < 128 then 48 \<le> r \<and> r \<le> 57
      else (120782 \<le> r \<and> r \<le> 120831) \<or> list_ex (\<lambda>s. s \<le> r \<and> r < s + 10) unicode_digit_starts)"

text \<open>\<^verbatim>\<open>unicode.IsSpace\<close>.\<close>

definition is_unicode_space :: "nat \<Rightarrow> bool" where
  "is_unicode_space r \<longleftrightarrow>
     (if r < 128 then r = 32 \<or> (9 \<le> r \<and> r \<le> 13)
      else r = 133 \<or> r = 160 \<or> r = 5760 \<or> (8192 \<le> r \<and> r \<le> 8202) \<or> r = 8232 \<or> r = 8233
           \<or> r = 8239 \<or> r = 8287 \<or> r = 12288)"

section \<open>Package strings\<close>

definition HasPrefix :: "string \<Rightarrow> string \<Rightarrow> bool" where
  "HasPrefix s p \<longleftrightarrow> take (length p) s = p"

definition HasSuffix :: "string \<Rightarrow> string \<Rightarrow> bool" where
  "HasSuffix s p \<longleftrightarrow> length p \<le> length s \<and> drop (length s - length p) s = p"

definition TrimPrefix :: "string \<Rightarrow> string \<Rightarrow> string" where
  "TrimPrefix s p = (if HasPrefix s p then drop (length p) s else s)"

text \<open>\<^verbatim>\<open>strings.ContainsAny\<close>; every set of characters the program passes is ASCII.\<close>

definition ContainsAny :: "string \<Rightarrow> string \<Rightarrow> bool" where
  "ContainsAny s chars \<longleftrightarrow> list_ex (\<lambda>c. c \<in> set chars) s"

text \<open>\<^verbatim>\<open>strings.TrimRight(s, "/")\<close>: the cutset is one ASCII byte.\<close>

definition TrimRight :: "string \<Rightarrow> char \<Rightarrow> string" where
  "TrimRight s c = rev (dropWhile (\<lambda>x. x = c) (rev s))"

text \<open>
  \<^verbatim>\<open>strings.TrimSpace\<close>. Only valid encodings can be spaces, and a valid encoding is decoded
  the same from either end, so trimming the decoded list is what the two scans do.
\<close>

definition TrimSpace :: "string \<Rightarrow> string" where
  "TrimSpace s =
     concat (map snd (rev (dropWhile (\<lambda>x. is_unicode_space (fst x))
       (rev (dropWhile (\<lambda>x. is_unicode_space (fst x)) (runes s))))))"

text \<open>\<^verbatim>\<open>strings.ToLower\<close>: the ASCII fast path, else \<^verbatim>\<open>strings.Map(unicode.ToLower, s)\<close>.\<close>

definition ToLower :: "string \<Rightarrow> string" where
  "ToLower s =
     (if list_all is_ascii s then map ascii_lower s
      else concat (map (\<lambda>x. encode_rune (lower_rune (fst x))) (runes s)))"

text \<open>\<^verbatim>\<open>strings.EqualFold\<close>: rune by rune, equal up to their \<^verbatim>\<open>SimpleFold\<close> orbits.\<close>

definition EqualFold :: "string \<Rightarrow> string \<Rightarrow> bool" where
  "EqualFold s t \<longleftrightarrow> map fold_rune (rune_values s) = map fold_rune (rune_values t)"

text \<open>\<^verbatim>\<open>strings.Cut(s, sep)\<close> with a one-byte separator: before, after, found.\<close>

definition Cut :: "string \<Rightarrow> char \<Rightarrow> string \<times> string \<times> bool" where
  "Cut s c =
     (let b = takeWhile (\<lambda>x. x \<noteq> c) s in
      if length b < length s then (b, drop (Suc (length b)) s, True) else (s, [], False))"

text \<open>\<^verbatim>\<open>strings.LastIndexByte\<close>; \<open>None\<close> is -1.\<close>

definition last_index :: "string \<Rightarrow> char \<Rightarrow> nat option" where
  "last_index s c =
     (let t = takeWhile (\<lambda>x. x \<noteq> c) (rev s) in
      if length t < length s then Some (length s - Suc (length t)) else None)"

section \<open>Package strconv\<close>

datatype num_error = ErrSyntax | ErrRange

definition digit_value :: "char \<Rightarrow> int" where
  "digit_value c = int (of_char c) - 48"

fun decimal_value :: "int \<Rightarrow> string \<Rightarrow> int" where
  "decimal_value acc [] = acc"
| "decimal_value acc (c # cs) = decimal_value (acc * 10 + digit_value c) cs"

text \<open>\<^verbatim>\<open>strconv.ParseUint(s, 10, bits)\<close> with \<open>cutoff = 2 ^ bits\<close>.\<close>

definition ParseUint :: "int \<Rightarrow> string \<Rightarrow> num_error + int" where
  "ParseUint cutoff s =
     (if s = [] \<or> \<not> list_all is_digit_char s then Inl ErrSyntax
      else let n = decimal_value 0 s in if cutoff \<le> n then Inl ErrRange else Inr n)"

text \<open>\<^verbatim>\<open>strconv.ParseInt(s, 10, 64)\<close>, which \<^verbatim>\<open>strconv.Atoi\<close> is on a 64-bit machine.\<close>

definition ParseInt64 :: "string \<Rightarrow> num_error + int" where
  "ParseInt64 s =
     (let neg = HasPrefix s ''-'';
          body = (if HasPrefix s ''-'' \<or> HasPrefix s ''+'' then tl s else s) in
      if body = [] \<or> \<not> list_all is_digit_char body then Inl ErrSyntax
      else let n = decimal_value 0 body in
        if \<not> neg \<and> max_int64 < n then Inl ErrRange
        else if neg \<and> - min_int64 < n then Inl ErrRange
        else Inr (if neg then - n else n))"

section \<open>Header names\<close>

text \<open>The token bytes of RFC 7230, as \<^verbatim>\<open>net/textproto\<close> and the program's own checks list them.\<close>

definition is_token_char :: "char \<Rightarrow> bool" where
  "is_token_char c \<longleftrightarrow>
     is_lower_alpha c \<or> is_upper_alpha c \<or> is_digit_char c \<or>
     c \<in> set [CHR ''!'', CHR ''#'', CHR ''$'', CHR ''%'', CHR ''&'', CHR 0x27, CHR ''*'',
              CHR ''+'', CHR ''-'', CHR ''.'', CHR ''^'', CHR ''_'', CHR 0x60, CHR ''|'', CHR ''~'']"

fun canonical_bytes :: "bool \<Rightarrow> string \<Rightarrow> string" where
  "canonical_bytes up [] = []"
| "canonical_bytes up (c # cs) =
     (let d = (if up then ascii_upper c else ascii_lower c)
      in d # canonical_bytes (d = CHR ''-'') cs)"

text \<open>\<^verbatim>\<open>http.CanonicalHeaderKey\<close>: a name with a byte that is no token byte is left alone.\<close>

definition CanonicalHeaderKey :: "string \<Rightarrow> string" where
  "CanonicalHeaderKey s = (if list_all is_token_char s then canonical_bytes True s else s)"

section \<open>Lemmas\<close>

lemmas char_class_defs =
  is_lower_alpha_def is_upper_alpha_def is_digit_char_def is_ascii_def less_eq_char_def

lemma of_char_lt: "of_char c < (256 :: nat)"
  by simp

lemma of_char_of_small [simp]: "n < 256 \<Longrightarrow> of_char (char_of n) = (n :: nat)"
  by (simp add: of_char_of take_bit_eq_mod)

lemma is_token_char_ascii: "is_token_char c \<Longrightarrow> is_ascii c"
  by (auto simp: is_token_char_def char_class_defs)

lemma decode_rune_width: "decode_rune c cs = (r, w) \<Longrightarrow> 1 \<le> w \<and> w - 1 \<le> length cs"
  by (auto simp: decode_rune_def Let_def split: if_splits list.splits)

lemma decode_rune_ascii [simp]: "is_ascii c \<Longrightarrow> decode_rune c cs = (of_char c, 1)"
  by (simp add: decode_rune_def is_ascii_def)

text \<open>A rune below 128 comes only from an ASCII byte: no multi-byte sequence decodes to one.\<close>

lemma decode_rune_high: "\<not> is_ascii c \<Longrightarrow> decode_rune c cs = (r, w) \<Longrightarrow> 128 \<le> r"
  by (auto simp: decode_rune_def is_ascii_def rune_error_def Let_def second_ok_def is_cont_def
      split: if_splits list.splits)

lemma runes_ascii: "list_all is_ascii s \<Longrightarrow> runes s = map (\<lambda>c. (of_char c, [c])) s"
  by (induction s) auto

lemma rune_values_ascii: "list_all is_ascii s \<Longrightarrow> rune_values s = map of_char s"
  by (simp add: rune_values_def runes_ascii)

lemma concat_runes: "concat (map snd (runes s)) = s"
proof (induction s rule: runes.induct)
  case (2 c cs)
  obtain r w where "decode_rune c cs = (r, w)" by fastforce
  with 2 show ?case by simp
qed simp

text \<open>
  A \<^verbatim>\<open>range\<close> loop that rejects every rune from 128 on accepts exactly the strings whose
  bytes it accepts one by one.
\<close>

lemma rune_check_bytes:
  assumes "\<And>r. P r \<Longrightarrow> r < 128"
  shows "list_all P (rune_values s) \<longleftrightarrow> list_all (\<lambda>c. P (of_char c)) s"
proof (induction s rule: runes.induct)
  case 1
  then show ?case by (simp add: rune_values_def)
next
  case (2 c cs)
  show ?case
  proof (cases "is_ascii c")
    case True
    with 2 show ?thesis by (simp add: rune_values_def)
  next
    case False
    obtain r w where rw: "decode_rune c cs = (r, w)" by fastforce
    have "\<not> P r" "\<not> P (of_char c)"
      using False assms decode_rune_high [OF False rw] by (force simp: is_ascii_def)+
    then show ?thesis using rw by (simp add: rune_values_def)
  qed
qed

lemma HasPrefix_iff: "HasPrefix s p \<longleftrightarrow> (\<exists>t. s = p @ t)"
  by (auto simp: HasPrefix_def) (metis append_take_drop_id)

lemma HasPrefix_append [simp]: "HasPrefix (p @ t) p"
  by (simp add: HasPrefix_def)

lemma HasPrefix_Cons [simp]: "HasPrefix s [c] \<longleftrightarrow> s \<noteq> [] \<and> hd s = c"
  by (cases s) (auto simp: HasPrefix_def)

lemma HasSuffix_iff: "HasSuffix s p \<longleftrightarrow> (\<exists>t. s = t @ p)"
  by (auto simp: HasSuffix_def) (metis append_take_drop_id)

lemma TrimPrefix_append [simp]: "TrimPrefix (p @ t) p = t"
  by (simp add: TrimPrefix_def)

lemma TrimPrefix_id: "\<not> HasPrefix s p \<Longrightarrow> TrimPrefix s p = s"
  by (simp add: TrimPrefix_def)

lemma TrimRight_no_suffix: "TrimRight s c \<noteq> [] \<Longrightarrow> last (TrimRight s c) \<noteq> c"
  unfolding TrimRight_def last_rev using hd_dropWhile [of "\<lambda>x. x = c" "rev s"] by simp

lemma char_eqI: "of_char c = (of_char d :: nat) \<Longrightarrow> c = d"
  by simp

lemma of_char_lower:
  "(of_char (ascii_lower c) :: nat) =
     (if 65 \<le> (of_char c :: nat) \<and> (of_char c :: nat) \<le> 90 then of_char c + 32 else of_char c)"
  by (simp add: ascii_lower_def char_class_defs)

lemma of_char_upper:
  "(of_char (ascii_upper c) :: nat) =
     (if 97 \<le> (of_char c :: nat) \<and> (of_char c :: nat) \<le> 122 then of_char c - 32 else of_char c)"
  using of_char_lt [of c] by (auto simp: ascii_upper_def char_class_defs mod_less)

lemma ascii_upper_simps [simp]:
  "ascii_upper (ascii_upper c) = ascii_upper c" "ascii_upper (ascii_lower c) = ascii_upper c"
  "ascii_lower (ascii_lower c) = ascii_lower c" "ascii_lower (ascii_upper c) = ascii_lower c"
  by (rule char_eqI, auto simp: of_char_lower of_char_upper)+

lemma ascii_dash [simp]:
  "ascii_upper c = CHR ''-'' \<longleftrightarrow> c = CHR ''-''" "ascii_lower c = CHR ''-'' \<longleftrightarrow> c = CHR ''-''"
proof -
  have dash: "d = CHR ''-'' \<longleftrightarrow> of_char d = (45 :: nat)" for d
    using char_eqI [of d "CHR ''-''"] by auto
  show "ascii_upper c = CHR ''-'' \<longleftrightarrow> c = CHR ''-''" "ascii_lower c = CHR ''-'' \<longleftrightarrow> c = CHR ''-''"
    unfolding dash by (auto simp: of_char_lower of_char_upper)
qed

lemma is_token_char_letter: "is_lower_alpha c \<or> is_upper_alpha c \<Longrightarrow> is_token_char c"
  by (auto simp: is_token_char_def)

lemma is_token_char_case [simp]:
  "is_token_char (ascii_upper c) = is_token_char c" "is_token_char (ascii_lower c) = is_token_char c"
proof -
  have "is_lower_alpha c \<Longrightarrow> is_upper_alpha (ascii_upper c)"
    by (auto simp: char_class_defs of_char_upper)
  moreover have "is_upper_alpha c \<Longrightarrow> is_lower_alpha (ascii_lower c)"
    by (simp add: char_class_defs of_char_lower)
  ultimately show "is_token_char (ascii_upper c) = is_token_char c"
      "is_token_char (ascii_lower c) = is_token_char c"
    using is_token_char_letter by (metis ascii_upper_def, metis ascii_lower_def)
qed

lemma canonical_bytes_idem [simp]: "canonical_bytes u (canonical_bytes u s) = canonical_bytes u s"
  by (induction s arbitrary: u) (auto simp: Let_def)

lemma canonical_bytes_lower [simp]: "canonical_bytes u (map ascii_lower s) = canonical_bytes u s"
  by (induction s arbitrary: u) (auto simp: Let_def)

lemma lower_canonical_bytes [simp]: "map ascii_lower (canonical_bytes u s) = map ascii_lower s"
  by (induction s arbitrary: u) (auto simp: Let_def)

lemma token_canonical_bytes [simp]:
  "list_all is_token_char (canonical_bytes u s) = list_all is_token_char s"
  by (induction s arbitrary: u) (auto simp: Let_def)

lemma CanonicalHeaderKey_idem [simp]: "CanonicalHeaderKey (CanonicalHeaderKey s) = CanonicalHeaderKey s"
  by (simp add: CanonicalHeaderKey_def)

lemma CanonicalHeaderKey_Nil [simp]: "CanonicalHeaderKey s = [] \<longleftrightarrow> s = []"
  by (cases s) (auto simp: CanonicalHeaderKey_def Let_def)

lemma token_ascii: "list_all is_token_char s \<Longrightarrow> list_all is_ascii s"
  by (auto simp: list_all_iff is_token_char_ascii)

text \<open>Two token strings have the same canonical form exactly when they differ in case only.\<close>

lemma CanonicalHeaderKey_eq_iff:
  assumes "list_all is_token_char s" "list_all is_token_char t"
  shows "CanonicalHeaderKey s = CanonicalHeaderKey t \<longleftrightarrow> ToLower s = ToLower t"
proof
  assume "CanonicalHeaderKey s = CanonicalHeaderKey t"
  then have "map ascii_lower (canonical_bytes True s) = map ascii_lower (canonical_bytes True t)"
    using assms by (simp add: CanonicalHeaderKey_def)
  then show "ToLower s = ToLower t"
    using assms by (simp add: ToLower_def token_ascii)
next
  assume "ToLower s = ToLower t"
  then have "canonical_bytes True (map ascii_lower s) = canonical_bytes True (map ascii_lower t)"
    using assms by (simp add: ToLower_def token_ascii)
  then show "CanonicalHeaderKey s = CanonicalHeaderKey t"
    using assms by (simp add: CanonicalHeaderKey_def)
qed

lemma decimal_value_nonneg: "list_all is_digit_char s \<Longrightarrow> 0 \<le> acc \<Longrightarrow> 0 \<le> decimal_value acc s"
  by (induction acc s rule: decimal_value.induct)
    (auto simp: digit_value_def is_digit_char_def less_eq_char_def)

lemma ParseInt64_range: "ParseInt64 s = Inr n \<Longrightarrow> is_int64 n"
  using decimal_value_nonneg [of _ 0]
  by (fastforce simp: ParseInt64_def is_int64_def max_int64_def min_int64_def Let_def
      split: if_splits)

lemma ParseUint_range: "ParseUint k s = Inr n \<Longrightarrow> 0 \<le> n \<and> n < k"
  by (auto simp: ParseUint_def Let_def decimal_value_nonneg split: if_splits)

end
