(* ===== verification/Envelope_Codec.thy ===== *)
theory Envelope_Codec
  imports Go_Text
begin

text \<open>
  The contract every envelope codec of the program shares: the encoder validates and then
  marshals, the decoder unmarshals and then validates. MessagePack itself
  (\<^verbatim>\<open>github.com/vmihailenco/msgpack\<close>) is not part of the repository: its \<^verbatim>\<open>Marshal\<close> and
  \<^verbatim>\<open>Unmarshal\<close> are parameters, and the one law the program relies on is
  \<open>codec_inverse\<close>, that unmarshalling what was marshalled gives the value back.

  The locale \<open>validated_codec\<close> holds the contract; the five envelopes interpret it.
  The theory also holds the token alphabet that route names, session ids, connector ids and
  NATS subject tokens share.
\<close>

type_synonym 'a marshal = "'a \<Rightarrow> string + bytes"

type_synonym 'a unmarshal = "bytes \<Rightarrow> string + 'a"

text \<open>What is documented of the MessagePack library: \<^verbatim>\<open>Unmarshal\<close> inverts \<^verbatim>\<open>Marshal\<close>.\<close>

definition codec_inverse :: "'a marshal \<Rightarrow> 'a unmarshal \<Rightarrow> bool" where
  "codec_inverse m u \<longleftrightarrow> (\<forall>x b. m x = Inr b \<longrightarrow> u b = Inr x)"

text \<open>A \<^verbatim>\<open>range\<close> loop body that continues on \<open>[A-Za-z0-9_-]\<close> only.\<close>

definition subject_rune :: "nat \<Rightarrow> bool" where
  "subject_rune r \<longleftrightarrow>
     (97 \<le> r \<and> r \<le> 122) \<or> (65 \<le> r \<and> r \<le> 90) \<or> (48 \<le> r \<and> r \<le> 57) \<or> r = 95 \<or> r = 45"

text \<open>The same alphabet on bytes: the set of strings the documentation calls tokens.\<close>

definition subject_char :: "char \<Rightarrow> bool" where
  "subject_char c \<longleftrightarrow>
     is_lower_alpha c \<or> is_upper_alpha c \<or> is_digit_char c \<or> c = CHR ''_'' \<or> c = CHR ''-''"

definition subject_token :: "string \<Rightarrow> bool" where
  "subject_token s \<longleftrightarrow> s \<noteq> [] \<and> (\<forall>c \<in> set s. subject_char c)"

lemma subject_rune_char: "subject_rune (of_char c) = subject_char c"
proof -
  have "c = CHR ''_'' \<longleftrightarrow> of_char c = (95 :: nat)" "c = CHR ''-'' \<longleftrightarrow> of_char c = (45 :: nat)"
    using char_eqI [of c "CHR ''_''"] char_eqI [of c "CHR ''-''"] by auto
  then show ?thesis
    by (simp add: subject_rune_def subject_char_def char_class_defs)
qed

lemma subject_runes_bytes: "list_all subject_rune (rune_values s) \<longleftrightarrow> (\<forall>c \<in> set s. subject_char c)"
proof -
  have "list_all subject_rune (rune_values s) \<longleftrightarrow> list_all (\<lambda>c. subject_rune (of_char c)) s"
    by (rule rune_check_bytes) (auto simp: subject_rune_def)
  then show ?thesis by (simp add: subject_rune_char list_all_iff)
qed

lemma subject_char_token_char: "subject_char c \<Longrightarrow> is_token_char c"
  by (auto simp: subject_char_def is_token_char_def)

lemma subject_char_not_separator: "subject_char c \<Longrightarrow> c \<notin> set ''.*> /?#''"
  by (auto simp: subject_char_def char_class_defs)

section \<open>The codec contract\<close>

locale validated_codec =
  fixes validate :: "'a \<Rightarrow> 'e option"
    and encode :: "'a marshal \<Rightarrow> 'a \<Rightarrow> ('e, bytes) result"
    and decode :: "'a unmarshal \<Rightarrow> bytes \<Rightarrow> ('e, 'a) result"
  assumes encode_invalid: "validate x = Some e \<Longrightarrow> encode m x = Inl e"
    and encode_valid: "validate x = None \<Longrightarrow> m x = Inr b \<Longrightarrow> encode m x = Inr b"
    and encode_marshal: "encode m x = Inr b \<Longrightarrow> m x = Inr b"
    and decode_bad: "u b = Inl d \<Longrightarrow> \<exists>e. decode u b = Inl e"
    and decode_invalid: "u b = Inr x \<Longrightarrow> validate x = Some e \<Longrightarrow> decode u b = Inl e"
    and decode_valid: "u b = Inr x \<Longrightarrow> validate x = None \<Longrightarrow> decode u b = Inr x"
begin

lemma encode_ok_iff: "encode m x = Inr b \<longleftrightarrow> validate x = None \<and> m x = Inr b"
  using encode_invalid encode_valid encode_marshal by (metis Inr_not_Inl option.exhaust)

lemma decode_ok_iff: "decode u b = Inr x \<longleftrightarrow> u b = Inr x \<and> validate x = None"
proof
  assume d: "decode u b = Inr x"
  show "u b = Inr x \<and> validate x = None"
  proof (cases "u b")
    case (Inl e)
    with d decode_bad show ?thesis by force
  next
    case (Inr y)
    with d decode_invalid decode_valid show ?thesis
      by (metis Inr_not_Inl option.exhaust sum.inject(2))
  qed
qed (simp add: decode_valid)

lemma round_trip: "codec_inverse m u \<Longrightarrow> encode m x = Inr b \<Longrightarrow> decode u b = Inr x"
  by (auto simp: codec_inverse_def encode_ok_iff decode_ok_iff)

lemma encodes_valid:
  "codec_inverse m u \<Longrightarrow> m x = Inr b \<Longrightarrow> validate x = None \<Longrightarrow>
   encode m x = Inr b \<and> decode u b = Inr x"
  using round_trip encode_ok_iff by blast

text \<open>Both ends give the same verdict on a value: the wire carries it exactly when it is valid.\<close>

lemma same_verdict:
  "codec_inverse m u \<Longrightarrow> m x = Inr b \<Longrightarrow>
   (case validate x of
      None \<Rightarrow> encode m x = Inr b \<and> decode u b = Inr x
    | Some e \<Rightarrow> encode m x = Inl e \<and> decode u b = Inl e)"
  using encodes_valid encode_invalid decode_invalid
  by (auto simp: codec_inverse_def split: option.splits)

lemma wire_contract:
  "codec_inverse m u \<Longrightarrow> m x = Inr b \<Longrightarrow> (validate x = None \<longleftrightarrow> P) \<Longrightarrow>
   (P \<longrightarrow> encode m x = Inr b \<and> decode u b = Inr x) \<and>
   (\<not> P \<longrightarrow> (\<exists>e. encode m x = Inl e \<and> decode u b = Inl e))"
  using same_verdict [of m u x b] by (auto split: option.splits)

end

section \<open>Codecs of one value\<close>

text \<open>A codec that knows a single value; enough to run the models on examples.\<close>

definition one_marshal :: "'a \<Rightarrow> 'a marshal" where
  "one_marshal x y = (if y = x then Inr ''x'' else Inl ''unknown'')"

definition one_unmarshal :: "'a \<Rightarrow> 'a unmarshal" where
  "one_unmarshal x b = (if b = ''x'' then Inr x else Inl ''unknown'')"

lemma one_codec: "codec_inverse (one_marshal x) (one_unmarshal x)"
  by (simp add: codec_inverse_def one_marshal_def one_unmarshal_def)

end
