(* ===== verification/Tunnel_Envelope.thy ===== *)
theory Tunnel_Envelope
  imports Envelope_Codec
begin

text \<open>
  Package \<^verbatim>\<open>internal/protocol/tunnel\<close> (\<^verbatim>\<open>envelope.go\<close>): the frames of the data tunnel and
  the NATS open request and response, their validators and their codecs. Frame types, kinds
  and data kinds are strings in the code and stay strings here. Each \<^verbatim>\<open>fmt.Errorf\<close> of a
  validator is a constructor of \<open>tunnel_error\<close>.

  The lemmas characterise each validator by a declarative well-formedness predicate and give
  the codec round trips.
\<close>

section \<open>Constants and data\<close>

definition Version :: int where "Version = 1"

definition FrameOpen :: string where "FrameOpen = ''open''"
definition FrameData :: string where "FrameData = ''data''"
definition FrameEOF :: string where "FrameEOF = ''eof''"
definition FrameWindow :: string where "FrameWindow = ''window''"
definition FrameClose :: string where "FrameClose = ''close''"
definition FrameError :: string where "FrameError = ''error''"

definition KindTCP :: string where "KindTCP = ''tcp''"
definition KindWebSocket :: string where "KindWebSocket = ''websocket''"
definition KindGRPC :: string where "KindGRPC = ''grpc''"
definition KindHTTPStream :: string where "KindHTTPStream = ''http-stream''"

definition DataBinary :: string where "DataBinary = ''binary''"
definition DataText :: string where "DataText = ''text''"

definition ErrTunnelNotConnected :: string where
  "ErrTunnelNotConnected = ''connector data tunnel is not connected''"

lemmas frame_type_defs =
  FrameOpen_def FrameData_def FrameEOF_def FrameWindow_def FrameClose_def FrameError_def

lemmas kind_defs = KindTCP_def KindWebSocket_def KindGRPC_def KindHTTPStream_def

record frame =
  f_Version :: int
  f_Type :: string
  f_SessionID :: string
  f_Route :: string
  f_Kind :: string
  f_DataKind :: string
  f_Payload :: bytes
  f_Window :: int
  f_CloseCode :: int
  f_Error :: string

record open_request =
  oq_Version :: int
  oq_RequestID :: string
  oq_SessionID :: string
  oq_Route :: string
  oq_Kind :: string
  oq_Path :: string
  oq_DeadlineUnixMS :: int

record open_response =
  os_Version :: int
  os_RequestID :: string
  os_Accepted :: bool
  os_ConnectorID :: string
  os_Error :: string

datatype tunnel_error =
    ErrVersion int | ErrSessionID string | ErrRoute string | ErrKind string
  | ErrDataKind string | ErrWindow int | ErrCloseCode int | ErrErrorText
  | ErrType string | ErrRequestID string | ErrPath | ErrDeadline | ErrConnectorID string
  | ErrMarshal string | ErrUnmarshal string

text \<open>A frame literal of the code leaves the fields it does not name at their zero values.\<close>

definition NewFrame :: "string \<Rightarrow> string \<Rightarrow> frame" where
  "NewFrame frameType sessionID =
     \<lparr>f_Version = Version, f_Type = frameType, f_SessionID = sessionID, f_Route = [], f_Kind = [],
      f_DataKind = [], f_Payload = [], f_Window = 0, f_CloseCode = 0, f_Error = []\<rparr>"

section \<open>Validation\<close>

definition validToken :: "string \<Rightarrow> bool" where
  "validToken s = (if s = [] then False else list_all subject_rune (rune_values s))"

definition validateRouteAndKind :: "string \<Rightarrow> string \<Rightarrow> tunnel_error option" where
  "validateRouteAndKind route kind =
     (if \<not> validToken route then Some (ErrRoute route)
      else if kind \<in> {KindTCP, KindWebSocket, KindGRPC, KindHTTPStream} then None
      else Some (ErrKind kind))"

definition Frame_Validate :: "frame \<Rightarrow> tunnel_error option" where
  "Frame_Validate f =
     (if f_Version f \<noteq> Version then Some (ErrVersion (f_Version f))
      else if \<not> validToken (f_SessionID f) then Some (ErrSessionID (f_SessionID f))
      else if f_Type f = FrameOpen then validateRouteAndKind (f_Route f) (f_Kind f)
      else if f_Type f = FrameData then
        (if f_DataKind f \<noteq> [] \<and> f_DataKind f \<noteq> DataBinary \<and> f_DataKind f \<noteq> DataText
         then Some (ErrDataKind (f_DataKind f)) else None)
      else if f_Type f = FrameEOF then None
      else if f_Type f = FrameWindow then
        (if f_Window f \<le> 0 then Some (ErrWindow (f_Window f)) else None)
      else if f_Type f = FrameClose then
        (if f_CloseCode f \<noteq> 0 \<and> (f_CloseCode f < 1000 \<or> f_CloseCode f > 4999)
         then Some (ErrCloseCode (f_CloseCode f)) else None)
      else if f_Type f = FrameError then
        (if f_Error f = [] \<or> ContainsAny (f_Error f) [CHR 0x0D, CHR 0x0A]
         then Some ErrErrorText else None)
      else Some (ErrType (f_Type f)))"

text \<open>\<^verbatim>\<open>time.UnixMilli(ms).Before(time.Unix(0, 0))\<close>.\<close>

definition unix_milli_before_epoch :: "int \<Rightarrow> bool" where
  "unix_milli_before_epoch ms \<longleftrightarrow> ms < 0"

definition OpenRequest_Validate :: "open_request \<Rightarrow> tunnel_error option" where
  "OpenRequest_Validate r =
     (if oq_Version r \<noteq> Version then Some (ErrVersion (oq_Version r))
      else if \<not> validToken (oq_RequestID r) then Some (ErrRequestID (oq_RequestID r))
      else if \<not> validToken (oq_SessionID r) then Some (ErrSessionID (oq_SessionID r))
      else case validateRouteAndKind (oq_Route r) (oq_Kind r) of
        Some e \<Rightarrow> Some e
      | None \<Rightarrow>
          if oq_Path r \<noteq> [] \<and>
             (\<not> HasPrefix (oq_Path r) ''/'' \<or> ContainsAny (oq_Path r) [CHR 0x0D, CHR 0x0A, CHR ''#''])
          then Some ErrPath
          else if oq_DeadlineUnixMS r \<le> 0 \<or> unix_milli_before_epoch (oq_DeadlineUnixMS r)
          then Some ErrDeadline
          else None)"

definition OpenResponse_Validate :: "open_response \<Rightarrow> tunnel_error option" where
  "OpenResponse_Validate r =
     (if os_Version r \<noteq> Version then Some (ErrVersion (os_Version r))
      else if \<not> validToken (os_RequestID r) then Some (ErrRequestID (os_RequestID r))
      else if os_Accepted r then
        (if \<not> validToken (os_ConnectorID r) then Some (ErrConnectorID (os_ConnectorID r)) else None)
      else if os_Error r = [] \<or> ContainsAny (os_Error r) [CHR 0x0D, CHR 0x0A]
      then Some ErrErrorText
      else None)"

section \<open>Codecs\<close>

definition EncodeFrame :: "frame marshal \<Rightarrow> frame \<Rightarrow> (tunnel_error, bytes) result" where
  "EncodeFrame m f =
     (case Frame_Validate f of
        Some e \<Rightarrow> Inl e
      | None \<Rightarrow> (case m f of Inl d \<Rightarrow> Inl (ErrMarshal d) | Inr b \<Rightarrow> Inr b))"

definition DecodeFrame :: "frame unmarshal \<Rightarrow> bytes \<Rightarrow> (tunnel_error, frame) result" where
  "DecodeFrame u data =
     (case u data of
        Inl d \<Rightarrow> Inl (ErrUnmarshal d)
      | Inr f \<Rightarrow> (case Frame_Validate f of Some e \<Rightarrow> Inl e | None \<Rightarrow> Inr f))"

definition EncodeOpenRequest :: "open_request marshal \<Rightarrow> open_request \<Rightarrow> (tunnel_error, bytes) result" where
  "EncodeOpenRequest m r =
     (case OpenRequest_Validate r of
        Some e \<Rightarrow> Inl e
      | None \<Rightarrow> (case m r of Inl d \<Rightarrow> Inl (ErrMarshal d) | Inr b \<Rightarrow> Inr b))"

definition DecodeOpenRequest :: "open_request unmarshal \<Rightarrow> bytes \<Rightarrow> (tunnel_error, open_request) result" where
  "DecodeOpenRequest u data =
     (case u data of
        Inl d \<Rightarrow> Inl (ErrUnmarshal d)
      | Inr r \<Rightarrow> (case OpenRequest_Validate r of Some e \<Rightarrow> Inl e | None \<Rightarrow> Inr r))"

definition EncodeOpenResponse :: "open_response marshal \<Rightarrow> open_response \<Rightarrow> (tunnel_error, bytes) result" where
  "EncodeOpenResponse m r =
     (case OpenResponse_Validate r of
        Some e \<Rightarrow> Inl e
      | None \<Rightarrow> (case m r of Inl d \<Rightarrow> Inl (ErrMarshal d) | Inr b \<Rightarrow> Inr b))"

definition DecodeOpenResponse :: "open_response unmarshal \<Rightarrow> bytes \<Rightarrow> (tunnel_error, open_response) result" where
  "DecodeOpenResponse u data =
     (case u data of
        Inl d \<Rightarrow> Inl (ErrUnmarshal d)
      | Inr r \<Rightarrow> (case OpenResponse_Validate r of Some e \<Rightarrow> Inl e | None \<Rightarrow> Inr r))"

section \<open>What the validators accept\<close>

text \<open>A line of text that an error may carry: not empty, no line break.\<close>

definition one_line :: "string \<Rightarrow> bool" where
  "one_line s \<longleftrightarrow> s \<noteq> [] \<and> CHR 0x0D \<notin> set s \<and> CHR 0x0A \<notin> set s"

text \<open>
  The frames the protocol allows, by type. This is the table of frames of the
  architecture document with the constraints its security section lists.
\<close>

definition frame_ok :: "frame \<Rightarrow> bool" where
  "frame_ok f \<longleftrightarrow>
     f_Version f = 1 \<and> subject_token (f_SessionID f) \<and>
     (f_Type f = ''open'' \<and> subject_token (f_Route f) \<and>
        f_Kind f \<in> {''tcp'', ''websocket'', ''grpc'', ''http-stream''}
      \<or> f_Type f = ''data'' \<and> f_DataKind f \<in> {'''', ''binary'', ''text''}
      \<or> f_Type f = ''eof''
      \<or> f_Type f = ''window'' \<and> 0 < f_Window f
      \<or> f_Type f = ''close'' \<and> (f_CloseCode f = 0 \<or> f_CloseCode f \<in> {1000..4999})
      \<or> f_Type f = ''error'' \<and> one_line (f_Error f))"

definition open_request_ok :: "open_request \<Rightarrow> bool" where
  "open_request_ok r \<longleftrightarrow>
     oq_Version r = 1 \<and> subject_token (oq_RequestID r) \<and> subject_token (oq_SessionID r) \<and>
     subject_token (oq_Route r) \<and> oq_Kind r \<in> {''tcp'', ''websocket'', ''grpc'', ''http-stream''} \<and>
     (oq_Path r = [] \<or>
        hd (oq_Path r) = CHR ''/'' \<and> set (oq_Path r) \<inter> {CHR 0x0D, CHR 0x0A, CHR ''#''} = {}) \<and>
     0 < oq_DeadlineUnixMS r"

definition open_response_ok :: "open_response \<Rightarrow> bool" where
  "open_response_ok r \<longleftrightarrow>
     os_Version r = 1 \<and> subject_token (os_RequestID r) \<and>
     (if os_Accepted r then subject_token (os_ConnectorID r) else one_line (os_Error r))"

lemma validToken_iff: "validToken s \<longleftrightarrow> subject_token s"
  by (simp add: validToken_def subject_token_def subject_runes_bytes)

lemma ContainsAny_iff: "ContainsAny s cs \<longleftrightarrow> set s \<inter> set cs \<noteq> {}"
  by (auto simp: ContainsAny_def list_ex_iff)

lemma one_line_iff: "one_line s \<longleftrightarrow> \<not> (s = [] \<or> ContainsAny s [CHR 0x0D, CHR 0x0A])"
  by (auto simp: one_line_def ContainsAny_iff)

lemma validateRouteAndKind_iff:
  "validateRouteAndKind r k = None \<longleftrightarrow>
     subject_token r \<and> k \<in> {''tcp'', ''websocket'', ''grpc'', ''http-stream''}"
  by (simp add: validateRouteAndKind_def validToken_iff kind_defs)

lemmas tunnel_validate_defs [validate_defs] =
  validToken_iff validateRouteAndKind_iff one_line_iff Version_def

lemma Frame_Validate_iff: "Frame_Validate f = None \<longleftrightarrow> frame_ok f"
  by (simp add: Frame_Validate_def frame_ok_def frame_type_defs DataBinary_def DataText_def
      validate_defs) auto

lemma OpenRequest_Validate_iff: "OpenRequest_Validate r = None \<longleftrightarrow> open_request_ok r"
  by (cases "validateRouteAndKind (oq_Route r) (oq_Kind r)")
    (use validateRouteAndKind_iff [of "oq_Route r" "oq_Kind r"] in
      \<open>auto simp: OpenRequest_Validate_def open_request_ok_def validToken_iff Version_def
        ContainsAny_iff unix_milli_before_epoch_def\<close>)

lemma OpenResponse_Validate_iff: "OpenResponse_Validate r = None \<longleftrightarrow> open_response_ok r"
  by (simp add: OpenResponse_Validate_def open_response_ok_def validate_defs)

section \<open>The codec contract holds\<close>

interpretation frame_codec: validated_codec Frame_Validate EncodeFrame DecodeFrame
  by unfold_locales (auto simp: EncodeFrame_def DecodeFrame_def split: option.splits sum.splits)

interpretation open_request_codec: validated_codec OpenRequest_Validate EncodeOpenRequest DecodeOpenRequest
  by unfold_locales
    (auto simp: EncodeOpenRequest_def DecodeOpenRequest_def split: option.splits sum.splits)

interpretation open_response_codec: validated_codec OpenResponse_Validate EncodeOpenResponse DecodeOpenResponse
  by unfold_locales
    (auto simp: EncodeOpenResponse_def DecodeOpenResponse_def split: option.splits sum.splits)

section \<open>Properties\<close>

text \<open>
  C36. Both ends of a data tunnel agree on every frame. A frame that meets the protocol's
  constraints for its type (\<open>frame_ok\<close>) is encoded and decoded back to the same frame; any
  other frame is refused by the encoder, and by the decoder of a peer that did not check, with
  the same error.
\<close>

theorem frame_wire:
  assumes "codec_inverse m u" "m f = Inr b"
  shows "(frame_ok f \<longrightarrow> EncodeFrame m f = Inr b \<and> DecodeFrame u b = Inr f) \<and>
    (\<not> frame_ok f \<longrightarrow> (\<exists>e. EncodeFrame m f = Inl e \<and> DecodeFrame u b = Inl e))"
  using frame_codec.wire_contract [OF assms Frame_Validate_iff] .

text \<open>The contract at a concrete value, with a marshaller that knows this value.\<close>

theorem frame_wire_witness:
  "let x = (NewFrame FrameWindow ''s-1'')\<lparr>f_Window := 16\<rparr>;
       m = (\<lambda>y. if y = x then Inr ''w'' else Inl ''unknown''); u = (\<lambda>b. Inr x) in
   EncodeFrame m x = Inr ''w'' \<and> DecodeFrame u ''w'' = Inr x"
proof -
  let ?x = "(NewFrame FrameWindow ''s-1'')\<lparr>f_Window := 16\<rparr>"
  let ?m = "\<lambda>y. if y = ?x then Inr ''w'' else Inl ''unknown''"
  have "codec_inverse ?m (\<lambda>b. Inr ?x)" by (simp add: codec_inverse_def)
  moreover have "?m ?x = Inr ''w''" by simp
  moreover have "frame_ok ?x"
    unfolding Frame_Validate_iff [symmetric] by code_simp
  ultimately show ?thesis
    unfolding Let_def using frame_wire [of ?m "\<lambda>b. Inr ?x" ?x "''w''"] by blast
qed

text \<open>
  The open request of a TCP, WebSocket or gRPC session: valid requests survive the round trip
  through NATS, invalid ones (bad ids, unknown kind, a path that does not start with a slash
  or has a line break or a fragment, no deadline) are refused at both ends with the same error.
\<close>

theorem open_request_wire:
  assumes "codec_inverse m u" "m r = Inr b"
  shows "(open_request_ok r \<longrightarrow> EncodeOpenRequest m r = Inr b \<and> DecodeOpenRequest u b = Inr r) \<and>
    (\<not> open_request_ok r \<longrightarrow> (\<exists>e. EncodeOpenRequest m r = Inl e \<and> DecodeOpenRequest u b = Inl e))"
  using open_request_codec.wire_contract [OF assms OpenRequest_Validate_iff] .

text \<open>The contract at a concrete value, with a marshaller that knows this value.\<close>

theorem open_request_wire_witness:
  "let x = \<lparr>oq_Version = 1, oq_RequestID = ''r1'', oq_SessionID = ''s1'', oq_Route = ''web'', oq_Kind = ''websocket'', oq_Path = ''/chat?x=1'', oq_DeadlineUnixMS = 1700000000000\<rparr>;
       m = (\<lambda>y. if y = x then Inr ''w'' else Inl ''unknown''); u = (\<lambda>b. Inr x) in
   EncodeOpenRequest m x = Inr ''w'' \<and> DecodeOpenRequest u ''w'' = Inr x"
proof -
  let ?x = "\<lparr>oq_Version = 1, oq_RequestID = ''r1'', oq_SessionID = ''s1'', oq_Route = ''web'', oq_Kind = ''websocket'', oq_Path = ''/chat?x=1'', oq_DeadlineUnixMS = 1700000000000\<rparr>"
  let ?m = "\<lambda>y. if y = ?x then Inr ''w'' else Inl ''unknown''"
  have "codec_inverse ?m (\<lambda>b. Inr ?x)" by (simp add: codec_inverse_def)
  moreover have "?m ?x = Inr ''w''" by simp
  moreover have "open_request_ok ?x"
    unfolding OpenRequest_Validate_iff [symmetric] by code_simp
  ultimately show ?thesis
    unfolding Let_def using open_request_wire [of ?m "\<lambda>b. Inr ?x" ?x "''w''"] by blast
qed

end
