(* ===== verification/Unary_Envelope.thy ===== *)
theory Unary_Envelope
  imports Tunnel_Envelope
begin

text \<open>
  Package \<^verbatim>\<open>internal/protocol/httpunary\<close> (\<^verbatim>\<open>envelope.go\<close>): the request and response envelopes
  of the HTTP unary path, their validators and codecs.

  An \<^verbatim>\<open>http.Header\<close> is a map whose iteration order the runtime chooses; it is the
  association list of its entries in the order of one iteration. Keys are distinct
  (\<open>header_wf\<close>); a lookup does not depend on the order.
\<close>

type_synonym header = "(string \<times> string list) list"

definition header_wf :: "header \<Rightarrow> bool" where
  "header_wf h \<longleftrightarrow> distinct (map fst h)"

definition UnaryVersion :: int where "UnaryVersion = 1"

record unary_request =
  rq_Version :: int
  rq_RequestID :: string
  rq_Route :: string
  rq_DeadlineUnixMS :: int
  rq_Method :: string
  rq_Scheme :: string
  rq_Authority :: string
  rq_Path :: string
  rq_Headers :: header
  rq_Body :: bytes

record unary_failure =
  e_Code :: string
  e_Message :: string

record unary_response =
  rs_Version :: int
  rs_RequestID :: string
  rs_Status :: int
  rs_Headers :: header
  rs_Body :: bytes
  rs_StreamSessionID :: string
  rs_ConnectorID :: string
  rs_Error :: "unary_failure option"

datatype unary_error =
    UVersion int | URequestIDRequired | URouteRequired | URoute string
  | UDeadlineRequired | UDeadlineInvalid | UMethod string | UScheme string | UAuthority
  | UPathSlash | UPathInvalid | UHeaderName string | UHeaderValue string
  | UStatus int | UStreamSessionID | UConnectorID | UBodyAndStream
  | UErrorCode string | UErrorMessage | UMarshal string | UUnmarshal string

section \<open>Validation\<close>

definition validToken_unary :: "string \<Rightarrow> bool" where
  "validToken_unary s \<longleftrightarrow> list_all is_token_char s \<and> s \<noteq> []"

definition validateRoute :: "string \<Rightarrow> unary_error option" where
  "validateRoute route =
     (if route = [] then Some URouteRequired
      else if list_all subject_rune (rune_values route) then None
      else Some (URoute route))"

definition validatePath_unary :: "string \<Rightarrow> unary_error option" where
  "validatePath_unary path =
     (if path = [] \<or> \<not> HasPrefix path ''/'' then Some UPathSlash
      else if ContainsAny path [CHR 0x0D, CHR 0x0A, CHR ''#''] then Some UPathInvalid
      else None)"

fun validateValues :: "string \<Rightarrow> string list \<Rightarrow> unary_error option" where
  "validateValues name [] = None"
| "validateValues name (v # vs) =
     (if ContainsAny v [CHR 0x0D, CHR 0x0A] then Some (UHeaderValue name) else validateValues name vs)"

fun validateHeaders :: "header \<Rightarrow> unary_error option" where
  "validateHeaders [] = None"
| "validateHeaders ((name, vs) # h) =
     (if name = [] \<or> \<not> validToken_unary name then Some (UHeaderName name)
      else case validateValues name vs of Some e \<Rightarrow> Some e | None \<Rightarrow> validateHeaders h)"

definition Error_Validate :: "unary_failure \<Rightarrow> unary_error option" where
  "Error_Validate e =
     (if e_Code e = [] \<or> \<not> validToken_unary (e_Code e) then Some (UErrorCode (e_Code e))
      else if ContainsAny (e_Message e) [CHR 0x0D, CHR 0x0A] then Some UErrorMessage
      else None)"

definition Request_Validate :: "unary_request \<Rightarrow> unary_error option" where
  "Request_Validate r =
     (if rq_Version r \<noteq> UnaryVersion then Some (UVersion (rq_Version r))
      else if rq_RequestID r = [] then Some URequestIDRequired
      else case validateRoute (rq_Route r) of Some e \<Rightarrow> Some e | None \<Rightarrow>
      if rq_DeadlineUnixMS r \<le> 0 then Some UDeadlineRequired
      else if unix_milli_before_epoch (rq_DeadlineUnixMS r) then Some UDeadlineInvalid
      else if rq_Method r = [] \<or> \<not> validToken_unary (rq_Method r) then Some (UMethod (rq_Method r))
      else if rq_Scheme r \<noteq> ''http'' \<and> rq_Scheme r \<noteq> ''https'' then Some (UScheme (rq_Scheme r))
      else if rq_Authority r = [] \<or> ContainsAny (rq_Authority r) [CHR 0x0D, CHR 0x0A]
      then Some UAuthority
      else case validatePath_unary (rq_Path r) of Some e \<Rightarrow> Some e | None \<Rightarrow>
      validateHeaders (rq_Headers r))"

definition Response_Validate :: "unary_response \<Rightarrow> unary_error option" where
  "Response_Validate r =
     (if rs_Version r \<noteq> UnaryVersion then Some (UVersion (rs_Version r))
      else if rs_RequestID r = [] then Some URequestIDRequired
      else case rs_Error r of
        Some e \<Rightarrow> Error_Validate e
      | None \<Rightarrow>
          if rs_Status r < 100 \<or> rs_Status r > 999 then Some (UStatus (rs_Status r))
          else if rs_StreamSessionID r \<noteq> [] \<and> \<not> validToken_unary (rs_StreamSessionID r)
          then Some UStreamSessionID
          else if rs_StreamSessionID r \<noteq> [] \<and> \<not> validToken_unary (rs_ConnectorID r)
          then Some UConnectorID
          else if rs_StreamSessionID r \<noteq> [] \<and> length (rs_Body r) \<noteq> 0
          then Some UBodyAndStream
          else validateHeaders (rs_Headers r))"

section \<open>Codecs and constructors\<close>

definition EncodeRequest :: "unary_request marshal \<Rightarrow> unary_request \<Rightarrow> (unary_error, bytes) result" where
  "EncodeRequest m r =
     (case Request_Validate r of
        Some e \<Rightarrow> Inl e
      | None \<Rightarrow> (case m r of Inl d \<Rightarrow> Inl (UMarshal d) | Inr b \<Rightarrow> Inr b))"

definition DecodeRequest :: "unary_request unmarshal \<Rightarrow> bytes \<Rightarrow> (unary_error, unary_request) result" where
  "DecodeRequest u data =
     (case u data of
        Inl d \<Rightarrow> Inl (UUnmarshal d)
      | Inr r \<Rightarrow> (case Request_Validate r of Some e \<Rightarrow> Inl e | None \<Rightarrow> Inr r))"

definition EncodeResponse :: "unary_response marshal \<Rightarrow> unary_response \<Rightarrow> (unary_error, bytes) result" where
  "EncodeResponse m r =
     (case Response_Validate r of
        Some e \<Rightarrow> Inl e
      | None \<Rightarrow> (case m r of Inl d \<Rightarrow> Inl (UMarshal d) | Inr b \<Rightarrow> Inr b))"

definition DecodeResponse :: "unary_response unmarshal \<Rightarrow> bytes \<Rightarrow> (unary_error, unary_response) result" where
  "DecodeResponse u data =
     (case u data of
        Inl d \<Rightarrow> Inl (UUnmarshal d)
      | Inr r \<Rightarrow> (case Response_Validate r of Some e \<Rightarrow> Inl e | None \<Rightarrow> Inr r))"

definition NewErrorResponse :: "string \<Rightarrow> string \<Rightarrow> string \<Rightarrow> unary_response" where
  "NewErrorResponse requestID code message =
     \<lparr>rs_Version = UnaryVersion, rs_RequestID = requestID, rs_Status = 0, rs_Headers = [],
      rs_Body = [], rs_StreamSessionID = [], rs_ConnectorID = [],
      rs_Error = Some \<lparr>e_Code = code, e_Message = message\<rparr>\<rparr>"

section \<open>What the validators accept\<close>

definition no_line_break :: "string \<Rightarrow> bool" where
  "no_line_break s \<longleftrightarrow> CHR 0x0D \<notin> set s \<and> CHR 0x0A \<notin> set s"

definition http_token :: "string \<Rightarrow> bool" where
  "http_token s \<longleftrightarrow> s \<noteq> [] \<and> (\<forall>c \<in> set s. is_token_char c)"

text \<open>A header block that cannot smuggle a header: token names, values without line breaks.\<close>

definition headers_ok :: "header \<Rightarrow> bool" where
  "headers_ok h \<longleftrightarrow> (\<forall>(name, vs) \<in> set h. http_token name \<and> (\<forall>v \<in> set vs. no_line_break v))"

definition request_path_ok :: "string \<Rightarrow> bool" where
  "request_path_ok p \<longleftrightarrow> p \<noteq> [] \<and> hd p = CHR ''/'' \<and> no_line_break p \<and> CHR ''#'' \<notin> set p"

definition unary_request_ok :: "unary_request \<Rightarrow> bool" where
  "unary_request_ok r \<longleftrightarrow>
     rq_Version r = 1 \<and> rq_RequestID r \<noteq> [] \<and> subject_token (rq_Route r) \<and>
     0 < rq_DeadlineUnixMS r \<and> http_token (rq_Method r) \<and> rq_Scheme r \<in> {''http'', ''https''} \<and>
     rq_Authority r \<noteq> [] \<and> no_line_break (rq_Authority r) \<and> request_path_ok (rq_Path r) \<and>
     headers_ok (rq_Headers r)"

definition unary_response_ok :: "unary_response \<Rightarrow> bool" where
  "unary_response_ok r \<longleftrightarrow>
     rs_Version r = 1 \<and> rs_RequestID r \<noteq> [] \<and>
     (case rs_Error r of
        Some e \<Rightarrow> http_token (e_Code e) \<and> no_line_break (e_Message e)
      | None \<Rightarrow> rs_Status r \<in> {100..999} \<and> headers_ok (rs_Headers r) \<and>
          (rs_StreamSessionID r = [] \<or>
             http_token (rs_StreamSessionID r) \<and> http_token (rs_ConnectorID r) \<and> rs_Body r = []))"

lemma validToken_unary_iff: "validToken_unary s \<longleftrightarrow> http_token s"
  by (auto simp: validToken_unary_def http_token_def list_all_iff)

lemma validateRoute_iff: "validateRoute s = None \<longleftrightarrow> subject_token s"
  by (simp add: validateRoute_def subject_token_def subject_runes_bytes)

lemma no_line_break_iff: "ContainsAny s [CHR 0x0D, CHR 0x0A] \<longleftrightarrow> \<not> no_line_break s"
  by (auto simp: ContainsAny_iff no_line_break_def)

lemma validatePath_unary_iff: "validatePath_unary p = None \<longleftrightarrow> request_path_ok p"
  by (auto simp: validatePath_unary_def request_path_ok_def ContainsAny_iff no_line_break_def)

lemma validateValues_iff: "validateValues n vs = None \<longleftrightarrow> (\<forall>v \<in> set vs. no_line_break v)"
  by (induction n vs rule: validateValues.induct) (auto simp: no_line_break_iff)

lemma validateHeaders_iff: "validateHeaders h = None \<longleftrightarrow> headers_ok h"
proof (induction h rule: validateHeaders.induct)
  case (2 name vs h)
  then show ?case
    using validateValues_iff [of name vs]
    by (cases "validateValues name vs") (auto simp: headers_ok_def validToken_unary_iff http_token_def)
qed (simp add: headers_ok_def)

lemma http_token_Nil [simp]: "\<not> http_token []"
  by (simp add: http_token_def)

lemmas unary_validate_defs [validate_defs] =
  validToken_unary_iff validateRoute_iff no_line_break_iff validatePath_unary_iff
  validateHeaders_iff UnaryVersion_def

lemma Error_Validate_iff: "Error_Validate e = None \<longleftrightarrow> http_token (e_Code e) \<and> no_line_break (e_Message e)"
  by (auto simp: Error_Validate_def validate_defs)

lemma Request_Validate_iff: "Request_Validate r = None \<longleftrightarrow> unary_request_ok r"
proof -
  have "(case validateRoute s of Some e \<Rightarrow> Some e | None \<Rightarrow> k) = None \<longleftrightarrow> subject_token s \<and> k = None"
    for s and k :: "unary_error option"
    using validateRoute_iff [of s] by (cases "validateRoute s") auto
  moreover have "(case validatePath_unary p of Some e \<Rightarrow> Some e | None \<Rightarrow> k) = None \<longleftrightarrow>
      request_path_ok p \<and> k = None"
    for p and k :: "unary_error option"
    using validatePath_unary_iff [of p] by (cases "validatePath_unary p") auto
  ultimately show ?thesis
    by (auto simp: Request_Validate_def unary_request_ok_def validate_defs
        unix_milli_before_epoch_def)
qed

lemma Response_Validate_iff: "Response_Validate r = None \<longleftrightarrow> unary_response_ok r"
  by (cases "rs_Error r")
    (auto simp: Response_Validate_def unary_response_ok_def validate_defs Error_Validate_iff)

text \<open>A header block is accepted or not whatever order the map is iterated in.\<close>

lemma headers_ok_perm: "set h = set h' \<Longrightarrow> headers_ok h = headers_ok h'"
  by (simp add: headers_ok_def)

lemma subject_token_http_token: "subject_token s \<Longrightarrow> http_token s"
  by (simp add: subject_token_def http_token_def subject_char_token_char)

lemma NewErrorResponse_valid:
  "rid \<noteq> [] \<Longrightarrow> http_token code \<Longrightarrow> no_line_break msg \<Longrightarrow>
   Response_Validate (NewErrorResponse rid code msg) = None"
  by (simp add: Response_Validate_iff unary_response_ok_def NewErrorResponse_def UnaryVersion_def)

section \<open>The codec contract holds\<close>

interpretation unary_request_codec: validated_codec Request_Validate EncodeRequest DecodeRequest
  by unfold_locales (auto simp: EncodeRequest_def DecodeRequest_def split: option.splits sum.splits)

interpretation unary_response_codec: validated_codec Response_Validate EncodeResponse DecodeResponse
  by unfold_locales (auto simp: EncodeResponse_def DecodeResponse_def split: option.splits sum.splits)

section \<open>Properties\<close>

text \<open>
  The HTTP request envelope: a request with a token route and method, a known scheme, a
  path that starts with a slash and a header block that cannot smuggle a line survives the
  round trip; any other request is refused at both ends with the same error.
\<close>

theorem unary_request_wire:
  assumes "codec_inverse m u" "m r = Inr b"
  shows "(unary_request_ok r \<longrightarrow> EncodeRequest m r = Inr b \<and> DecodeRequest u b = Inr r) \<and>
    (\<not> unary_request_ok r \<longrightarrow> (\<exists>e. EncodeRequest m r = Inl e \<and> DecodeRequest u b = Inl e))"
  using unary_request_codec.wire_contract [OF assms Request_Validate_iff] .

text \<open>The contract at a concrete value, with a marshaller that knows this value.\<close>

theorem unary_request_wire_witness:
  "let x = \<lparr>rq_Version = 1, rq_RequestID = ''r1'', rq_Route = ''api'', rq_DeadlineUnixMS = 1700000000000, rq_Method = ''POST'', rq_Scheme = ''https'', rq_Authority = ''example.com'', rq_Path = ''/v1/items?page=2'', rq_Headers = [(''Accept'', [''*/*''])], rq_Body = ''hi''\<rparr>;
       m = (\<lambda>y. if y = x then Inr ''w'' else Inl ''unknown''); u = (\<lambda>b. Inr x) in
   EncodeRequest m x = Inr ''w'' \<and> DecodeRequest u ''w'' = Inr x"
proof -
  let ?x = "\<lparr>rq_Version = 1, rq_RequestID = ''r1'', rq_Route = ''api'', rq_DeadlineUnixMS = 1700000000000, rq_Method = ''POST'', rq_Scheme = ''https'', rq_Authority = ''example.com'', rq_Path = ''/v1/items?page=2'', rq_Headers = [(''Accept'', [''*/*''])], rq_Body = ''hi''\<rparr>"
  let ?m = "\<lambda>y. if y = ?x then Inr ''w'' else Inl ''unknown''"
  have "codec_inverse ?m (\<lambda>b. Inr ?x)" by (simp add: codec_inverse_def)
  moreover have "?m ?x = Inr ''w''" by simp
  moreover have "unary_request_ok ?x"
    unfolding Request_Validate_iff [symmetric] by code_simp
  ultimately show ?thesis
    unfolding Let_def using unary_request_wire [of ?m "\<lambda>b. Inr ?x" ?x "''w''"] by blast
qed

text \<open>
  The HTTP response envelope: an error envelope, an inline response, or a stream reference
  that names a session and a connector and carries no body, survives the round trip; any
  other response is refused at both ends with the same error.
\<close>

theorem unary_response_wire:
  assumes "codec_inverse m u" "m r = Inr b"
  shows "(unary_response_ok r \<longrightarrow> EncodeResponse m r = Inr b \<and> DecodeResponse u b = Inr r) \<and>
    (\<not> unary_response_ok r \<longrightarrow> (\<exists>e. EncodeResponse m r = Inl e \<and> DecodeResponse u b = Inl e))"
  using unary_response_codec.wire_contract [OF assms Response_Validate_iff] .

text \<open>The contract at a concrete value, with a marshaller that knows this value.\<close>

theorem unary_response_wire_witness:
  "let x = \<lparr>rs_Version = 1, rs_RequestID = ''r1'', rs_Status = 200, rs_Headers = [(''Content-Type'', [''text/plain''])], rs_Body = [], rs_StreamSessionID = ''st-r1'', rs_ConnectorID = ''c1'', rs_Error = None\<rparr>;
       m = (\<lambda>y. if y = x then Inr ''w'' else Inl ''unknown''); u = (\<lambda>b. Inr x) in
   EncodeResponse m x = Inr ''w'' \<and> DecodeResponse u ''w'' = Inr x"
proof -
  let ?x = "\<lparr>rs_Version = 1, rs_RequestID = ''r1'', rs_Status = 200, rs_Headers = [(''Content-Type'', [''text/plain''])], rs_Body = [], rs_StreamSessionID = ''st-r1'', rs_ConnectorID = ''c1'', rs_Error = None\<rparr>"
  let ?m = "\<lambda>y. if y = ?x then Inr ''w'' else Inl ''unknown''"
  have "codec_inverse ?m (\<lambda>b. Inr ?x)" by (simp add: codec_inverse_def)
  moreover have "?m ?x = Inr ''w''" by simp
  moreover have "unary_response_ok ?x"
    unfolding Response_Validate_iff [symmetric] by code_simp
  ultimately show ?thesis
    unfolding Let_def using unary_response_wire [of ?m "\<lambda>b. Inr ?x" ?x "''w''"] by blast
qed

end
