(* ===== verification/Go_Net.thy ===== *)
theory Go_Net
  imports Go_Text
begin

text \<open>
  The part of Go's \<^verbatim>\<open>net\<close> and \<^verbatim>\<open>net/url\<close> packages (Go 1.22, the version of \<^verbatim>\<open>go.mod\<close>) the program
  uses: \<^verbatim>\<open>net.SplitHostPort\<close>, \<^verbatim>\<open>url.Parse\<close> and \<^verbatim>\<open>url.ParseRequestURI\<close>. Every caller only asks
  whether the error is nil, so a failure is \<open>None\<close>. The record \<open>url\<close> holds the fields of
  \<^verbatim>\<open>url.URL\<close> the program reads; \<^verbatim>\<open>RawPath\<close>, \<^verbatim>\<open>RawFragment\<close> and \<^verbatim>\<open>OmitHost\<close> are never read.
\<close>

section \<open>net.SplitHostPort\<close>

definition index_of :: "string \<Rightarrow> char \<Rightarrow> nat option" where
  "index_of s c =
     (let n = length (takeWhile (\<lambda>x. x \<noteq> c) s) in if n < length s then Some n else None)"

definition SplitHostPort :: "string \<Rightarrow> (string \<times> string) option" where
  "SplitHostPort hostport =
     (case last_index hostport CHR '':'' of
        None \<Rightarrow> None
      | Some i \<Rightarrow>
          (let port = drop (Suc i) hostport in
           if HasPrefix hostport ''['' then
             (case index_of hostport CHR '']'' of
                None \<Rightarrow> None
              | Some e \<Rightarrow>
                  if Suc e \<noteq> i then None
                  else if CHR ''['' \<in> set (drop 1 hostport) then None
                  else if CHR '']'' \<in> set (drop (Suc e) hostport) then None
                  else Some (drop 1 (take e hostport), port))
           else
             (let host = take i hostport in
              if CHR '':'' \<in> set host then None
              else if CHR ''['' \<in> set hostport then None
              else if CHR '']'' \<in> set hostport then None
              else Some (host, port))))"

section \<open>Escaping\<close>

datatype encoding =
  encodePath | encodeUserPassword | encodeFragment | encodeHost | encodeZone | encodeQueryComponent

definition is_hex :: "char \<Rightarrow> bool" where
  "is_hex c \<longleftrightarrow> is_digit_char c \<or> (CHR ''a'' \<le> c \<and> c \<le> CHR ''f'') \<or> (CHR ''A'' \<le> c \<and> c \<le> CHR ''F'')"

definition unhex :: "char \<Rightarrow> nat" where
  "unhex c =
     (if is_digit_char c then of_char c - 48
      else if CHR ''a'' \<le> c \<and> c \<le> CHR ''f'' then of_char c - 97 + 10
      else of_char c - 65 + 10)"

definition is_alnum :: "char \<Rightarrow> bool" where
  "is_alnum c \<longleftrightarrow> is_lower_alpha c \<or> is_upper_alpha c \<or> is_digit_char c"

definition shouldEscape :: "encoding \<Rightarrow> char \<Rightarrow> bool" where
  "shouldEscape mode c =
     (if is_alnum c then False
      else if (mode = encodeHost \<or> mode = encodeZone) \<and>
              (c \<in> set ''!$&()*+,;=:[]<>'' \<or> c = CHR 0x27 \<or> c = CHR 0x22) then False
      else if c \<in> set ''-_.~'' then False
      else if c \<in> set ''$&+,/:;=?@'' then
        (case mode of
           encodePath \<Rightarrow> c = CHR ''?''
         | encodeUserPassword \<Rightarrow> c \<in> set ''@/?:''
         | encodeFragment \<Rightarrow> False
         | _ \<Rightarrow> True)
      else if mode = encodeFragment \<and> c \<in> set ''!()*'' then False
      else True)"

text \<open>\<^verbatim>\<open>unescape\<close>: the check of every byte or escape, and the decoded string.\<close>

fun unescape :: "encoding \<Rightarrow> string \<Rightarrow> string option" where
  "unescape mode [] = Some []"
| "unescape mode (c # cs) =
     (if c = CHR ''%'' then
        (case cs of
           h # l # rest \<Rightarrow>
             if \<not> is_hex h \<or> \<not> is_hex l then None
             else if mode = encodeHost \<and> unhex h < 8 \<and> [h, l] \<noteq> ''25'' then None
             else if mode = encodeZone \<and> [h, l] \<noteq> ''25'' \<and>
                     char_of (unhex h * 16 + unhex l) \<noteq> CHR '' '' \<and>
                     shouldEscape encodeHost (char_of (unhex h * 16 + unhex l)) then None
             else map_option (\<lambda>t. char_of (unhex h * 16 + unhex l) # t) (unescape mode rest)
         | _ \<Rightarrow> None)
      else if (mode = encodeHost \<or> mode = encodeZone) \<and> is_ascii c \<and> shouldEscape mode c then None
      else map_option (\<lambda>t. (if mode = encodeQueryComponent \<and> c = CHR ''+'' then CHR '' '' else c) # t)
             (unescape mode cs))"

section \<open>url.Parse\<close>

record url =
  u_Scheme :: string
  u_Opaque :: string
  u_User :: "(string \<times> string option) option"
  u_Host :: string
  u_Path :: string
  u_ForceQuery :: bool
  u_RawQuery :: string
  u_Fragment :: string

definition empty_url :: url where
  "empty_url = \<lparr>u_Scheme = [], u_Opaque = [], u_User = None, u_Host = [], u_Path = [],
                u_ForceQuery = False, u_RawQuery = [], u_Fragment = []\<rparr>"

text \<open>
  \<^verbatim>\<open>getScheme\<close>: \<open>None\<close> is the error "missing protocol scheme"; otherwise the scheme (empty when
  there is none) and the rest.
\<close>

fun scheme_scan :: "string \<Rightarrow> string \<Rightarrow> (string \<times> string) option" where
  "scheme_scan pre [] = Some ([], rev pre)"
| "scheme_scan pre (c # cs) =
     (if is_lower_alpha c \<or> is_upper_alpha c then scheme_scan (c # pre) cs
      else if is_digit_char c \<or> c \<in> set ''+-.'' then
        (if pre = [] then Some ([], c # cs) else scheme_scan (c # pre) cs)
      else if c = CHR '':'' then (if pre = [] then None else Some (rev pre, cs))
      else Some ([], rev pre @ c # cs))"

definition getScheme :: "string \<Rightarrow> (string \<times> string) option" where
  "getScheme raw = scheme_scan [] raw"

definition validOptionalPort :: "string \<Rightarrow> bool" where
  "validOptionalPort port =
     (case port of [] \<Rightarrow> True | c # cs \<Rightarrow> c = CHR '':'' \<and> list_all is_digit_char cs)"

definition validUserinfo :: "string \<Rightarrow> bool" where
  "validUserinfo s \<longleftrightarrow>
     list_all (\<lambda>r. r < 128 \<and> (is_alnum (char_of r) \<or> char_of r \<in> set ''-._:~!$&()*+,;=%@''
                             \<or> char_of r = CHR 0x27)) (rune_values s)"

fun index_sub :: "string \<Rightarrow> string \<Rightarrow> nat option" where
  "index_sub p [] = (if p = [] then Some 0 else None)"
| "index_sub p (c # cs) =
     (if HasPrefix (c # cs) p then Some 0 else map_option Suc (index_sub p cs))"

definition parseHost :: "string \<Rightarrow> string option" where
  "parseHost host =
     (if HasPrefix host ''['' then
        (case last_index host CHR '']'' of
           None \<Rightarrow> None
         | Some i \<Rightarrow>
             if \<not> validOptionalPort (drop (Suc i) host) then None
             else (case index_sub ''%25'' (take i host) of
                 Some z \<Rightarrow>
                   (case (unescape encodeHost (take z host), unescape encodeZone (drop z (take i host)),
                          unescape encodeHost (drop i host)) of
                      (Some h1, Some h2, Some h3) \<Rightarrow> Some (h1 @ h2 @ h3)
                    | _ \<Rightarrow> None)
               | None \<Rightarrow> unescape encodeHost host))
      else case last_index host CHR '':'' of
          Some i \<Rightarrow> if \<not> validOptionalPort (drop i host) then None else unescape encodeHost host
        | None \<Rightarrow> unescape encodeHost host)"

definition parseUser :: "string \<Rightarrow> (string \<times> string option) option" where
  "parseUser info =
     (if \<not> validUserinfo info then None
      else case Cut info CHR '':'' of
          (_, _, False) \<Rightarrow> map_option (\<lambda>u. (u, None)) (unescape encodeUserPassword info)
        | (name, pass, True) \<Rightarrow>
            (case (unescape encodeUserPassword name, unescape encodeUserPassword pass) of
               (Some n, Some p) \<Rightarrow> Some (n, Some p)
             | _ \<Rightarrow> None))"

definition parseAuthority :: "string \<Rightarrow> ((string \<times> string option) option \<times> string) option" where
  "parseAuthority authority =
     (case last_index authority CHR ''@'' of
        None \<Rightarrow> map_option (\<lambda>h. (None, h)) (parseHost authority)
      | Some i \<Rightarrow>
          (case parseHost (drop (Suc i) authority) of
             None \<Rightarrow> None
           | Some h \<Rightarrow> map_option (\<lambda>u. (Some u, h)) (parseUser (take i authority))))"

text \<open>The query is cut off at the first question mark; a lone trailing one sets \<^verbatim>\<open>ForceQuery\<close>.\<close>

definition split_query :: "string \<Rightarrow> string \<times> bool \<times> string" where
  "split_query rest =
     (if HasSuffix rest ''?'' \<and> count_list rest CHR ''?'' = 1 then (butlast rest, True, [])
      else case Cut rest CHR ''?'' of (p, q, _) \<Rightarrow> (p, False, q))"

definition set_path :: "url \<Rightarrow> string \<Rightarrow> url option" where
  "set_path u rest = map_option (\<lambda>p. u\<lparr>u_Path := p\<rparr>) (unescape encodePath rest)"

definition url_parse :: "bool \<Rightarrow> string \<Rightarrow> url option" where
  "url_parse viaRequest raw =
     (if list_ex is_ctl raw then None
      else if raw = [] \<and> viaRequest then None
      else if raw = ''*'' then Some (empty_url\<lparr>u_Path := ''*''\<rparr>)
      else case getScheme raw of
        None \<Rightarrow> None
      | Some (sch, rest0) \<Rightarrow>
          (let scheme = ToLower sch;
               (rest, force, query) = split_query rest0;
               u = empty_url\<lparr>u_Scheme := scheme, u_ForceQuery := force, u_RawQuery := query\<rparr> in
           if \<not> HasPrefix rest ''/'' \<and> scheme \<noteq> [] then Some (u\<lparr>u_Opaque := rest\<rparr>)
           else if \<not> HasPrefix rest ''/'' \<and> viaRequest then None
           else if \<not> HasPrefix rest ''/'' \<and> CHR '':'' \<in> set (fst (Cut rest CHR ''/'')) then None
           else if (scheme \<noteq> [] \<or> (\<not> viaRequest \<and> \<not> HasPrefix rest ''///'')) \<and> HasPrefix rest ''//'' then
             (let auth = takeWhile (\<lambda>c. c \<noteq> CHR ''/'') (drop 2 rest) in
              case parseAuthority auth of
                None \<Rightarrow> None
              | Some (user, host) \<Rightarrow>
                  set_path (u\<lparr>u_User := user, u_Host := host\<rparr>) (drop (2 + length auth) rest))
           else set_path u rest))"

text \<open>\<^verbatim>\<open>url.Parse\<close>: the fragment is cut off first and must unescape.\<close>

definition Url_Parse :: "string \<Rightarrow> url option" where
  "Url_Parse raw =
     (case Cut raw CHR ''#'' of
        (u, frag, _) \<Rightarrow>
          (case url_parse False u of
             None \<Rightarrow> None
           | Some r \<Rightarrow>
               if frag = [] then Some r
               else map_option (\<lambda>f. r\<lparr>u_Fragment := f\<rparr>) (unescape encodeFragment frag)))"

definition ParseRequestURI :: "string \<Rightarrow> url option" where
  "ParseRequestURI raw = url_parse True raw"

section \<open>url.ParseQuery\<close>

text \<open>
  \<^verbatim>\<open>URL.Query\<close> drops the pairs that do not parse. The result lists the pairs in order;
  \<^verbatim>\<open>Values.Get\<close> is the first value of a key, empty when there is none.
\<close>

fun split_on :: "char \<Rightarrow> string \<Rightarrow> string \<Rightarrow> string list" where
  "split_on sep acc [] = [rev acc]"
| "split_on sep acc (c # cs) =
     (if c = sep then rev acc # split_on sep [] cs else split_on sep (c # acc) cs)"

definition query_pair :: "string \<Rightarrow> (string \<times> string) option" where
  "query_pair kv =
     (if CHR '';'' \<in> set kv \<or> kv = [] then None
      else case Cut kv CHR ''='' of
          (k, v, _) \<Rightarrow>
            (case (unescape encodeQueryComponent k, unescape encodeQueryComponent v) of
               (Some k', Some v') \<Rightarrow> Some (k', v')
             | _ \<Rightarrow> None))"

definition Query :: "string \<Rightarrow> (string \<times> string) list" where
  "Query raw = List.map_filter query_pair (split_on CHR ''&'' [] raw)"

definition Query_Get :: "string \<Rightarrow> string \<Rightarrow> string" where
  "Query_Get raw key = (case map_of (Query raw) key of None \<Rightarrow> [] | Some v \<Rightarrow> v)"

section \<open>Lemmas\<close>

lemma SplitHostPort_port:
  assumes "SplitHostPort s = Some (h, p)"
  shows "\<exists>pre. s = pre @ '':'' @ p \<and> CHR '':'' \<notin> set p"
proof -
  let ?t = "takeWhile (\<lambda>x. x \<noteq> CHR '':'') (rev s)"
  from assms obtain i where i: "last_index s CHR '':'' = Some i" and p: "p = drop (Suc i) s"
    by (auto simp: SplitHostPort_def Let_def split: option.splits if_splits)
  from i have lt: "length ?t < length s" and ii: "i = length s - Suc (length ?t)"
    by (auto simp: last_index_def Let_def split: if_splits)
  then have "i < length s" "Suc i = length s - length ?t" by auto
  have "drop (Suc i) s = rev (take (length ?t) (rev s))"
    using \<open>Suc i = _\<close> lt by (simp add: take_rev)
  also have "take (length ?t) (rev s) = ?t"
    by (metis takeWhile_eq_take)
  finally have tail: "drop (Suc i) s = rev ?t" .
  have "rev s ! length ?t = CHR '':''"
    using lt nth_length_takeWhile [of "\<lambda>x. x \<noteq> CHR '':''" "rev s"] by simp
  then have "s ! i = CHR '':''"
    using lt ii by (simp add: rev_nth)
  then have "s = take i s @ '':'' @ p"
    using id_take_nth_drop [OF \<open>i < length s\<close>] p by simp
  moreover have "CHR '':'' \<notin> set p"
    unfolding p tail using set_takeWhileD by fastforce
  ultimately show ?thesis by blast
qed

lemma SplitHostPort_plain:
  assumes "CHR '':'' \<notin> set h" "CHR ''['' \<notin> set h" "CHR '']'' \<notin> set h"
    and "CHR '':'' \<notin> set p" "CHR ''['' \<notin> set p" "CHR '']'' \<notin> set p"
  shows "SplitHostPort (h @ '':'' @ p) = Some (h, p)"
proof -
  have "takeWhile (\<lambda>x. x \<noteq> CHR '':'') (rev p @ CHR '':'' # rev h) = rev p"
    using assms(4) by (subst takeWhile_append2) auto
  then have "last_index (h @ '':'' @ p) CHR '':'' = Some (length h)"
    by (simp add: last_index_def Let_def)
  moreover have "\<not> HasPrefix (h @ '':'' @ p) ''[''"
    using assms by (cases h) (auto simp: HasPrefix_def)
  ultimately show ?thesis
    using assms by (simp add: SplitHostPort_def Let_def)
qed

end
