(* ===== verification/Airpc_Config.thy ===== *)
theory Airpc_Config
  imports Unary_Envelope Go_Net
begin

text \<open>
  Package \<^verbatim>\<open>internal/config\<close> (\<^verbatim>\<open>config.go\<close>): the configuration records, their validation, the
  NATS subjects derived from route names, and the byte-size syntax. The YAML decoder
  (\<^verbatim>\<open>gopkg.in/yaml.v3\<close>) is a parameter of \<open>Load\<close>. A \<^verbatim>\<open>Duration\<close> is its nanosecond count, a
  \<^verbatim>\<open>Bytes\<close> its byte count. Each \<^verbatim>\<open>fmt.Errorf\<close> is a constructor of \<open>config_error\<close> that carries
  the values the message prints.

  The lemmas state what a validated configuration guarantees the other components: unique
  token names, modes and targets that fit, no credentials in URLs, TLS options that are
  consistent; and that subjects are unambiguous.
\<close>

section \<open>Data\<close>

definition ModeHTTP :: string where "ModeHTTP = ''http''"
definition ModeGRPC :: string where "ModeGRPC = ''grpc''"
definition ModeWebSocket :: string where "ModeWebSocket = ''websocket''"
definition ModeTCP :: string where "ModeTCP = ''tcp''"

lemmas mode_defs = ModeHTTP_def ModeGRPC_def ModeWebSocket_def ModeTCP_def

record nats_config =
  n_URL :: string
  n_EdgeURL :: string
  n_ConnectorURL :: string
  n_CredsFile :: string

record tls_server_config =
  ts_CertFile :: string
  ts_KeyFile :: string
  ts_ClientCAFile :: string

record tls_client_config =
  tc_CAFile :: string
  tc_CertFile :: string
  tc_KeyFile :: string
  tc_ServerName :: string

record edge_config =
  ed_HTTPAddr :: string
  ed_DataAddr :: string
  ed_MetricsAddr :: string
  ed_TLS :: "tls_server_config option"

record connector_config =
  cn_EdgeDataURL :: string
  cn_TunnelToken :: string
  cn_MetricsAddr :: string
  cn_TLS :: "tls_client_config option"

record croute =
  r_Name :: string
  r_Mode :: string
  r_PublicHost :: string
  r_PublicPrefix :: string
  r_PublicPath :: string
  r_Listen :: string
  r_Target :: string
  r_MaxInlineRequestBytes :: int
  r_MaxInlineResponseBytes :: int
  r_MaxRequestBodyBytes :: int
  r_MaxResponseBodyBytes :: int
  r_Timeout :: int
  r_IdleTimeout :: int
  r_ForwardedHeaders :: "string list"
  r_TLS :: bool

record config =
  c_NATS :: nats_config
  c_Edge :: edge_config
  c_Connector :: connector_config
  c_Routes :: "croute list"

datatype config_error =
    CRequired string | CTooLong string | CSeparator string | CInvalidChar string nat
  | CInvalidURL string | CScheme string string | CCredentials string
  | CMode string string | CPublicHost string | CPublicMissing string string
  | CPathSlash string | CPathQuery string
  | CHostPort string | CHostRequired string | CPortRequired string | CPortNumber string
  | CNegative string | CHeaderName string nat string
  | CEdgeTLS | CConnectorTLSPair | CConnectorTLSWss | CNoRoutes
  | CRouteTLSMode nat | CRouteTLSEdge nat | CDuplicate nat string
  | CDecode string | CReadFile string
  | CNotScalar | CMissingNumber string | CBadNumber string num_error | CUnknownUnit string string
  | CPlainNumber num_error

section \<open>Field validators\<close>

fun subject_token_loop :: "string \<Rightarrow> nat list \<Rightarrow> config_error option" where
  "subject_token_loop field [] = None"
| "subject_token_loop field (r # rs) =
     (if r = 42 \<or> r = 62 \<or> r = 46 then Some (CSeparator field)
      else if subject_rune r then subject_token_loop field rs
      else Some (CInvalidChar field r))"

definition ValidateSubjectToken :: "string \<Rightarrow> string \<Rightarrow> config_error option" where
  "ValidateSubjectToken field val =
     (if val = [] then Some (CRequired field)
      else if length val > 128 then Some (CTooLong field)
      else subject_token_loop field (rune_values val))"

definition isTokenChar :: "char \<Rightarrow> bool" where
  "isTokenChar c = is_token_char c"

definition validHeaderName :: "string \<Rightarrow> bool" where
  "validHeaderName val =
     (if val = [] then False
      else list_all (\<lambda>r. \<not> (r > 127 \<or> \<not> isTokenChar (char_of r))) (rune_values val))"

definition validMode :: "string \<Rightarrow> bool" where
  "validMode mode \<longleftrightarrow> mode \<in> {ModeHTTP, ModeGRPC, ModeWebSocket, ModeTCP}"

definition validateNATSURL :: "string \<Rightarrow> string \<Rightarrow> config_error option" where
  "validateNATSURL field raw =
     (if raw = [] then Some (CRequired field)
      else case Url_Parse raw of
        None \<Rightarrow> Some (CInvalidURL field)
      | Some u \<Rightarrow>
          if u_Scheme u = [] \<or> u_Host u = [] then Some (CInvalidURL field)
          else if u_Scheme u \<in> {''nats'', ''tls'', ''ws'', ''wss''} then None
          else Some (CScheme field (u_Scheme u)))"

definition validateConnectorURL :: "string \<Rightarrow> config_error option" where
  "validateConnectorURL raw =
     (let field = ''connector.edge_data_url'' in
      if raw = [] then Some (CRequired field)
      else case Url_Parse raw of
        None \<Rightarrow> Some (CInvalidURL field)
      | Some u \<Rightarrow>
          if u_Scheme u = [] \<or> u_Host u = [] then Some (CInvalidURL field)
          else if u_User u \<noteq> None then Some (CCredentials field)
          else if u_Scheme u \<in> {''ws'', ''wss''} then None
          else Some (CScheme field (u_Scheme u)))"

definition validateURLTarget :: "string \<Rightarrow> string \<Rightarrow> string list \<Rightarrow> config_error option" where
  "validateURLTarget field raw schemes =
     (case Url_Parse raw of
        None \<Rightarrow> Some (CInvalidURL field)
      | Some u \<Rightarrow>
          if u_Scheme u = [] \<or> u_Host u = [] then Some (CInvalidURL field)
          else if u_User u \<noteq> None then Some (CCredentials field)
          else if u_Scheme u \<in> set schemes then None
          else Some (CScheme field (u_Scheme u)))"

definition validateHostPort :: "string \<Rightarrow> string \<Rightarrow> config_error option" where
  "validateHostPort field val =
     (if val = [] then Some (CRequired field)
      else case SplitHostPort val of
        None \<Rightarrow> Some (CHostPort field)
      | Some (host, port) \<Rightarrow>
          if host = [] \<and> \<not> HasPrefix val '':'' then Some (CHostRequired field)
          else if port = [] then Some (CPortRequired field)
          else case ParseUint 65536 port of
              Inl _ \<Rightarrow> Some (CPortNumber field)
            | Inr _ \<Rightarrow> None)"

definition validatePath :: "string \<Rightarrow> string \<Rightarrow> config_error option" where
  "validatePath field val =
     (if val = [] then None
      else if \<not> HasPrefix val ''/'' then Some (CPathSlash field)
      else if ContainsAny val ''?#'' then Some (CPathQuery field)
      else None)"

definition validateRouteTarget :: "string \<Rightarrow> string \<Rightarrow> string \<Rightarrow> config_error option" where
  "validateRouteTarget field mode raw =
     (if mode = ModeHTTP then validateURLTarget field raw [''http'', ''https'']
      else if mode = ModeWebSocket then validateURLTarget field raw [''ws'', ''wss'']
      else if mode = ModeTCP \<or> mode = ModeGRPC then validateHostPort field raw
      else None)"

definition validateRoutePublicFields :: "string \<Rightarrow> croute \<Rightarrow> config_error option" where
  "validateRoutePublicFields prefix r =
     (if r_Mode r = ModeHTTP \<or> r_Mode r = ModeWebSocket then
        (if r_PublicHost r \<noteq> [] \<and> ContainsAny (r_PublicHost r) ''/?#''
         then Some (CPublicHost (prefix @ ''.public_host''))
         else if r_PublicPrefix r = [] \<and> r_PublicPath r = []
         then Some (CPublicMissing prefix (r_Mode r))
         else case validatePath (prefix @ ''.public_prefix'') (r_PublicPrefix r) of
             Some e \<Rightarrow> Some e
           | None \<Rightarrow> validatePath (prefix @ ''.public_path'') (r_PublicPath r))
      else if r_Mode r = ModeTCP \<or> r_Mode r = ModeGRPC
      then validateHostPort (prefix @ ''.listen'') (r_Listen r)
      else None)"

fun validate_forwarded :: "string \<Rightarrow> nat \<Rightarrow> string list \<Rightarrow> config_error option" where
  "validate_forwarded prefix j [] = None"
| "validate_forwarded prefix j (h # hs) =
     (if \<not> validHeaderName h then Some (CHeaderName prefix j h)
      else validate_forwarded prefix (Suc j) hs)"

section \<open>Route and configuration validation\<close>

definition route_validate :: "croute \<Rightarrow> nat \<Rightarrow> config_error option" where
  "route_validate r i =
     (let prefix = ''routes['' @ itoa (int i) @ '']'' in
      case ValidateSubjectToken (prefix @ ''.name'') (r_Name r) of Some e \<Rightarrow> Some e | None \<Rightarrow>
      if \<not> validMode (r_Mode r) then Some (CMode prefix (r_Mode r))
      else if r_Target r = [] then Some (CRequired (prefix @ ''.target''))
      else case validateRouteTarget (prefix @ ''.target'') (r_Mode r) (r_Target r) of
        Some e \<Rightarrow> Some e | None \<Rightarrow>
      case validateRoutePublicFields prefix r of Some e \<Rightarrow> Some e | None \<Rightarrow>
      if r_MaxInlineRequestBytes r < 0 then Some (CNegative (prefix @ ''.max_inline_request''))
      else if r_MaxInlineResponseBytes r < 0 then Some (CNegative (prefix @ ''.max_inline_response''))
      else if r_MaxRequestBodyBytes r < 0 then Some (CNegative (prefix @ ''.max_request_body_bytes''))
      else if r_MaxResponseBodyBytes r < 0 then Some (CNegative (prefix @ ''.max_response_body_bytes''))
      else if r_Timeout r < 0 then Some (CNegative (prefix @ ''.timeout''))
      else if r_IdleTimeout r < 0 then Some (CNegative (prefix @ ''.idle_timeout''))
      else validate_forwarded prefix 0 (r_ForwardedHeaders r))"

text \<open>The loop over the routes, with the names seen so far.\<close>

fun validate_routes :: "bool \<Rightarrow> nat \<Rightarrow> string list \<Rightarrow> croute list \<Rightarrow> config_error option" where
  "validate_routes edge_tls i seen [] = None"
| "validate_routes edge_tls i seen (r # rs) =
     (case route_validate r i of Some e \<Rightarrow> Some e | None \<Rightarrow>
      if r_TLS r \<and> r_Mode r \<noteq> ModeTCP \<and> r_Mode r \<noteq> ModeGRPC then Some (CRouteTLSMode i)
      else if r_TLS r \<and> \<not> edge_tls then Some (CRouteTLSEdge i)
      else if r_Name r \<in> set seen then Some (CDuplicate i (r_Name r))
      else validate_routes edge_tls (Suc i) (r_Name r # seen) rs)"

definition optional_check :: "string \<Rightarrow> config_error option \<Rightarrow> config_error option" where
  "optional_check val e = (if val \<noteq> [] then e else None)"

definition Config_Validate :: "config \<Rightarrow> config_error option" where
  "Config_Validate c =
     (let n = c_NATS c; ed = c_Edge c; cn = c_Connector c in
      case validateNATSURL ''nats.url'' (n_URL n) of Some e \<Rightarrow> Some e | None \<Rightarrow>
      case optional_check (n_EdgeURL n) (validateNATSURL ''nats.edge_url'' (n_EdgeURL n)) of
        Some e \<Rightarrow> Some e | None \<Rightarrow>
      case optional_check (n_ConnectorURL n) (validateNATSURL ''nats.connector_url'' (n_ConnectorURL n)) of
        Some e \<Rightarrow> Some e | None \<Rightarrow>
      case validateHostPort ''edge.http_addr'' (ed_HTTPAddr ed) of Some e \<Rightarrow> Some e | None \<Rightarrow>
      case validateHostPort ''edge.data_addr'' (ed_DataAddr ed) of Some e \<Rightarrow> Some e | None \<Rightarrow>
      case validateConnectorURL (cn_EdgeDataURL cn) of Some e \<Rightarrow> Some e | None \<Rightarrow>
      case optional_check (ed_MetricsAddr ed) (validateHostPort ''edge.metrics_addr'' (ed_MetricsAddr ed)) of
        Some e \<Rightarrow> Some e | None \<Rightarrow>
      case optional_check (cn_MetricsAddr cn)
             (validateHostPort ''connector.metrics_addr'' (cn_MetricsAddr cn)) of
        Some e \<Rightarrow> Some e | None \<Rightarrow>
      if (case ed_TLS ed of None \<Rightarrow> False | Some t \<Rightarrow> ts_CertFile t = [] \<or> ts_KeyFile t = [])
      then Some CEdgeTLS
      else if (case cn_TLS cn of None \<Rightarrow> False | Some t \<Rightarrow> (tc_CertFile t = []) \<noteq> (tc_KeyFile t = []))
      then Some CConnectorTLSPair
      else if cn_TLS cn \<noteq> None \<and> \<not> HasPrefix (cn_EdgeDataURL cn) ''wss://''
      then Some CConnectorTLSWss
      else if length (c_Routes c) = 0 then Some CNoRoutes
      else validate_routes (ed_TLS ed \<noteq> None) 0 [] (c_Routes c))"

definition Load :: "(bytes \<Rightarrow> string + config) \<Rightarrow> bytes \<Rightarrow> (config_error, config) result" where
  "Load yaml_decode data =
     (case yaml_decode data of
        Inl d \<Rightarrow> Inl (CDecode d)
      | Inr cfg \<Rightarrow> (case Config_Validate cfg of Some e \<Rightarrow> Inl e | None \<Rightarrow> Inr cfg))"

definition LoadFile ::
  "(string \<Rightarrow> string + bytes) \<Rightarrow> (bytes \<Rightarrow> string + config) \<Rightarrow> string \<Rightarrow> (config_error, config) result" where
  "LoadFile read_file yaml_decode path =
     (case read_file path of Inl d \<Rightarrow> Inl (CReadFile path) | Inr data \<Rightarrow> Load yaml_decode data)"

section \<open>Derived values\<close>

definition EdgeURLOrDefault :: "nats_config \<Rightarrow> string" where
  "EdgeURLOrDefault n = (if n_EdgeURL n \<noteq> [] then n_EdgeURL n else n_URL n)"

definition ConnectorURLOrDefault :: "nats_config \<Rightarrow> string" where
  "ConnectorURLOrDefault n = (if n_ConnectorURL n \<noteq> [] then n_ConnectorURL n else n_URL n)"

definition UnarySubject :: "croute \<Rightarrow> string" where
  "UnarySubject r = ''airpc.v1.route.'' @ r_Name r @ ''.unary''"

definition OpenSubject :: "croute \<Rightarrow> string" where
  "OpenSubject r = ''airpc.v1.route.'' @ r_Name r @ ''.open''"

definition QueueGroup :: "croute \<Rightarrow> string" where
  "QueueGroup r = ''airpc.route.'' @ r_Name r @ ''.connectors''"

definition cancelSubjectPrefix :: string where
  "cancelSubjectPrefix = ''airpc.v1.cancel.''"

definition CancelSubjectWildcard :: string where
  "CancelSubjectWildcard = cancelSubjectPrefix @ ''>''"

definition CancelSubject :: "string \<Rightarrow> string" where
  "CancelSubject requestID = cancelSubjectPrefix @ requestID"

definition RequestIDFromCancelSubject :: "string \<Rightarrow> string option" where
  "RequestIDFromCancelSubject subject =
     (let requestID = TrimPrefix subject cancelSubjectPrefix in
      if requestID = subject \<or> ValidateSubjectToken ''request_id'' requestID \<noteq> None then None
      else Some requestID)"

definition MaxInlineRequest :: "croute \<Rightarrow> int" where
  "MaxInlineRequest r =
     (if r_MaxInlineRequestBytes r > 0 then r_MaxInlineRequestBytes r else r_MaxRequestBodyBytes r)"

definition MaxInlineResponse :: "croute \<Rightarrow> int" where
  "MaxInlineResponse r =
     (if r_MaxInlineResponseBytes r > 0 then r_MaxInlineResponseBytes r else r_MaxResponseBodyBytes r)"

section \<open>Byte sizes\<close>

definition byteUnits :: "(string \<times> int) list" where
  "byteUnits = [(''b'', 1), (''kb'', 1000), (''mb'', 1000 * 1000), (''gb'', 1000 * 1000 * 1000),
                (''kib'', 1024), (''mib'', 1024 * 1024), (''gib'', 1024 * 1024 * 1024)]"

text \<open>
  The loop stops at the first rune that is no digit; \<open>num\<close> is \<^verbatim>\<open>s[:i]\<close> and \<open>unit\<close> is \<^verbatim>\<open>s[i:]\<close>.
  The product is \<^verbatim>\<open>int64\<close> and wraps around.
\<close>

definition parseBytes :: "string \<Rightarrow> (config_error, int) result" where
  "parseBytes raw =
     (let s = TrimSpace raw in
      if s = [] then Inr 0
      else
        let num = concat (map snd (takeWhile (\<lambda>x. is_unicode_digit (fst x)) (runes s)));
            unit = concat (map snd (dropWhile (\<lambda>x. is_unicode_digit (fst x)) (runes s))) in
        if unit \<noteq> [] then
          (if num = [] then Inl (CMissingNumber raw)
           else case ParseInt64 num of
               Inl e \<Rightarrow> Inl (CBadNumber raw e)
             | Inr n \<Rightarrow>
                 (case map_of byteUnits (ToLower unit) of
                    None \<Rightarrow> Inl (CUnknownUnit raw unit)
                  | Some m \<Rightarrow> Inr (wrap64 (n * m))))
        else case ParseInt64 s of Inl e \<Rightarrow> Inl (CPlainNumber e) | Inr n \<Rightarrow> Inr n)"

text \<open>A YAML node as the callback sees it: whether it is a scalar, and its text.\<close>

record yaml_node =
  y_scalar :: bool
  y_value :: string

definition Bytes_UnmarshalYAML :: "int \<Rightarrow> yaml_node \<Rightarrow> (config_error, int) result" where
  "Bytes_UnmarshalYAML b node =
     (if \<not> y_scalar node then Inl CNotScalar
      else if y_value node = [] then Inr b
      else parseBytes (y_value node))"

section \<open>Decimal numerals are read back\<close>

lemma digit_char_props:
  assumes "d < 10"
  shows "is_digit_char (digit_char d)" "digit_value (digit_char d) = int d"
  using assms by (auto simp: digit_char_def is_digit_char_def digit_value_def less_eq_char_def)

lemma decimal_value_append: "decimal_value acc (xs @ ys) = decimal_value (decimal_value acc xs) ys"
  by (induction acc xs rule: decimal_value.induct) auto

lemma itoa_nat_digits: "list_all is_digit_char (itoa_nat n)"
  by (induction n rule: itoa_nat.induct) (subst itoa_nat.simps, auto simp: digit_char_props)

lemma itoa_nat_not_Nil: "itoa_nat n \<noteq> []"
  by (subst itoa_nat.simps) simp

lemma decimal_value_itoa: "decimal_value 0 (itoa_nat n) = int n"
proof (induction n rule: itoa_nat.induct)
  case (1 n)
  show ?case
  proof (cases "n < 10")
    case True
    then show ?thesis by (subst itoa_nat.simps) (simp add: digit_char_props)
  next
    case False
    with 1 have "decimal_value 0 (itoa_nat n) = int (n div 10) * 10 + int (n mod 10)"
      by (subst itoa_nat.simps) (simp add: decimal_value_append digit_char_props)
    also have "\<dots> = int (n div 10 * 10 + n mod 10)"
      by (simp only: of_nat_add of_nat_mult of_nat_numeral)
    finally show ?thesis by (simp only: div_mult_mod_eq)
  qed
qed

lemma digit_not_sign: "is_digit_char c \<Longrightarrow> c \<noteq> CHR ''-'' \<and> c \<noteq> CHR ''+''"
  by (auto simp: is_digit_char_def less_eq_char_def)

lemma ParseInt64_itoa:
  assumes "int n \<le> max_int64"
  shows "ParseInt64 (itoa_nat n) = Inr (int n)"
proof -
  obtain c cs where "itoa_nat n = c # cs" using itoa_nat_not_Nil [of n] by (cases "itoa_nat n") auto
  with itoa_nat_digits [of n] digit_not_sign [of c] assms decimal_value_itoa [of n] show ?thesis
    by (simp add: ParseInt64_def Let_def)
qed

section \<open>What a validated configuration guarantees\<close>

definition hostport_ok :: "string \<Rightarrow> bool" where
  "hostport_ok v \<longleftrightarrow>
     (\<exists>h p. SplitHostPort v = Some (h, p) \<and> (h \<noteq> [] \<or> HasPrefix v '':'') \<and> p \<noteq> [] \<and>
            list_all is_digit_char p \<and> decimal_value 0 p < 65536)"

definition url_ok :: "string set \<Rightarrow> bool \<Rightarrow> string \<Rightarrow> bool" where
  "url_ok schemes creds raw \<longleftrightarrow>
     (\<exists>u. Url_Parse raw = Some u \<and> u_Scheme u \<in> schemes \<and> u_Host u \<noteq> [] \<and> (creds \<or> u_User u = None))"

definition public_path_ok :: "string \<Rightarrow> bool" where
  "public_path_ok p \<longleftrightarrow> p = [] \<or> hd p = CHR ''/'' \<and> CHR ''?'' \<notin> set p \<and> CHR ''#'' \<notin> set p"

definition route_ok :: "bool \<Rightarrow> croute \<Rightarrow> bool" where
  "route_ok edge_tls r \<longleftrightarrow>
     subject_token (r_Name r) \<and> length (r_Name r) \<le> 128 \<and>
     (r_Mode r = ''http'' \<and> url_ok {''http'', ''https''} False (r_Target r)
      \<or> r_Mode r = ''websocket'' \<and> url_ok {''ws'', ''wss''} False (r_Target r)
      \<or> r_Mode r \<in> {''tcp'', ''grpc''} \<and> hostport_ok (r_Target r)) \<and>
     (r_Mode r \<in> {''http'', ''websocket''} \<longrightarrow>
        set (r_PublicHost r) \<inter> set ''/?#'' = {} \<and>
        \<not> (r_PublicPrefix r = [] \<and> r_PublicPath r = []) \<and>
        public_path_ok (r_PublicPrefix r) \<and> public_path_ok (r_PublicPath r)) \<and>
     (r_Mode r \<in> {''tcp'', ''grpc''} \<longrightarrow> hostport_ok (r_Listen r)) \<and>
     0 \<le> r_MaxInlineRequestBytes r \<and> 0 \<le> r_MaxInlineResponseBytes r \<and>
     0 \<le> r_MaxRequestBodyBytes r \<and> 0 \<le> r_MaxResponseBodyBytes r \<and>
     0 \<le> r_Timeout r \<and> 0 \<le> r_IdleTimeout r \<and>
     (\<forall>h \<in> set (r_ForwardedHeaders r). http_token h) \<and>
     (r_TLS r \<longrightarrow> r_Mode r \<in> {''tcp'', ''grpc''} \<and> edge_tls)"

definition config_ok :: "config \<Rightarrow> bool" where
  "config_ok c \<longleftrightarrow>
     (let n = c_NATS c; ed = c_Edge c; cn = c_Connector c; nats = {''nats'', ''tls'', ''ws'', ''wss''} in
      url_ok nats True (n_URL n) \<and>
      (n_EdgeURL n = [] \<or> url_ok nats True (n_EdgeURL n)) \<and>
      (n_ConnectorURL n = [] \<or> url_ok nats True (n_ConnectorURL n)) \<and>
      hostport_ok (ed_HTTPAddr ed) \<and> hostport_ok (ed_DataAddr ed) \<and>
      url_ok {''ws'', ''wss''} False (cn_EdgeDataURL cn) \<and>
      (ed_MetricsAddr ed = [] \<or> hostport_ok (ed_MetricsAddr ed)) \<and>
      (cn_MetricsAddr cn = [] \<or> hostport_ok (cn_MetricsAddr cn)) \<and>
      (\<forall>t. ed_TLS ed = Some t \<longrightarrow> ts_CertFile t \<noteq> [] \<and> ts_KeyFile t \<noteq> []) \<and>
      (\<forall>t. cn_TLS cn = Some t \<longrightarrow>
         (tc_CertFile t = [] \<longleftrightarrow> tc_KeyFile t = []) \<and> HasPrefix (cn_EdgeDataURL cn) ''wss://'') \<and>
      c_Routes c \<noteq> [] \<and> distinct (map r_Name (c_Routes c)) \<and>
      (\<forall>r \<in> set (c_Routes c). route_ok (ed_TLS ed \<noteq> None) r))"

lemma subject_token_loop_iff: "subject_token_loop f rs = None \<longleftrightarrow> list_all subject_rune rs"
  by (induction f rs rule: subject_token_loop.induct) (auto simp: subject_rune_def)

lemma ValidateSubjectToken_iff:
  "ValidateSubjectToken f v = None \<longleftrightarrow> subject_token v \<and> length v \<le> 128"
  by (auto simp: ValidateSubjectToken_def subject_token_loop_iff subject_runes_bytes subject_token_def)

lemma validHeaderName_iff: "validHeaderName v \<longleftrightarrow> http_token v"
proof -
  have "list_all (\<lambda>r. \<not> (r > 127 \<or> \<not> isTokenChar (char_of r))) (rune_values v) \<longleftrightarrow>
        list_all (\<lambda>c. \<not> ((of_char c :: nat) > 127 \<or> \<not> isTokenChar (char_of (of_char c :: nat)))) v"
    by (rule rune_check_bytes) auto
  also have "\<dots> \<longleftrightarrow> (\<forall>c \<in> set v. is_token_char c)"
    using is_token_char_ascii by (fastforce simp: list_all_iff isTokenChar_def is_ascii_def)
  finally show ?thesis by (auto simp: validHeaderName_def http_token_def)
qed

lemma validate_forwarded_iff: "validate_forwarded p j hs = None \<longleftrightarrow> (\<forall>h \<in> set hs. http_token h)"
  by (induction p j hs rule: validate_forwarded.induct) (auto simp: validHeaderName_iff)

lemma validateHostPort_iff: "validateHostPort f v = None \<longleftrightarrow> hostport_ok v"
proof (cases "SplitHostPort v")
  case None
  then show ?thesis by (auto simp: validateHostPort_def hostport_ok_def)
next
  case (Some hp)
  obtain h p where hp: "hp = (h, p)" by (cases hp)
  have "v \<noteq> []" using Some by (auto simp: SplitHostPort_def last_index_def)
  moreover have "(case ParseUint 65536 p of Inl _ \<Rightarrow> Some (CPortNumber f) | Inr _ \<Rightarrow> None) = None \<longleftrightarrow>
      p \<noteq> [] \<and> list_all is_digit_char p \<and> decimal_value 0 p < 65536"
    by (auto simp: ParseUint_def Let_def split: if_splits)
  ultimately show ?thesis
    using Some hp by (auto simp: validateHostPort_def hostport_ok_def)
qed

lemma Url_Parse_Nil: "Url_Parse [] = Some empty_url"
  by (simp add: Url_Parse_def url_parse_def Cut_def getScheme_def split_query_def set_path_def
      Let_def HasSuffix_def HasPrefix_def ToLower_def empty_url_def)

lemma no_user: "(\<forall>a b. x \<noteq> Some (a, b)) \<longleftrightarrow> x = None"
  by (cases x) auto

lemma validateURLTarget_iff:
  "[] \<notin> set schemes \<Longrightarrow> validateURLTarget f raw schemes = None \<longleftrightarrow> url_ok (set schemes) False raw"
  by (auto simp: validateURLTarget_def url_ok_def no_user split: option.splits)

lemma validateConnectorURL_iff:
  "validateConnectorURL raw = None \<longleftrightarrow> url_ok {''ws'', ''wss''} False raw"
  by (auto simp: validateConnectorURL_def url_ok_def Let_def Url_Parse_Nil empty_url_def no_user
      split: option.splits)

lemma validateNATSURL_iff:
  "validateNATSURL f raw = None \<longleftrightarrow> url_ok {''nats'', ''tls'', ''ws'', ''wss''} True raw"
  by (auto simp: validateNATSURL_def url_ok_def Url_Parse_Nil empty_url_def split: option.splits)

lemma validatePath_iff: "validatePath f v = None \<longleftrightarrow> public_path_ok v"
  by (auto simp: validatePath_def public_path_ok_def ContainsAny_iff)

lemma first_error_None: "(case a of Some e \<Rightarrow> Some e | None \<Rightarrow> b) = None \<longleftrightarrow> a = None \<and> b = None"
  by (cases a) auto

lemma optional_check_None: "optional_check v e = None \<longleftrightarrow> v = [] \<or> e = None"
  by (simp add: optional_check_def)

lemmas config_iffs =
  ValidateSubjectToken_iff validate_forwarded_iff validateHostPort_iff validateConnectorURL_iff
  validateNATSURL_iff validatePath_iff first_error_None optional_check_None

lemma url_ok_Nil: "\<not> url_ok {''http'', ''https''} False []" "\<not> url_ok {''ws'', ''wss''} False []"
  by (simp_all add: url_ok_def Url_Parse_Nil empty_url_def)

lemma hostport_ok_Nil: "\<not> hostport_ok []"
  by (simp add: hostport_ok_def SplitHostPort_def last_index_def)

lemma target_iff:
  "validMode m \<and> t \<noteq> [] \<and> validateRouteTarget f m t = None \<longleftrightarrow>
     m = ''http'' \<and> url_ok {''http'', ''https''} False t
     \<or> m = ''websocket'' \<and> url_ok {''ws'', ''wss''} False t
     \<or> m \<in> {''tcp'', ''grpc''} \<and> hostport_ok t"
  using url_ok_Nil hostport_ok_Nil
  by (auto simp: validMode_def validateRouteTarget_def mode_defs validateURLTarget_iff
      validateHostPort_iff)

lemma public_fields_iff:
  "validateRoutePublicFields p r = None \<longleftrightarrow>
     (r_Mode r \<in> {''http'', ''websocket''} \<longrightarrow>
        set (r_PublicHost r) \<inter> set ''/?#'' = {} \<and>
        \<not> (r_PublicPrefix r = [] \<and> r_PublicPath r = []) \<and>
        public_path_ok (r_PublicPrefix r) \<and> public_path_ok (r_PublicPath r)) \<and>
     (r_Mode r \<in> {''tcp'', ''grpc''} \<longrightarrow> hostport_ok (r_Listen r))"
proof -
  have "r_PublicHost r \<noteq> [] \<and> ContainsAny (r_PublicHost r) ''/?#'' \<longleftrightarrow>
      set (r_PublicHost r) \<inter> set ''/?#'' \<noteq> {}"
    by (auto simp: ContainsAny_iff)
  then show ?thesis
    by (simp add: validateRoutePublicFields_def mode_defs config_iffs)
qed

lemma route_validate_cases:
  "route_validate r i = None \<longleftrightarrow>
     (let p = ''routes['' @ itoa (int i) @ '']'' in
      (subject_token (r_Name r) \<and> length (r_Name r) \<le> 128) \<and>
      (validMode (r_Mode r) \<and> r_Target r \<noteq> [] \<and>
       validateRouteTarget (p @ ''.target'') (r_Mode r) (r_Target r) = None) \<and>
      validateRoutePublicFields p r = None \<and>
      0 \<le> r_MaxInlineRequestBytes r \<and> 0 \<le> r_MaxInlineResponseBytes r \<and>
      0 \<le> r_MaxRequestBodyBytes r \<and> 0 \<le> r_MaxResponseBodyBytes r \<and>
      0 \<le> r_Timeout r \<and> 0 \<le> r_IdleTimeout r \<and>
      (\<forall>h \<in> set (r_ForwardedHeaders r). http_token h))"
  unfolding route_validate_def Let_def first_error_None ValidateSubjectToken_iff
  by (simp add: validate_forwarded_iff first_error_None not_less)

lemma route_validate_iff: "route_validate r i = None \<longleftrightarrow> route_ok tls (r\<lparr>r_TLS := False\<rparr>)"
  unfolding route_validate_cases Let_def target_iff public_fields_iff route_ok_def
  by (simp only: croute.simps conj_assoc) simp

lemma validate_routes_iff:
  "validate_routes tls i seen rs = None \<longleftrightarrow>
     (\<forall>r \<in> set rs. route_ok tls r) \<and> distinct (map r_Name rs) \<and> set (map r_Name rs) \<inter> set seen = {}"
proof (induction tls i seen rs rule: validate_routes.induct)
  case (2 tls i seen r rs)
  have "route_ok tls r \<longleftrightarrow> route_ok tls (r\<lparr>r_TLS := False\<rparr>) \<and> (r_TLS r \<longrightarrow> r_Mode r \<in> {''tcp'', ''grpc''} \<and> tls)"
    by (auto simp: route_ok_def)
  with 2 show ?case
    by (auto simp: first_error_None route_validate_iff [of r i tls] mode_defs)
qed simp

lemma Config_Validate_iff: "Config_Validate c = None \<longleftrightarrow> config_ok c"
proof -
  have "(case cn_TLS (c_Connector c) of None \<Rightarrow> False
         | Some t \<Rightarrow> (tc_CertFile t = []) \<noteq> (tc_KeyFile t = [])) \<longleftrightarrow>
      (\<exists>t. cn_TLS (c_Connector c) = Some t \<and> (tc_CertFile t = []) \<noteq> (tc_KeyFile t = []))"
    by (cases "cn_TLS (c_Connector c)") auto
  moreover have "(case ed_TLS (c_Edge c) of None \<Rightarrow> False
         | Some t \<Rightarrow> ts_CertFile t = [] \<or> ts_KeyFile t = []) \<longleftrightarrow>
      (\<exists>t. ed_TLS (c_Edge c) = Some t \<and> (ts_CertFile t = [] \<or> ts_KeyFile t = []))"
    by (cases "ed_TLS (c_Edge c)") auto
  ultimately show ?thesis
    by (simp add: Config_Validate_def config_ok_def Let_def config_iffs validate_routes_iff) auto
qed

section \<open>Subjects\<close>

text \<open>The tokens NATS splits a subject into.\<close>

fun subject_tokens :: "string \<Rightarrow> string \<Rightarrow> string list" where
  "subject_tokens acc [] = [rev acc]"
| "subject_tokens acc (c # cs) =
     (if c = CHR ''.'' then rev acc # subject_tokens [] cs else subject_tokens (c # acc) cs)"

lemma subject_tokens_token:
  "\<forall>c \<in> set t. subject_char c \<Longrightarrow>
   subject_tokens acc (t @ CHR ''.'' # rest) = (rev acc @ t) # subject_tokens [] rest"
  by (induction t arbitrary: acc) (auto dest: subject_char_not_separator)

lemma subject_tokens_last:
  "\<forall>c \<in> set t. subject_char c \<Longrightarrow> subject_tokens acc t = [rev acc @ t]"
  by (induction t arbitrary: acc) (auto dest: subject_char_not_separator)

lemma CancelSubject_TrimPrefix: "TrimPrefix (CancelSubject i) cancelSubjectPrefix = i"
  by (simp add: CancelSubject_def)

section \<open>Byte sizes\<close>

lemma is_unicode_digit_ascii: "is_ascii c \<Longrightarrow> is_unicode_digit (of_char c) = is_digit_char c"
  by (simp add: is_unicode_digit_def is_digit_char_def is_ascii_def less_eq_char_def)

lemma digit_is_ascii: "is_digit_char c \<Longrightarrow> is_ascii c"
  by (simp add: is_digit_char_def is_ascii_def less_eq_char_def)

lemma takeWhile_map_snd:
  "list_all is_ascii s \<Longrightarrow>
   concat (map snd (takeWhile (\<lambda>x. is_unicode_digit (fst x)) (runes s))) = takeWhile is_digit_char s \<and>
   concat (map snd (dropWhile (\<lambda>x. is_unicode_digit (fst x)) (runes s))) = dropWhile is_digit_char s"
proof (induction s)
  case (Cons c cs)
  then show ?case
    by (cases "is_digit_char c") (simp_all add: runes_ascii is_unicode_digit_ascii comp_def)
qed simp

definition ascii_space :: "char \<Rightarrow> bool" where
  "ascii_space c \<longleftrightarrow> c = CHR '' '' \<or> (9 \<le> (of_char c :: nat) \<and> (of_char c :: nat) \<le> 13)"

lemma is_unicode_space_ascii: "is_ascii c \<Longrightarrow> is_unicode_space (of_char c) = ascii_space c"
  using char_eqI [of c "CHR '' ''"]
  by (auto simp: is_unicode_space_def ascii_space_def is_ascii_def)

lemma TrimSpace_id:
  assumes "list_all is_ascii s" "s \<noteq> []" "\<not> ascii_space (hd s)" "\<not> ascii_space (last s)"
  shows "TrimSpace s = s"
proof -
  have "is_ascii (hd s)" "is_ascii (last s)"
    using assms(1,2) by (auto simp: list_all_iff)
  then have h: "\<not> is_unicode_space (of_char (hd s))" "\<not> is_unicode_space (of_char (last s))"
    using assms(3,4) is_unicode_space_ascii by auto
  have "dropWhile (\<lambda>x. is_unicode_space (fst x)) (runes s) = runes s"
    using h(1) assms(1,2) by (cases s) (simp_all add: runes_ascii)
  moreover have "dropWhile (\<lambda>x. is_unicode_space (fst x)) (rev (runes s)) = rev (runes s)"
    using h(2) assms(1,2) by (cases s rule: rev_cases) (simp_all add: runes_ascii)
  ultimately show ?thesis
    by (simp add: TrimSpace_def concat_runes)
qed

lemma digit_not_space: "is_digit_char c \<Longrightarrow> \<not> ascii_space c"
  by (auto simp: is_digit_char_def ascii_space_def less_eq_char_def)

lemma letter_class:
  "is_lower_alpha c \<or> is_upper_alpha c \<Longrightarrow> is_ascii c \<and> \<not> ascii_space c \<and> \<not> is_digit_char c"
  by (auto simp: char_class_defs ascii_space_def)

lemma byteUnits_letters: "(u, m) \<in> set byteUnits \<Longrightarrow> u \<noteq> [] \<and> list_all is_lower_alpha u"
  by (auto simp: byteUnits_def is_lower_alpha_def)

lemma byteUnits_map_of: "(u, m) \<in> set byteUnits \<Longrightarrow> map_of byteUnits u = Some m"
  by (auto simp: byteUnits_def)

lemma ascii_lower_letter: "is_lower_alpha (ascii_lower c) \<longleftrightarrow> is_lower_alpha c \<or> is_upper_alpha c"
  by (auto simp: char_class_defs of_char_lower)

text \<open>
  A number followed by a unit, in any letter case, is the product, reduced to \<^verbatim>\<open>int64\<close>.
\<close>

lemma parseBytes_wraps:
  assumes n: "int n \<le> max_int64" and u: "list_all is_ascii unit" "(ToLower unit, m) \<in> set byteUnits"
  shows "parseBytes (itoa_nat n @ unit) = Inr (wrap64 (int n * m))"
proof -
  let ?s = "itoa_nat n @ unit"
  have low: "map ascii_lower unit \<noteq> [] \<and> list_all is_lower_alpha (map ascii_lower unit)"
    using byteUnits_letters [OF u(2)] u(1) by (simp add: ToLower_def)
  then have unit: "unit \<noteq> []" "list_all (\<lambda>c. is_lower_alpha c \<or> is_upper_alpha c) unit"
    by (auto simp: list_all_iff ascii_lower_letter)
  then have cls: "\<forall>c \<in> set unit. \<not> ascii_space c \<and> \<not> is_digit_char c"
    using letter_class by (simp add: list_all_iff)
  have dig: "\<forall>c \<in> set (itoa_nat n). is_digit_char c"
    using itoa_nat_digits [of n] by (simp add: list_all_iff)
  have asc: "list_all is_ascii ?s"
    using dig u(1) by (auto simp: list_all_iff digit_is_ascii)
  have "TrimSpace ?s = ?s"
    using asc cls dig unit(1) itoa_nat_not_Nil [of n]
    by (intro TrimSpace_id) (auto simp: digit_not_space)
  moreover have "takeWhile is_digit_char ?s = itoa_nat n" "dropWhile is_digit_char ?s = unit"
    using dig cls unit(1) by (cases unit; simp)+
  ultimately show ?thesis
    using takeWhile_map_snd [OF asc] itoa_nat_not_Nil [of n] unit(1)
      ParseInt64_itoa [OF n] byteUnits_map_of [OF u(2)]
    by (simp add: parseBytes_def Let_def)
qed

section \<open>Properties\<close>

text \<open>
  C35. The configuration validator accepts exactly the configurations the documentation
  describes: well-formed addresses and URLs, certificates in pairs, at least one route, route
  names that are distinct NATS subject tokens, targets that fit the mode, public fields that
  fit the mode, non-negative limits, header names that are tokens, TLS only where the edge has
  a certificate.
\<close>

theorem Config_Validate_accepts: "Config_Validate c = None \<longleftrightarrow> config_ok c"
  by (rule Config_Validate_iff)

text \<open>The subjects of a route split into the five tokens of the documented pattern.\<close>

lemma route_subject_tokens:
  assumes "subject_token (r_Name r)"
  shows "subject_tokens [] (UnarySubject r) = [''airpc'', ''v1'', ''route'', r_Name r, ''unary'']"
    "subject_tokens [] (OpenSubject r) = [''airpc'', ''v1'', ''route'', r_Name r, ''open'']"
  using assms subject_tokens_token [of "r_Name r" "[]"]
  by (simp_all add: UnarySubject_def OpenSubject_def subject_token_def)

text \<open>
  In a validated configuration no two routes share a NATS subject, no unary subject is an
  open subject, and each subject has exactly the five tokens of the documented pattern (a
  route name can neither add a token nor be a wildcard).
\<close>

theorem route_subjects_disjoint:
  assumes "Config_Validate c = None"
  shows "distinct (map UnarySubject (c_Routes c) @ map OpenSubject (c_Routes c)) \<and>
    (\<forall>r \<in> set (c_Routes c).
       subject_tokens [] (UnarySubject r) = [''airpc'', ''v1'', ''route'', r_Name r, ''unary''] \<and>
       subject_tokens [] (OpenSubject r) = [''airpc'', ''v1'', ''route'', r_Name r, ''open''])"
proof -
  let ?rs = "c_Routes c"
  have ok: "distinct (map r_Name ?rs)" "\<And>r. r \<in> set ?rs \<Longrightarrow> subject_token (r_Name r)"
    using assms by (auto simp: Config_Validate_iff config_ok_def Let_def route_ok_def)
  note tok = route_subject_tokens [OF ok(2)]
  have "inj_on r_Name (set ?rs)" "distinct ?rs"
    using ok(1) by (simp_all add: distinct_map)
  then have "distinct (map UnarySubject ?rs)" "distinct (map OpenSubject ?rs)"
    by (auto simp: distinct_map inj_on_def UnarySubject_def OpenSubject_def)
  moreover have "UnarySubject r \<noteq> OpenSubject r'" if "r \<in> set ?rs" "r' \<in> set ?rs" for r r'
    using tok(1) [OF that(1)] tok(2) [OF that(2)] by auto
  ultimately show ?thesis
    using tok by auto
qed

text \<open>A small configuration, for the witnesses: a database and a web site behind one edge.\<close>

definition sample_tcp :: croute where
  "sample_tcp =
     \<lparr>r_Name = ''db'', r_Mode = ''tcp'', r_PublicHost = [], r_PublicPrefix = [], r_PublicPath = [],
      r_Listen = '':15432'', r_Target = ''127.0.0.1:5432'', r_MaxInlineRequestBytes = 0,
      r_MaxInlineResponseBytes = 0, r_MaxRequestBodyBytes = 0, r_MaxResponseBodyBytes = 0,
      r_Timeout = 0, r_IdleTimeout = 0, r_ForwardedHeaders = [], r_TLS = False\<rparr>"

definition sample_http :: croute where
  "sample_http =
     \<lparr>r_Name = ''web'', r_Mode = ''http'', r_PublicHost = ''example.com'', r_PublicPrefix = ''/app'',
      r_PublicPath = [], r_Listen = [], r_Target = ''http://127.0.0.1:8080'',
      r_MaxInlineRequestBytes = 0, r_MaxInlineResponseBytes = 0, r_MaxRequestBodyBytes = 1024,
      r_MaxResponseBodyBytes = 0, r_Timeout = 0, r_IdleTimeout = 0,
      r_ForwardedHeaders = [''Accept''], r_TLS = False\<rparr>"

definition sample_config :: config where
  "sample_config =
     \<lparr>c_NATS = \<lparr>n_URL = ''nats://127.0.0.1:4222'', n_EdgeURL = [], n_ConnectorURL = [], n_CredsFile = []\<rparr>,
      c_Edge = \<lparr>ed_HTTPAddr = '':8080'', ed_DataAddr = '':8081'', ed_MetricsAddr = [], ed_TLS = None\<rparr>,
      c_Connector = \<lparr>cn_EdgeDataURL = ''ws://127.0.0.1:8081/_airpc/data'', cn_TunnelToken = ''t'',
                     cn_MetricsAddr = [], cn_TLS = None\<rparr>,
      c_Routes = [sample_tcp, sample_http]\<rparr>"

lemma sample_config_valid: "Config_Validate sample_config = None"
  by code_simp

theorem route_subjects_disjoint_witness:
  "Config_Validate sample_config = None \<and>
   distinct [UnarySubject sample_tcp, UnarySubject sample_http, OpenSubject sample_tcp, OpenSubject sample_http]"
  using route_subjects_disjoint [OF sample_config_valid] sample_config_valid
  by (simp add: sample_config_def)

text \<open>
  Cancellation subjects: the connector reads a request id from a subject exactly when the
  subject is the cancel subject of a token id of at most 128 bytes, and it reads that id.
\<close>

theorem RequestIDFromCancelSubject_iff:
  "RequestIDFromCancelSubject s = Some i \<longleftrightarrow> s = CancelSubject i \<and> subject_token i \<and> length i \<le> 128"
proof (cases "HasPrefix s cancelSubjectPrefix")
  case True
  then obtain j where s: "s = CancelSubject j" by (auto simp: HasPrefix_iff CancelSubject_def)
  have inj: "CancelSubject j = CancelSubject i \<longleftrightarrow> j = i" by (simp add: CancelSubject_def)
  have "CancelSubject j \<noteq> j" by (simp add: CancelSubject_def cancelSubjectPrefix_def)
  then show ?thesis
    unfolding s inj
    by (auto simp: RequestIDFromCancelSubject_def Let_def ValidateSubjectToken_iff CancelSubject_TrimPrefix)
next
  case False
  then have "s \<noteq> CancelSubject i" by (auto simp: CancelSubject_def)
  with False show ?thesis by (simp add: RequestIDFromCancelSubject_def TrimPrefix_def)
qed

text \<open>
  Byte sizes: a decimal number followed by a unit, in any letter case, is the number times
  the unit, whenever that product fits in an \<^verbatim>\<open>int64\<close>.
\<close>

theorem parseBytes_exact:
  assumes "list_all is_ascii unit" "(ToLower unit, m) \<in> set byteUnits" "int n * m \<le> max_int64"
  shows "parseBytes (itoa_nat n @ unit) = Inr (int n * m)"
proof -
  have m: "1 \<le> m" using assms(2) by (auto simp: byteUnits_def)
  then have "int n * 1 \<le> int n * m" by (intro mult_left_mono) auto
  then have "int n \<le> max_int64" using assms(3) by simp
  moreover have "is_int64 (int n * m)"
    using m assms(3) by (auto simp: is_int64_def min_int64_def intro: order_trans [of _ 0])
  ultimately show ?thesis
    using parseBytes_wraps [OF _ assms(1,2)] by simp
qed

theorem parseBytes_exact_witness: "parseBytes (itoa_nat 4 @ ''MiB'') = Inr (4 * 1048576)"
proof -
  have "list_all is_ascii ''MiB''" by code_simp
  moreover have "(ToLower ''MiB'', 1048576) \<in> set byteUnits" by code_simp
  ultimately show ?thesis
    using parseBytes_exact [of "''MiB''" 1048576 4] by (simp add: max_int64_def)
qed

text \<open>
  Byte sizes beyond \<^verbatim>\<open>int64\<close> are not refused: the product wraps, and 16 GiB of GiB reads
  as zero, which the edge and the connector take as "use the default limit".
\<close>

theorem parseBytes_overflow_silent:
  "parseBytes ''17179869184GiB'' = Inr 0 \<and> parseBytes ''9223372036854775807kb'' = Inr (- 1000)"
  by code_simp

end
