(* ===== verification/Http_Headers.thy ===== *)
theory Http_Headers
  imports Unary_Envelope
begin

text \<open>
  Package \<^verbatim>\<open>internal/httpheaders\<close> (\<^verbatim>\<open>headers.go\<close>): the request header allowlist and the
  hop-by-hop filter. A source header is iterated in some order (the list it is given as);
  the destination is built with \<^verbatim>\<open>http.Header.Add\<close>.

  The lemmas state what a client or a backend can and cannot get across: no hop-by-hop
  header in either direction, no request header off the allowlist, and every allowed header
  with all its values in order.
\<close>

definition hopByHop :: "string list" where
  "hopByHop = [''connection'', ''keep-alive'', ''proxy-authenticate'', ''proxy-authorization'',
               ''te'', ''trailer'', ''transfer-encoding'', ''upgrade'']"

definition isHopByHop :: "string \<Rightarrow> bool" where
  "isHopByHop name \<longleftrightarrow> ToLower name \<in> set hopByHop"

text \<open>\<^verbatim>\<open>h[key] = append(h[key], value)\<close>, a missing key being added.\<close>

fun header_append :: "string \<Rightarrow> string \<Rightarrow> header \<Rightarrow> header" where
  "header_append k v [] = [(k, [v])]"
| "header_append k v ((k', vs) # h) =
     (if k = k' then (k', vs @ [v]) # h else (k', vs) # header_append k v h)"

text \<open>\<^verbatim>\<open>http.Header.Add\<close>.\<close>

definition header_Add :: "header \<Rightarrow> string \<Rightarrow> string \<Rightarrow> header" where
  "header_Add h name value = header_append (CanonicalHeaderKey name) value h"

text \<open>\<^verbatim>\<open>http.Header.Set\<close>.\<close>

fun header_replace :: "string \<Rightarrow> string \<Rightarrow> header \<Rightarrow> header" where
  "header_replace k v [] = [(k, [v])]"
| "header_replace k v ((k', vs) # h) = (if k = k' then (k', [v]) # h else (k', vs) # header_replace k v h)"

definition header_Set :: "header \<Rightarrow> string \<Rightarrow> string \<Rightarrow> header" where
  "header_Set h name value = header_replace (CanonicalHeaderKey name) value h"

text \<open>\<^verbatim>\<open>h[key]\<close>: the values under exactly this key, none for a missing one.\<close>

fun header_values :: "header \<Rightarrow> string \<Rightarrow> string list" where
  "header_values [] k = []"
| "header_values ((k', vs) # h) k = (if k = k' then vs else header_values h k)"

text \<open>\<^verbatim>\<open>http.Header.Get\<close>: the first value under the canonical key, or empty.\<close>

definition header_Get :: "header \<Rightarrow> string \<Rightarrow> string" where
  "header_Get h name =
     (case header_values h (CanonicalHeaderKey name) of [] \<Rightarrow> [] | v # _ \<Rightarrow> v)"

definition copyValues :: "header \<Rightarrow> string \<Rightarrow> string list \<Rightarrow> header" where
  "copyValues dst name values = foldl (\<lambda>d v. header_Add d name v) dst values"

fun allowed_set :: "string list \<Rightarrow> string list" where
  "allowed_set [] = []"
| "allowed_set (name # names) =
     (let canonical = CanonicalHeaderKey (TrimSpace name) in
      if canonical = [] \<or> isHopByHop canonical then allowed_set names
      else canonical # allowed_set names)"

fun filter_request_loop :: "string list \<Rightarrow> header \<Rightarrow> header \<Rightarrow> header" where
  "filter_request_loop allow dst [] = dst"
| "filter_request_loop allow dst ((name, values) # src) =
     (let canonical = CanonicalHeaderKey name in
      if canonical \<notin> set allow \<or> isHopByHop canonical then filter_request_loop allow dst src
      else filter_request_loop allow (copyValues dst canonical values) src)"

definition FilterRequest :: "header \<Rightarrow> string list \<Rightarrow> header" where
  "FilterRequest src allowed = filter_request_loop (allowed_set allowed) [] src"

fun filter_response_loop :: "header \<Rightarrow> header \<Rightarrow> header" where
  "filter_response_loop dst [] = dst"
| "filter_response_loop dst ((name, values) # src) =
     (let canonical = CanonicalHeaderKey name in
      if canonical = [] \<or> isHopByHop canonical then filter_response_loop dst src
      else filter_response_loop (copyValues dst canonical values) src)"

definition FilterResponse :: "header \<Rightarrow> header" where
  "FilterResponse src = filter_response_loop [] src"

section \<open>Building a header\<close>

definition header_keys :: "header \<Rightarrow> string set" where
  "header_keys h = set (map fst h)"

text \<open>The values a loop copies for key \<open>k\<close>: those of every source entry that canonicalises to it.\<close>

definition source_values :: "header \<Rightarrow> string \<Rightarrow> string list" where
  "source_values src k = concat (map snd (filter (\<lambda>(n, _). CanonicalHeaderKey n = k) src))"

lemma header_values_append:
  "header_values (header_append k v h) k' = header_values h k' @ (if k = k' then [v] else [])"
  by (induction k v h rule: header_append.induct) auto

lemma header_keys_append: "header_keys (header_append k v h) = insert k (header_keys h)"
  by (induction k v h rule: header_append.induct) (auto simp: header_keys_def)

lemma header_wf_append: "header_wf h \<Longrightarrow> header_wf (header_append k v h)"
  unfolding header_wf_def
proof (induction k v h rule: header_append.induct)
  case (2 k v k' vs h)
  then show ?case
    using header_keys_append [of k v h] by (auto simp: header_keys_def)
qed simp

lemma copyValues_Cons [simp]: "copyValues dst n (v # vs) = copyValues (header_Add dst n v) n vs"
  and copyValues_Nil [simp]: "copyValues dst n [] = dst"
  by (simp_all add: copyValues_def)

lemma header_values_copy:
  "header_values (copyValues dst n vs) k =
     header_values dst k @ (if CanonicalHeaderKey n = k then vs else [])"
  by (induction vs arbitrary: dst) (auto simp: header_Add_def header_values_append)

lemma header_wf_copy: "header_wf dst \<Longrightarrow> header_wf (copyValues dst n vs)"
  by (induction vs arbitrary: dst) (auto simp: header_Add_def header_wf_append)

lemma keys_copy:
  "header_keys (copyValues dst n vs) \<subseteq> insert (CanonicalHeaderKey n) (header_keys dst)"
proof (induction vs arbitrary: dst)
  case (Cons v vs)
  show ?case
    using Cons [of "header_Add dst n v"] by (simp add: header_Add_def header_keys_append)
qed auto

lemmas copy_facts = header_values_copy header_wf_copy

lemma source_values_Cons:
  "source_values ((n, vs) # src) k = (if CanonicalHeaderKey n = k then vs else []) @ source_values src k"
  by (simp add: source_values_def)

section \<open>What the filters pass\<close>

lemma filter_request_values:
  "header_values (filter_request_loop allow dst src) k =
     header_values dst k @
     (if k \<in> set allow \<and> \<not> isHopByHop k then source_values src k else [])"
proof (induction allow dst src rule: filter_request_loop.induct)
  case (2 allow dst name vals src)
  then show ?case
    by (auto simp: Let_def source_values_Cons header_values_copy)
qed (simp add: source_values_def)

lemma filter_request_wf: "header_wf dst \<Longrightarrow> header_wf (filter_request_loop allow dst src)"
  by (induction allow dst src rule: filter_request_loop.induct) (auto simp: Let_def header_wf_copy)

lemma filter_request_keys:
  "header_keys (filter_request_loop allow dst src) \<subseteq>
     header_keys dst \<union> {k. k \<in> set allow \<and> \<not> isHopByHop k}"
proof (induction allow dst src rule: filter_request_loop.induct)
  case (2 allow dst name vals src)
  then show ?case
    using keys_copy [of dst "CanonicalHeaderKey name" vals] by (auto simp: Let_def)
qed simp

lemma filter_response_values:
  "header_values (filter_response_loop dst src) k =
     header_values dst k @ (if k \<noteq> [] \<and> \<not> isHopByHop k then source_values src k else [])"
proof (induction dst src rule: filter_response_loop.induct)
  case (2 dst name vals src)
  then show ?case
    by (auto simp: Let_def source_values_Cons header_values_copy)
qed (simp add: source_values_def)

lemma filter_response_wf: "header_wf dst \<Longrightarrow> header_wf (filter_response_loop dst src)"
  by (induction dst src rule: filter_response_loop.induct) (auto simp: Let_def header_wf_copy)

text \<open>A header name in canonical form that is not hop-by-hop.\<close>

definition end_to_end :: "string \<Rightarrow> bool" where
  "end_to_end k \<longleftrightarrow> k \<noteq> [] \<and> \<not> isHopByHop k \<and> CanonicalHeaderKey k = k"

lemma filter_response_keys:
  "header_keys (filter_response_loop dst src) \<subseteq> header_keys dst \<union> Collect end_to_end"
proof (induction dst src rule: filter_response_loop.induct)
  case (2 dst name vals src)
  have "end_to_end (CanonicalHeaderKey name)"
    if "name \<noteq> []" "\<not> isHopByHop (CanonicalHeaderKey name)"
    using that by (simp add: end_to_end_def)
  with 2 show ?case
    using keys_copy [of dst "CanonicalHeaderKey name" vals] by (auto simp: Let_def)
qed simp

lemma allowed_set_iff:
  "k \<in> set (allowed_set names) \<longleftrightarrow>
     k \<noteq> [] \<and> \<not> isHopByHop k \<and> (\<exists>n \<in> set names. CanonicalHeaderKey (TrimSpace n) = k)"
  by (induction names rule: allowed_set.induct) (auto simp: Let_def)

text \<open>A canonical source (what \<^verbatim>\<open>net/http\<close> hands to the edge): keys already canonical.\<close>

definition header_canonical :: "header \<Rightarrow> bool" where
  "header_canonical h \<longleftrightarrow> header_wf h \<and> (\<forall>k \<in> header_keys h. CanonicalHeaderKey k = k)"

lemma source_values_canonical:
  "header_canonical src \<Longrightarrow> CanonicalHeaderKey k = k \<Longrightarrow> source_values src k = header_values src k"
proof (induction src)
  case (Cons x src)
  obtain n vs where x: "x = (n, vs)" by (cases x)
  from Cons.prems(1) have "header_canonical src" and nk: "CanonicalHeaderKey n = n"
      and fresh: "n \<notin> fst ` set src"
    by (auto simp: header_canonical_def header_wf_def header_keys_def x)
  with Cons have IH: "source_values src k = header_values src k" by simp
  moreover have "header_values src n = []"
    using fresh by (induction src) auto
  ultimately show ?case
    using nk by (auto simp: source_values_Cons x)
qed (simp add: source_values_def)

section \<open>Properties\<close>

lemma source_values_noncanonical:
  "CanonicalHeaderKey k \<noteq> k \<Longrightarrow> source_values src k = []"
  by (auto simp: source_values_def filter_empty_conv)

text \<open>
  C37. Request headers: of the headers \<^verbatim>\<open>net/http\<close> parsed, exactly those on the route's
  allowlist that are not hop-by-hop reach the backend, each with all its values in order, and
  nothing else does. Allowlist entries are trimmed and compared in canonical form.
\<close>

theorem FilterRequest_exact:
  assumes "header_canonical src"
  shows "header_values (FilterRequest src allowed) k =
      (if k \<noteq> [] \<and> \<not> isHopByHop k \<and> (\<exists>n \<in> set allowed. CanonicalHeaderKey (TrimSpace n) = k)
       then header_values src k else []) \<and>
    header_keys (FilterRequest src allowed) \<subseteq>
      {k. k \<noteq> [] \<and> \<not> isHopByHop k \<and> (\<exists>n \<in> set allowed. CanonicalHeaderKey (TrimSpace n) = k)} \<and>
    header_wf (FilterRequest src allowed)"
proof (intro conjI)
  show "header_values (FilterRequest src allowed) k =
      (if k \<noteq> [] \<and> \<not> isHopByHop k \<and> (\<exists>n \<in> set allowed. CanonicalHeaderKey (TrimSpace n) = k)
       then header_values src k else [])"
    using source_values_canonical [OF assms, of k]
    by (auto simp: FilterRequest_def filter_request_values allowed_set_iff)
  show "header_keys (FilterRequest src allowed) \<subseteq>
      {k. k \<noteq> [] \<and> \<not> isHopByHop k \<and> (\<exists>n \<in> set allowed. CanonicalHeaderKey (TrimSpace n) = k)}"
    using filter_request_keys [of "allowed_set allowed" "[]" src]
    by (auto simp: FilterRequest_def header_keys_def allowed_set_iff)
  show "header_wf (FilterRequest src allowed)"
    unfolding FilterRequest_def by (rule filter_request_wf) (simp add: header_wf_def)
qed

theorem FilterRequest_exact_witness:
  "header_values (FilterRequest [(''Accept'', [''a'', ''b'']), (''Te'', [''trailers'']), (''Cookie'', [''x''])]
     ['' accept'', ''te'']) ''Accept'' = [''a'', ''b'']"
proof -
  let ?src = "[(''Accept'', [''a'', ''b'']), (''Te'', [''trailers'']), (''Cookie'', [''x''])]"
  have "header_canonical ?src" unfolding header_canonical_def header_keys_def header_wf_def by code_simp
  moreover have "\<not> isHopByHop ''Accept''" by code_simp
  moreover have "CanonicalHeaderKey (TrimSpace '' accept'') = ''Accept''" by code_simp
  ultimately show ?thesis
    using FilterRequest_exact [of ?src "['' accept'', ''te'']" "''Accept''"] by auto
qed

text \<open>
  Response headers: every end-to-end header of the backend reaches the client with all its
  values in order; hop-by-hop headers do not, and none is invented.
\<close>

theorem FilterResponse_exact:
  assumes "header_canonical src"
  shows "header_values (FilterResponse src) k = (if end_to_end k then header_values src k else []) \<and>
    header_keys (FilterResponse src) \<subseteq> Collect end_to_end \<and> header_wf (FilterResponse src)"
proof (intro conjI)
  show "header_values (FilterResponse src) k = (if end_to_end k then header_values src k else [])"
    using source_values_canonical [OF assms, of k] source_values_noncanonical [of k src]
    by (auto simp: FilterResponse_def filter_response_values end_to_end_def)
  show "header_keys (FilterResponse src) \<subseteq> Collect end_to_end"
    using filter_response_keys [of "[]" src] by (auto simp: FilterResponse_def header_keys_def)
  show "header_wf (FilterResponse src)"
    unfolding FilterResponse_def by (rule filter_response_wf) (simp add: header_wf_def)
qed

theorem FilterResponse_exact_witness:
  "header_values (FilterResponse [(''Connection'', [''close'']), (''Etag'', [''x''])]) ''Connection'' = []"
proof -
  let ?src = "[(''Connection'', [''close'']), (''Etag'', [''x''])]"
  have "header_canonical ?src" unfolding header_canonical_def header_keys_def header_wf_def by code_simp
  moreover have "isHopByHop ''Connection''" by code_simp
  ultimately show ?thesis
    using FilterResponse_exact [of ?src "''Connection''"] by (simp add: end_to_end_def)
qed

end
