(* ===== verification/Edge_Routes.thy ===== *)
theory Edge_Routes
  imports Airpc_Config Http_Headers
begin

text \<open>
  Package \<^verbatim>\<open>internal/edge\<close>: the route tables of the edge and the matching of a request against
  them, and the small functions of \<^verbatim>\<open>edge.go\<close> that derive values from a route or a request.

  A request is the record of the fields of \<^verbatim>\<open>http.Request\<close> the edge reads. A request body is the
  bytes it yields and whether it then fails; an error is returned by a read of its own, after
  the data.

  The lemmas characterise path and host matching, show that the most specific matching route
  wins, and relate the suffix a match yields to what the request envelope accepts.
\<close>

section \<open>Routes and requests\<close>

record edge_route =
  er_cfg :: croute
  er_prefix :: string
  er_exact :: string

record http_body =
  hb_data :: bytes
  hb_fails :: bool

record http_request =
  hq_Method :: string
  hq_Host :: string
  hq_Path :: string
  hq_RawQuery :: string
  hq_Header :: header
  hq_TLS :: bool
  hq_Body :: http_body

definition new_edge_route :: "croute \<Rightarrow> edge_route" where
  "new_edge_route r = \<lparr>er_cfg = r, er_prefix = r_PublicPrefix r, er_exact = r_PublicPath r\<rparr>"

definition route_length :: "edge_route \<Rightarrow> nat" where
  "route_length r = length (er_prefix r) + length (er_exact r)"

text \<open>\<^verbatim>\<open>sort.SliceStable\<close> with "longer first": the stable sort by descending length.\<close>

definition sortRoutes :: "edge_route list \<Rightarrow> edge_route list" where
  "sortRoutes routes = sort_key (\<lambda>r. - int (route_length r)) routes"

fun http_routes_loop :: "croute list \<Rightarrow> edge_route list" where
  "http_routes_loop [] = []"
| "http_routes_loop (r # rs) =
     (if r_Mode r \<noteq> ModeHTTP then http_routes_loop rs else new_edge_route r # http_routes_loop rs)"

definition httpRoutes :: "croute list \<Rightarrow> edge_route list" where
  "httpRoutes routes = sortRoutes (http_routes_loop routes)"

definition wsRoutes :: "croute list \<Rightarrow> edge_route list" where
  "wsRoutes routes = sortRoutes (map new_edge_route (filter (\<lambda>r. r_Mode r = ModeWebSocket) routes))"

definition tcpRoutes :: "croute list \<Rightarrow> croute list" where
  "tcpRoutes routes = filter (\<lambda>r. r_Mode r = ModeTCP \<or> r_Mode r = ModeGRPC) routes"

section \<open>Matching\<close>

definition normalizeHost :: "string \<Rightarrow> string" where
  "normalizeHost host =
     (let host' = TrimSpace (ToLower host) in
      case SplitHostPort host' of Some (h, _) \<Rightarrow> h | None \<Rightarrow> host')"

definition hostMatches :: "string \<Rightarrow> string \<Rightarrow> bool" where
  "hostMatches routeHost requestHost =
     (if routeHost = [] then True else EqualFold (normalizeHost routeHost) (normalizeHost requestHost))"

definition pathHasPrefix :: "string \<Rightarrow> string \<Rightarrow> bool" where
  "pathHasPrefix path prefix =
     (if path = prefix then True
      else if \<not> HasPrefix path prefix then False
      else HasSuffix prefix ''/'' \<or> HasPrefix (TrimPrefix path prefix) ''/'')"

definition withQuery :: "string \<Rightarrow> string \<Rightarrow> string" where
  "withQuery path rawQuery = (if rawQuery = [] then path else path @ ''?'' @ rawQuery)"

fun matchRoute :: "edge_route list \<Rightarrow> http_request \<Rightarrow> (edge_route \<times> string) option" where
  "matchRoute [] req = None"
| "matchRoute (r # rs) req =
     (if \<not> hostMatches (r_PublicHost (er_cfg r)) (hq_Host req) then matchRoute rs req
      else if er_exact r \<noteq> [] \<and> hq_Path req = er_exact r then
        Some (r, withQuery ''/'' (hq_RawQuery req))
      else if er_prefix r \<noteq> [] \<and> pathHasPrefix (hq_Path req) (er_prefix r) then
        (let suffix = TrimPrefix (hq_Path req) (er_prefix r);
             suffix' = (if suffix = [] then ''/'' else suffix) in
         Some (r, withQuery suffix' (hq_RawQuery req)))
      else matchRoute rs req)"

section \<open>Derived values\<close>

definition requestScheme :: "http_request \<Rightarrow> string" where
  "requestScheme req =
     (if hq_TLS req then ''https''
      else let scheme = header_Get (hq_Header req) ''X-Forwarded-Proto'' in
           if scheme = ''https'' \<or> scheme = ''http'' then scheme else ''http'')"

definition defaultRequestLimit :: int where "defaultRequestLimit = 2 ^ 20"

definition defaultTimeout :: int where "defaultTimeout = 30 * 1000000000"

definition routeRequestLimit :: "croute \<Rightarrow> int" where
  "routeRequestLimit r = (let limit = MaxInlineRequest r in if limit \<le> 0 then defaultRequestLimit else limit)"

definition routeTimeout :: "croute \<Rightarrow> int" where
  "routeTimeout r = (if r_Timeout r > 0 then r_Timeout r else defaultTimeout)"

definition hex_digit :: "nat \<Rightarrow> char" where
  "hex_digit n = ''0123456789abcdef'' ! n"

definition hex_encode :: "bytes \<Rightarrow> string" where
  "hex_encode b = concat (map (\<lambda>c. [hex_digit (of_char c div 16), hex_digit (of_char c mod 16)]) b)"

text \<open>\<^verbatim>\<open>requestID\<close>: the sixteen bytes \<^verbatim>\<open>rand.Read\<close> gives, or its failure.\<close>

definition requestID :: "bytes option \<Rightarrow> string option" where
  "requestID rand = map_option hex_encode rand"

text \<open>
  \<^verbatim>\<open>io.ReadAll(io.LimitReader(body, n))\<close>: at most \<open>n\<close> bytes, none for \<open>n \<le> 0\<close>, and the error only
  when it is reached.
\<close>

definition read_limited :: "http_body \<Rightarrow> int \<Rightarrow> bytes option" where
  "read_limited body n =
     (if hb_fails body \<and> int (length (hb_data body)) < n then None
      else Some (take (nat n) (hb_data body)))"

section \<open>Replies\<close>

record http_reply =
  hr_status :: int
  hr_header :: header
  hr_body :: bytes

text \<open>\<^verbatim>\<open>http.Error\<close>.\<close>

definition http_Error :: "string \<Rightarrow> int \<Rightarrow> http_reply" where
  "http_Error msg code =
     \<lparr>hr_status = code,
      hr_header = [(''Content-Type'', [''text/plain; charset=utf-8'']), (''X-Content-Type-Options'', [''nosniff''])],
      hr_body = msg @ [CHR 0x0A]\<rparr>"

text \<open>\<^verbatim>\<open>readBounded\<close> of the edge: the data, or the reply already written. \<^verbatim>\<open>limit+1\<close> is \<^verbatim>\<open>int64\<close>.\<close>

definition readBounded :: "http_body \<Rightarrow> int \<Rightarrow> (http_reply, bytes) result" where
  "readBounded body limit =
     (case read_limited body (wrap64 (limit + 1)) of
        None \<Rightarrow> Inl (http_Error ''failed to read request body'' 400)
      | Some data \<Rightarrow>
          if int (length data) > limit then Inl (http_Error ''request body too large'' 413)
          else Inr data)"

section \<open>What matches\<close>

text \<open>A path lies under a prefix at a segment boundary.\<close>

definition under_prefix :: "string \<Rightarrow> string \<Rightarrow> bool" where
  "under_prefix path prefix \<longleftrightarrow>
     (\<exists>t. path = prefix @ t \<and> (t = [] \<or> hd t = CHR ''/'' \<or> (prefix \<noteq> [] \<and> last prefix = CHR ''/'')))"

definition route_matches :: "http_request \<Rightarrow> edge_route \<Rightarrow> bool" where
  "route_matches req r \<longleftrightarrow>
     hostMatches (r_PublicHost (er_cfg r)) (hq_Host req) \<and>
     (er_exact r \<noteq> [] \<and> hq_Path req = er_exact r \<or>
      er_prefix r \<noteq> [] \<and> under_prefix (hq_Path req) (er_prefix r))"

definition match_suffix :: "http_request \<Rightarrow> edge_route \<Rightarrow> string" where
  "match_suffix req r =
     (if er_exact r \<noteq> [] \<and> hq_Path req = er_exact r then ''/''
      else let t = drop (length (er_prefix r)) (hq_Path req) in if t = [] then ''/'' else t)"

lemma TrimPrefix_self: "TrimPrefix p p = []"
  using TrimPrefix_append [of p "[]"] by simp

lemma pathHasPrefix_iff: "pathHasPrefix path prefix \<longleftrightarrow> under_prefix path prefix"
proof (cases "HasPrefix path prefix")
  case True
  then obtain t where t: "path = prefix @ t" by (auto simp: HasPrefix_iff)
  have "HasSuffix prefix ''/'' \<longleftrightarrow> prefix \<noteq> [] \<and> last prefix = CHR ''/''"
    by (cases prefix rule: rev_cases) (auto simp: HasSuffix_iff)
  then show ?thesis by (auto simp: pathHasPrefix_def under_prefix_def t)
next
  case False
  then have "path \<noteq> prefix @ t" for t by (auto simp: HasPrefix_iff)
  then show ?thesis using False by (auto simp: pathHasPrefix_def under_prefix_def)
qed

lemma matchRoute_Cons:
  "matchRoute (r # rs) req =
     (if route_matches req r then Some (r, withQuery (match_suffix req r) (hq_RawQuery req)) else matchRoute rs req)"
proof -
  have "TrimPrefix (hq_Path req) (er_prefix r) = drop (length (er_prefix r)) (hq_Path req)"
    if "under_prefix (hq_Path req) (er_prefix r)"
    using that by (auto simp: under_prefix_def TrimPrefix_self)
  then show ?thesis
    by (auto simp: route_matches_def match_suffix_def pathHasPrefix_iff Let_def)
qed

declare matchRoute.simps(2) [simp del]

lemma matchRoute_find:
  "matchRoute rs req =
     map_option (\<lambda>r. (r, withQuery (match_suffix req r) (hq_RawQuery req))) (find (route_matches req) rs)"
  by (induction rs) (auto simp: matchRoute_Cons)

lemma find_Some_split:
  "find P xs = Some x \<Longrightarrow> \<exists>pre post. xs = pre @ x # post \<and> (\<forall>y \<in> set pre. \<not> P y) \<and> P x"
proof (induction xs)
  case (Cons a xs)
  show ?case
  proof (cases "P a")
    case True
    then show ?thesis using Cons.prems by (intro exI [of _ "[]"] exI [of _ xs]) simp
  next
    case False
    then obtain pre post where "xs = pre @ x # post" "\<forall>y \<in> set pre. \<not> P y" "P x"
      using Cons by auto
    then show ?thesis using False by (intro exI [of _ "a # pre"] exI [of _ post]) simp
  qed
qed simp

lemma find_sort_key_desc:
  fixes k :: "'a \<Rightarrow> nat"
  assumes "find P (sort_key (\<lambda>x. - int (k x)) xs) = Some r"
  shows "r \<in> set xs" "P r" "\<And>x. x \<in> set xs \<Longrightarrow> P x \<Longrightarrow> k x \<le> k r"
    "find (\<lambda>x. P x \<and> k x = k r) xs = Some r"
proof -
  let ?s = "sort_key (\<lambda>x. - int (k x)) xs"
  obtain pre post where s: "?s = pre @ r # post" "\<forall>x \<in> set pre. \<not> P x" and r: "P r"
    using find_Some_split [OF assms] by blast
  have "r \<in> set ?s" by (simp add: s(1))
  then show "r \<in> set xs" "P r" using r by simp_all
  have sorted: "sorted (map (\<lambda>x. - int (k x)) ?s)" by simp
  show "k x \<le> k r" if "x \<in> set xs" "P x" for x
  proof -
    have "x \<in> set (r # post)" using that s by (metis Un_iff set_append set_sort)
    then show ?thesis using sorted unfolding s(1) by (auto simp: sorted_append)
  qed
  have "filter (\<lambda>x. - int (k x) = - int (k r)) ?s = filter (\<lambda>x. - int (k x) = - int (k r)) xs"
    by (rule sort_key_stable)
  then have same: "filter (\<lambda>x. k x = k r) ?s = filter (\<lambda>x. k x = k r) xs" by simp
  have "find (\<lambda>x. P x \<and> k x = k r) ys = find P (filter (\<lambda>x. k x = k r) ys)" for ys
    by (induction ys) auto
  moreover have "find P (filter (\<lambda>x. k x = k r) (pre @ r # post)) = Some r"
  proof -
    have "find P (filter Q pre @ ys) = find P ys" for Q ys
      using s(2) by (induction pre) auto
    then show ?thesis using r by simp
  qed
  ultimately show "find (\<lambda>x. P x \<and> k x = k r) xs = Some r" using same s(1) by metis
qed

lemma set_httpRoutes:
  "set (httpRoutes rs) = new_edge_route ` {r \<in> set rs. r_Mode r = ModeHTTP}"
proof -
  have "set (http_routes_loop rs) = new_edge_route ` {r \<in> set rs. r_Mode r = ModeHTTP}"
    by (induction rs rule: http_routes_loop.induct) auto
  then show ?thesis by (simp add: httpRoutes_def sortRoutes_def)
qed

lemma match_suffix_slash:
  assumes "route_matches req r" "er_prefix r = [] \<or> last (er_prefix r) \<noteq> CHR ''/''"
  shows "\<exists>t. match_suffix req r = CHR ''/'' # t"
  using assms by (auto simp: route_matches_def match_suffix_def under_prefix_def Let_def neq_Nil_conv)

section \<open>Bodies and ids\<close>

lemma hex_digit_subject: "n < 16 \<Longrightarrow> subject_char (hex_digit n)"
proof -
  assume "n < 16"
  then have "n < length ''0123456789abcdef''" by simp
  then have "hex_digit n \<in> set ''0123456789abcdef''" unfolding hex_digit_def by (rule nth_mem)
  then show ?thesis by (auto simp: subject_char_def char_class_defs)
qed

lemma of_char_nibbles: "(of_char c :: nat) div 16 < 16" "(of_char c :: nat) mod 16 < 16"
  using of_char_lt [of c] by (simp_all add: less_mult_imp_div_less)

lemma hex_encode_subject: "\<forall>c \<in> set (hex_encode b). subject_char c"
  by (auto simp: hex_encode_def hex_digit_subject of_char_nibbles)

lemma length_hex_encode: "length (hex_encode b) = 2 * length b"
  by (induction b) (simp_all add: hex_encode_def)

lemma hex_digit_inj: "i < 16 \<Longrightarrow> j < 16 \<Longrightarrow> hex_digit i = hex_digit j \<Longrightarrow> i = j"
proof -
  have "distinct ''0123456789abcdef''" by simp
  then show "i < 16 \<Longrightarrow> j < 16 \<Longrightarrow> hex_digit i = hex_digit j \<Longrightarrow> i = j"
    unfolding hex_digit_def using nth_eq_iff_index_eq [of "''0123456789abcdef''" i j] by simp
qed

lemma hex_encode_inj: "hex_encode a = hex_encode b \<Longrightarrow> a = b"
proof (induction a arbitrary: b)
  case Nil
  then show ?case using length_hex_encode [of b] by (cases b) (auto simp: hex_encode_def)
next
  case (Cons c a)
  then obtain d b' where b: "b = d # b'" by (cases b) (auto simp: hex_encode_def)
  have eq: "hex_digit (of_char c div 16) = hex_digit (of_char d div 16)"
    "hex_digit (of_char c mod 16) = hex_digit (of_char d mod 16)" "hex_encode a = hex_encode b'"
    using Cons.prems by (simp_all add: b hex_encode_def)
  then have "(of_char c :: nat) div 16 = of_char d div 16" "(of_char c :: nat) mod 16 = of_char d mod 16"
    using hex_digit_inj of_char_nibbles by metis+
  then have "(of_char c :: nat) = of_char d" by (metis div_mult_mod_eq)
  then show ?case using Cons.IH [OF eq(3)] b char_eqI by blast
qed

lemma read_limited_exact:
  "0 \<le> n \<Longrightarrow> \<not> hb_fails b \<Longrightarrow> int (length (hb_data b)) \<le> n \<Longrightarrow> read_limited b n = Some (hb_data b)"
  by (simp add: read_limited_def)

section \<open>Properties\<close>

text \<open>
  C8. Routing is most-specific-first and complete: a request finds a route exactly if some HTTP
  route matches its host and path, and the route it finds matches, is at least as long
  (prefix plus exact path) as every other match, and among equally long matches is the first
  of the configuration. A prefix matches whole path segments only.
\<close>

theorem matchRoute_most_specific:
  "(matchRoute (httpRoutes rs) req = None \<longleftrightarrow>
      (\<forall>r \<in> set (httpRoutes rs). \<not> route_matches req r)) \<and>
   (\<forall>r s. matchRoute (httpRoutes rs) req = Some (r, s) \<longrightarrow>
      r \<in> set (httpRoutes rs) \<and> route_matches req r \<and> s = withQuery (match_suffix req r) (hq_RawQuery req) \<and>
      (\<forall>r' \<in> set (httpRoutes rs). route_matches req r' \<longrightarrow> route_length r' \<le> route_length r) \<and>
      find (\<lambda>r'. route_matches req r' \<and> route_length r' = route_length r) (http_routes_loop rs) = Some r)"
proof (intro conjI allI impI)
  show "matchRoute (httpRoutes rs) req = None \<longleftrightarrow> (\<forall>r \<in> set (httpRoutes rs). \<not> route_matches req r)"
    by (auto simp: matchRoute_find find_None_iff)
next
  fix r s assume "matchRoute (httpRoutes rs) req = Some (r, s)"
  then have f: "find (route_matches req) (sort_key (\<lambda>r. - int (route_length r)) (http_routes_loop rs)) = Some r"
    and s: "s = withQuery (match_suffix req r) (hq_RawQuery req)"
    by (auto simp: matchRoute_find httpRoutes_def sortRoutes_def)
  note facts = find_sort_key_desc [OF f]
  have set: "set (httpRoutes rs) = set (http_routes_loop rs)" by (simp add: httpRoutes_def sortRoutes_def)
  show "r \<in> set (httpRoutes rs)" "route_matches req r" "s = withQuery (match_suffix req r) (hq_RawQuery req)"
    "\<forall>r' \<in> set (httpRoutes rs). route_matches req r' \<longrightarrow> route_length r' \<le> route_length r"
    "find (\<lambda>r'. route_matches req r' \<and> route_length r' = route_length r) (http_routes_loop rs) = Some r"
    using facts s unfolding set by auto
qed

theorem matchRoute_most_specific_witness:
  "let a = sample_http\<lparr>r_PublicPrefix := ''/api''\<rparr>; b = sample_http\<lparr>r_PublicPrefix := ''/api/admin''\<rparr>;
       req = \<lparr>hq_Method = ''GET'', hq_Host = ''Example.com:8080'', hq_Path = ''/api/admin/x'', hq_RawQuery = [],
              hq_Header = [], hq_TLS = False, hq_Body = \<lparr>hb_data = [], hb_fails = False\<rparr>\<rparr> in
   matchRoute (httpRoutes [a, b]) req = Some (new_edge_route b, ''/x'') \<and> route_matches req (new_edge_route b)"
proof -
  let ?a = "sample_http\<lparr>r_PublicPrefix := ''/api''\<rparr>" and ?b = "sample_http\<lparr>r_PublicPrefix := ''/api/admin''\<rparr>"
  let ?req = "\<lparr>hq_Method = ''GET'', hq_Host = ''Example.com:8080'', hq_Path = ''/api/admin/x'', hq_RawQuery = [],
      hq_Header = [], hq_TLS = False, hq_Body = \<lparr>hb_data = [], hb_fails = False\<rparr>\<rparr>"
  have m: "matchRoute (httpRoutes [?a, ?b]) ?req = Some (new_edge_route ?b, ''/x'')" by code_simp
  moreover have "route_matches ?req (new_edge_route ?b)"
    using matchRoute_most_specific [of "[?a, ?b]" ?req] m by blast
  ultimately show ?thesis unfolding Let_def by blast
qed

text \<open>
  A match of a route whose prefix does not end in a slash yields a path the request
  envelope accepts, whenever the request's path and query have no line break and no "#".
\<close>

theorem match_suffix_valid:
  assumes "matchRoute (httpRoutes rs) req = Some (r, s)"
    and "er_prefix r = [] \<or> last (er_prefix r) \<noteq> CHR ''/''"
    and "\<forall>c \<in> set (hq_Path req) \<union> set (hq_RawQuery req). c \<notin> {CHR 0x0D, CHR 0x0A, CHR ''#''}"
  shows "validatePath_unary s = None"
proof -
  have "route_matches req r" and s: "s = withQuery (match_suffix req r) (hq_RawQuery req)"
    using assms(1) by (auto simp: matchRoute_find find_Some_iff)
  then obtain t where t: "match_suffix req r = CHR ''/'' # t" using match_suffix_slash assms(2) by blast
  have "set (match_suffix req r) \<subseteq> insert (CHR ''/'') (set (hq_Path req))"
    using set_drop_subset [of "length (er_prefix r)" "hq_Path req"] by (auto simp: match_suffix_def Let_def)
  then have "c \<notin> {CHR 0x0D, CHR 0x0A, CHR ''#''}" if "c \<in> set s" for c
    using that assms(3) by (auto simp: s withQuery_def split: if_splits)
  moreover have "\<exists>u. s = CHR ''/'' # u" by (auto simp: s withQuery_def t)
  ultimately show ?thesis
    unfolding validatePath_unary_iff request_path_ok_def no_line_break_def by auto
qed

theorem match_suffix_valid_witness:
  "validatePath_unary ''/items?page=2'' = None"
proof -
  let ?req = "\<lparr>hq_Method = ''GET'', hq_Host = ''example.com'', hq_Path = ''/app/items'', hq_RawQuery = ''page=2'',
      hq_Header = [], hq_TLS = False, hq_Body = \<lparr>hb_data = [], hb_fails = False\<rparr>\<rparr>"
  have m: "matchRoute (httpRoutes [sample_http]) ?req = Some (new_edge_route sample_http, ''/items?page=2'')"
    by code_simp
  have p: "er_prefix (new_edge_route sample_http) = [] \<or> last (er_prefix (new_edge_route sample_http)) \<noteq> CHR ''/''"
    by code_simp
  have c: "\<forall>c \<in> set (hq_Path ?req) \<union> set (hq_RawQuery ?req). c \<notin> {CHR 0x0D, CHR 0x0A, CHR ''#''}"
    by simp
  show ?thesis by (rule match_suffix_valid [OF m p c])
qed

text \<open>
  C39. A prefix that ends in a slash breaks every request below it: the suffix loses the
  slash that belongs to it, and the request envelope refuses a path without a leading slash.
\<close>

theorem trailing_slash_prefix_rejected:
  assumes "er_prefix r = p @ ''/''" "hq_Path req = er_prefix r @ t" "t \<noteq> []" "hd t \<noteq> CHR ''/''"
    and "hostMatches (r_PublicHost (er_cfg r)) (hq_Host req)" "er_exact r \<noteq> hq_Path req"
  shows "\<exists>s. matchRoute [r] req = Some (r, s) \<and> validatePath_unary s = Some UPathSlash"
proof -
  have "route_matches req r" using assms by (auto simp: route_matches_def under_prefix_def)
  then have "matchRoute [r] req = Some (r, withQuery (match_suffix req r) (hq_RawQuery req))"
    by (simp add: matchRoute_Cons)
  moreover have "match_suffix req r = t"
    using assms by (simp add: match_suffix_def)
  ultimately show ?thesis
    using assms(3,4) by (simp add: validatePath_unary_def withQuery_def)
qed

theorem trailing_slash_prefix_rejected_witness:
  "let r = new_edge_route (sample_http\<lparr>r_PublicPrefix := ''/''\<rparr>);
       req = \<lparr>hq_Method = ''GET'', hq_Host = ''example.com'', hq_Path = ''/index.html'', hq_RawQuery = [],
              hq_Header = [], hq_TLS = False, hq_Body = \<lparr>hb_data = [], hb_fails = False\<rparr>\<rparr> in
   \<exists>s. matchRoute [r] req = Some (r, s) \<and> validatePath_unary s = Some UPathSlash"
proof -
  let ?r = "new_edge_route (sample_http\<lparr>r_PublicPrefix := ''/''\<rparr>)"
  let ?req = "\<lparr>hq_Method = ''GET'', hq_Host = ''example.com'', hq_Path = ''/index.html'', hq_RawQuery = [],
      hq_Header = [], hq_TLS = False, hq_Body = \<lparr>hb_data = [], hb_fails = False\<rparr>\<rparr>"
  have "er_prefix ?r = [] @ ''/''" "hq_Path ?req = er_prefix ?r @ ''index.html''" by code_simp+
  moreover have "hostMatches (r_PublicHost (er_cfg ?r)) (hq_Host ?req)" "er_exact ?r \<noteq> hq_Path ?req"
    by code_simp+
  ultimately show ?thesis
    unfolding Let_def using trailing_slash_prefix_rejected [of ?r "[]" ?req "''index.html''"] by simp
qed

text \<open>
  "Longest prefix wins" holds only for routes with one public field: the order adds the
  exact path to the prefix, so a route with both can take a request from a longer prefix.
\<close>

theorem longest_prefix_does_not_win:
  "let a = sample_http\<lparr>r_Name := ''a'', r_PublicPrefix := ''/api'', r_PublicPath := ''/status''\<rparr>;
       b = sample_http\<lparr>r_Name := ''b'', r_PublicPrefix := ''/api/v1''\<rparr>;
       req = \<lparr>hq_Method = ''GET'', hq_Host = ''example.com'', hq_Path = ''/api/v1/x'', hq_RawQuery = [],
              hq_Header = [], hq_TLS = False, hq_Body = \<lparr>hb_data = [], hb_fails = False\<rparr>\<rparr> in
   matchRoute (httpRoutes [a, b]) req = Some (new_edge_route a, ''/v1/x'') \<and>
   length (er_prefix (new_edge_route a)) < length (er_prefix (new_edge_route b)) \<and>
   route_matches req (new_edge_route b)"
proof -
  let ?b = "sample_http\<lparr>r_Name := ''b'', r_PublicPrefix := ''/api/v1''\<rparr>"
  let ?req = "\<lparr>hq_Method = ''GET'', hq_Host = ''example.com'', hq_Path = ''/api/v1/x'', hq_RawQuery = [],
      hq_Header = [], hq_TLS = False, hq_Body = \<lparr>hb_data = [], hb_fails = False\<rparr>\<rparr>"
  have "hostMatches (r_PublicHost (er_cfg (new_edge_route ?b))) (hq_Host ?req)"
    "pathHasPrefix (hq_Path ?req) (er_prefix (new_edge_route ?b))" "er_prefix (new_edge_route ?b) \<noteq> []"
    by code_simp+
  then have "route_matches ?req (new_edge_route ?b)" by (simp add: route_matches_def pathHasPrefix_iff)
  moreover have "matchRoute (httpRoutes [sample_http\<lparr>r_Name := ''a'', r_PublicPrefix := ''/api'', r_PublicPath := ''/status''\<rparr>, ?b])
      ?req = Some (new_edge_route (sample_http\<lparr>r_Name := ''a'', r_PublicPrefix := ''/api'', r_PublicPath := ''/status''\<rparr>), ''/v1/x'')"
    by code_simp
  ultimately show ?thesis unfolding Let_def by (simp add: new_edge_route_def)
qed

text \<open>
  The request body limit is exact below the largest \<^verbatim>\<open>int64\<close>: a body within the limit is
  read whole, a longer one is refused with 413, and one that fails within the limit with 400.
\<close>

theorem readBounded_exact:
  assumes "0 \<le> limit" "limit < max_int64"
  shows "readBounded body limit =
    (if hb_fails body \<and> int (length (hb_data body)) \<le> limit then Inl (http_Error ''failed to read request body'' 400)
     else if int (length (hb_data body)) > limit then Inl (http_Error ''request body too large'' 413)
     else Inr (hb_data body))"
proof -
  have "wrap64 (limit + 1) = limit + 1"
    using assms by (intro wrap64_id) (simp add: is_int64_def min_int64_def)
  then show ?thesis
    using assms by (auto simp: readBounded_def read_limited_def min_def)
qed

theorem readBounded_exact_witness:
  "readBounded \<lparr>hb_data = ''abc'', hb_fails = False\<rparr> 2 = Inl (http_Error ''request body too large'' 413)"
  using readBounded_exact [of 2 "\<lparr>hb_data = ''abc'', hb_fails = False\<rparr>"] by (simp add: max_int64_def)

text \<open>
  At the largest \<^verbatim>\<open>int64\<close> the limit plus one wraps around and every body is read as empty,
  without an error.
\<close>

theorem readBounded_at_max_drops_body: "readBounded body max_int64 = Inr []"
  by (auto simp: readBounded_def read_limited_def wrap64_def max_int64_def)

text \<open>
  Request ids are subject tokens of 32 characters, so that a cancel subject built from one
  is read back as that id; and different random bytes give different ids.
\<close>

theorem requestID_token:
  assumes "length b = 16" "length c = 16"
  shows "\<exists>i. requestID (Some b) = Some i \<and> subject_token i \<and> length i = 32 \<and>
    RequestIDFromCancelSubject (CancelSubject i) = Some i \<and> (requestID (Some c) = Some i \<longrightarrow> c = b)"
proof -
  let ?i = "hex_encode b"
  have i: "subject_token ?i" "length ?i = 32"
    using assms hex_encode_subject [of b] length_hex_encode [of b] by (auto simp: subject_token_def)
  have "CancelSubject ?i \<noteq> ?i" by (simp add: CancelSubject_def cancelSubjectPrefix_def)
  then have "RequestIDFromCancelSubject (CancelSubject ?i) = Some ?i"
    using i by (simp add: RequestIDFromCancelSubject_def Let_def CancelSubject_TrimPrefix ValidateSubjectToken_iff)
  then show ?thesis
    using i hex_encode_inj by (auto simp: requestID_def)
qed

theorem requestID_token_witness:
  "\<exists>i. requestID (Some (replicate 16 CHR 0xFF)) = Some i \<and> length i = 32"
  using requestID_token [of "replicate 16 CHR 0xFF" "replicate 16 CHR 0xFF"] by auto

end
