(* ===== verification/Data_Tunnel.thy ===== *)
theory Data_Tunnel
  imports Tunnel_Envelope "HOL-Library.AList"
begin

text \<open>
  Package \<^verbatim>\<open>internal/datatunnel\<close>, \<^verbatim>\<open>session.go\<close> and \<^verbatim>\<open>link.go\<close>: one \<^verbatim>\<open>Link\<close> multiplexes many
  \<^verbatim>\<open>Session\<close>s over one WebSocket.

  The code passes sessions around as pointers: the link's table, the relay goroutines and the
  timers share them, and a relay keeps its pointer after the session has left the table. So a
  link carries an explicit store: \<open>l_heap\<close> holds every session the link ever made, a pointer
  is an index into it, and \<open>l_sessions\<close> is the table from session id to pointer. \<open>l_out\<close>
  holds the messages written to the WebSocket that its peer has not read yet; \<open>l_broken\<close> says that the connection has
  been closed or has failed, after which every write returns an error.

  A \<^verbatim>\<open>select\<close> with several ready branches takes any of them; the argument \<open>pick\<close> is that
  choice, and the lemmas hold for both values. A call that would block returns \<open>None\<close>.

  The lemmas give the effect of every operation on the session it concerns, that no operation
  touches another session, and the well-formedness invariant \<open>link_wf\<close>.
\<close>

section \<open>Constants and state\<close>

definition sendWindow :: nat where "sendWindow = 32"

definition recvSlack :: nat where "recvSlack = 8"

definition ackThreshold :: nat where "ackThreshold = sendWindow div 2"

record session =
  s_id :: string
  s_recv :: "frame list"
  s_done :: bool
  s_credit :: nat
  s_consumed :: nat
  s_claimed :: bool

record link =
  l_broken :: bool
  l_out :: "bytes list"
  l_heap :: "session list"
  l_sessions :: "(string \<times> nat) list"

datatype link_error =
    LEncode tunnel_error | LWrite | LSessionExists string | LSessionClosed

definition newSession :: "string \<Rightarrow> session" where
  "newSession sid =
     \<lparr>s_id = sid, s_recv = [], s_done = False, s_credit = sendWindow, s_consumed = 0, s_claimed = False\<rparr>"

definition NewLink :: link where
  "NewLink = \<lparr>l_broken = False, l_out = [], l_heap = [], l_sessions = []\<rparr>"

section \<open>Pointers\<close>

definition sess :: "link \<Rightarrow> nat \<Rightarrow> session" where
  "sess l a = l_heap l ! a"

definition upd_sess :: "nat \<Rightarrow> (session \<Rightarrow> session) \<Rightarrow> link \<Rightarrow> link" where
  "upd_sess a g l = l\<lparr>l_heap := (l_heap l)[a := g (sess l a)]\<rparr>"

definition Session :: "link \<Rightarrow> string \<Rightarrow> nat option" where
  "Session l sid = map_of (l_sessions l) sid"

section \<open>Session operations that touch only the session\<close>

text \<open>\<^verbatim>\<open>markDone\<close>: the \<^verbatim>\<open>sync.Once\<close> makes closing idempotent.\<close>

definition markDone :: "nat \<Rightarrow> link \<Rightarrow> link" where
  "markDone a l = upd_sess a (\<lambda>s. s\<lparr>s_done := True\<rparr>) l"

text \<open>\<^verbatim>\<open>TryClaim\<close>: the result and the new state of an atomic swap.\<close>

definition TryClaim :: "link \<Rightarrow> nat \<Rightarrow> bool \<times> link" where
  "TryClaim l a = (\<not> s_claimed (sess l a), upd_sess a (\<lambda>s. s\<lparr>s_claimed := True\<rparr>) l)"

definition Claimed :: "link \<Rightarrow> nat \<Rightarrow> bool" where
  "Claimed l a = s_claimed (sess l a)"

text \<open>The loop of \<^verbatim>\<open>addSendCredit\<close>: one token per turn, stopping at a full channel.\<close>

fun credit_loop :: "nat \<Rightarrow> nat \<Rightarrow> nat" where
  "credit_loop 0 c = c"
| "credit_loop (Suc n) c = (if c < sendWindow then credit_loop n (Suc c) else c)"

definition addSendCredit :: "int \<Rightarrow> nat \<Rightarrow> link \<Rightarrow> link" where
  "addSendCredit n a l = upd_sess a (\<lambda>s. s\<lparr>s_credit := credit_loop (nat n) (s_credit s)\<rparr>) l"

section \<open>Writing\<close>

definition WriteFrame :: "frame marshal \<Rightarrow> link \<Rightarrow> frame \<Rightarrow> link \<times> link_error option" where
  "WriteFrame m l f =
     (case EncodeFrame m f of
        Inl e \<Rightarrow> (l, Some (LEncode e))
      | Inr data \<Rightarrow>
          if l_broken l then (l, Some LWrite) else (l\<lparr>l_out := l_out l @ [data]\<rparr>, None))"

text \<open>Receiving one token from the credit channel, and the frame \<^verbatim>\<open>SendData\<close> builds.\<close>

definition take_credit :: "nat \<Rightarrow> link \<Rightarrow> link" where
  "take_credit a l = upd_sess a (\<lambda>s. s\<lparr>s_credit := s_credit s - 1\<rparr>) l"

definition data_frame :: "string \<Rightarrow> string \<Rightarrow> bytes \<Rightarrow> frame" where
  "data_frame sid dataKind payload =
     (NewFrame FrameData sid)\<lparr>f_DataKind := dataKind, f_Payload := payload\<rparr>"

text \<open>
  \<^verbatim>\<open>SendData\<close>: waits for credit or the end of the session. \<open>None\<close> means that it blocks.
\<close>

definition SendData ::
  "frame marshal \<Rightarrow> bool \<Rightarrow> link \<Rightarrow> nat \<Rightarrow> string \<Rightarrow> bytes \<Rightarrow> (link \<times> link_error option) option" where
  "SendData m pick l a dataKind payload =
     (let s = sess l a in
      if s_credit s > 0 \<and> (\<not> s_done s \<or> pick) then
        Some (WriteFrame m (take_credit a l) (data_frame (s_id s) dataKind payload))
      else if s_done s then Some (l, Some LSessionClosed)
      else None)"

definition SendEOF :: "frame marshal \<Rightarrow> link \<Rightarrow> nat \<Rightarrow> link \<times> link_error option" where
  "SendEOF m l a = WriteFrame m l (NewFrame FrameEOF (s_id (sess l a)))"

definition AckData :: "frame marshal \<Rightarrow> link \<Rightarrow> nat \<Rightarrow> link" where
  "AckData m l a =
     (let n = s_consumed (sess l a) + 1 in
      if n \<ge> ackThreshold then
        upd_sess a (\<lambda>s. s\<lparr>s_consumed := 0\<rparr>)
          (fst (WriteFrame m l ((NewFrame FrameWindow (s_id (sess l a)))\<lparr>f_Window := int n\<rparr>)))
      else upd_sess a (\<lambda>s. s\<lparr>s_consumed := n\<rparr>) l)"

section \<open>The session table\<close>

definition addSession :: "link \<Rightarrow> string \<Rightarrow> link \<times> (link_error, nat) result" where
  "addSession l sid =
     (if Session l sid \<noteq> None then (l, Inl (LSessionExists sid))
      else (l\<lparr>l_heap := l_heap l @ [newSession sid],
              l_sessions := (sid, length (l_heap l)) # l_sessions l\<rparr>, Inr (length (l_heap l))))"

definition removeSession :: "link \<Rightarrow> string \<Rightarrow> link" where
  "removeSession l sid =
     (let l' = l\<lparr>l_sessions := AList.delete sid (l_sessions l)\<rparr> in
      case Session l sid of None \<Rightarrow> l' | Some a \<Rightarrow> markDone a l')"

definition Accept :: "link \<Rightarrow> string \<Rightarrow> link \<times> (link_error, nat) result" where
  "Accept l sid = addSession l sid"

definition Open :: "frame marshal \<Rightarrow> link \<Rightarrow> frame \<Rightarrow> link \<times> (link_error, nat) result" where
  "Open m l f =
     (case addSession l (f_SessionID f) of
        (l1, Inl e) \<Rightarrow> (l1, Inl e)
      | (l1, Inr a) \<Rightarrow>
          (case WriteFrame m l1 f of
             (l2, Some e) \<Rightarrow> (removeSession l2 (f_SessionID f), Inl e)
           | (l2, None) \<Rightarrow> (l2, Inr a)))"

definition CloseSession :: "frame marshal \<Rightarrow> link \<Rightarrow> nat \<Rightarrow> link" where
  "CloseSession m l a =
     (let sid = s_id (sess l a) in
      removeSession (fst (WriteFrame m l (NewFrame FrameClose sid))) sid)"

definition CloseWithError :: "frame marshal \<Rightarrow> link \<Rightarrow> nat \<Rightarrow> string \<Rightarrow> link" where
  "CloseWithError m l a message =
     (let sid = s_id (sess l a) in
      removeSession (fst (WriteFrame m l ((NewFrame FrameError sid)\<lparr>f_Error := message\<rparr>))) sid)"

definition CloseWithCode :: "frame marshal \<Rightarrow> link \<Rightarrow> nat \<Rightarrow> int \<Rightarrow> string \<Rightarrow> link" where
  "CloseWithCode m l a code txt =
     (let sid = s_id (sess l a) in
      removeSession
        (fst (WriteFrame m l ((NewFrame FrameClose sid)\<lparr>f_CloseCode := code, f_Payload := txt\<rparr>))) sid)"

text \<open>\<^verbatim>\<open>Link.Close\<close>: the connection, then every session of the table.\<close>

definition CloseLink :: "link \<Rightarrow> link" where
  "CloseLink l =
     foldl (\<lambda>l' e. markDone (snd e) l') (l\<lparr>l_broken := True, l_sessions := []\<rparr>) (l_sessions l)"

section \<open>Reading\<close>

text \<open>
  \<^verbatim>\<open>dispatch\<close>. The last branch is the \<^verbatim>\<open>default\<close> of the \<^verbatim>\<open>select\<close>: the receive queue is full and
  the session is not done, so the peer has overrun its window.
\<close>

definition flow_violation :: string where
  "flow_violation = ''flow control violation''"

definition dispatch :: "frame marshal \<Rightarrow> bool \<Rightarrow> link \<Rightarrow> frame \<Rightarrow> link" where
  "dispatch m pick l f =
     (case Session l (f_SessionID f) of
        None \<Rightarrow> l
      | Some a \<Rightarrow>
          if f_Type f = FrameWindow then addSendCredit (f_Window f) a l
          else
            (let s = sess l a in
             case chan_try_send (sendWindow + recvSlack) f (s_recv s) of
               Some q \<Rightarrow>
                 if s_done s \<and> \<not> pick then l else upd_sess a (\<lambda>s. s\<lparr>s_recv := q\<rparr>) l
             | None \<Rightarrow>
                 if s_done s then l
                 else removeSession
                   (fst (WriteFrame m l
                      ((NewFrame FrameError (f_SessionID f))\<lparr>f_Error := flow_violation\<rparr>)))
                   (f_SessionID f)))"

text \<open>What \<^verbatim>\<open>conn.ReadMessage\<close> hands to the read loop when it does not fail.\<close>

datatype ws_message = BinaryMessage bytes | OtherMessage bytes

type_synonym open_handler = "link \<Rightarrow> frame \<Rightarrow> link"

text \<open>One turn of the read loop of \<^verbatim>\<open>Run\<close>.\<close>

definition Run_turn ::
  "frame marshal \<Rightarrow> frame unmarshal \<Rightarrow> open_handler option \<Rightarrow> bool \<Rightarrow> link \<Rightarrow> ws_message \<Rightarrow> link" where
  "Run_turn m u onOpen pick l msg =
     (case msg of
        OtherMessage _ \<Rightarrow> l
      | BinaryMessage data \<Rightarrow>
          (case DecodeFrame u data of
             Inl _ \<Rightarrow> l
           | Inr f \<Rightarrow>
               if f_Type f = FrameOpen
               then (case onOpen of None \<Rightarrow> l | Some h \<Rightarrow> h l f)
               else dispatch m pick l f))"

text \<open>\<^verbatim>\<open>Run\<close> on the messages read before the connection fails, then the deferred \<^verbatim>\<open>Close\<close>.\<close>

fun Run ::
  "frame marshal \<Rightarrow> frame unmarshal \<Rightarrow> open_handler option \<Rightarrow> link \<Rightarrow> (ws_message \<times> bool) list \<Rightarrow> link" where
  "Run m u onOpen l [] = CloseLink l"
| "Run m u onOpen l ((msg, pick) # msgs) = Run m u onOpen (Run_turn m u onOpen pick l msg) msgs"

section \<open>Basic effects\<close>

lemmas [wire_defs] =
  upd_sess_def sess_def Session_def markDone_def addSendCredit_def

lemma upd_sess_simps [simp]:
  "l_broken (upd_sess a g l) = l_broken l" "l_out (upd_sess a g l) = l_out l"
  "l_sessions (upd_sess a g l) = l_sessions l" "length (l_heap (upd_sess a g l)) = length (l_heap l)"
  "Session (upd_sess a g l) = Session l"
  by (simp_all add: upd_sess_def Session_def fun_eq_iff)

lemma sess_upd [simp]: "a < length (l_heap l) \<Longrightarrow> sess (upd_sess a g l) a = g (sess l a)"
  by (simp add: upd_sess_def sess_def)

lemma sess_upd_other [simp]: "b \<noteq> a \<Longrightarrow> sess (upd_sess a g l) b = sess l b"
  by (simp add: upd_sess_def sess_def)

lemma markDone_simps [simp]:
  "l_broken (markDone a l) = l_broken l" "l_out (markDone a l) = l_out l"
  "l_sessions (markDone a l) = l_sessions l" "length (l_heap (markDone a l)) = length (l_heap l)"
  "Session (markDone a l) = Session l"
  by (simp_all add: markDone_def)

lemma sess_markDone:
  "sess (markDone a l) b =
     (if b = a \<and> a < length (l_heap l) then (sess l b)\<lparr>s_done := True\<rparr> else sess l b)"
  by (auto simp: markDone_def upd_sess_def sess_def list_update_beyond)

lemma l_update_simps [simp]:
  "sess (l\<lparr>l_out := x\<rparr>) = sess l" "sess (l\<lparr>l_sessions := t\<rparr>) = sess l"
  "sess (l\<lparr>l_broken := b\<rparr>) = sess l" "Session (l\<lparr>l_out := x\<rparr>) = Session l"
  "Session (l\<lparr>l_broken := b\<rparr>) = Session l"
  by (simp_all add: sess_def Session_def fun_eq_iff)

lemma WriteFrame_simps [simp]:
  "l_broken (fst (WriteFrame m l f)) = l_broken l" "l_heap (fst (WriteFrame m l f)) = l_heap l"
  "l_sessions (fst (WriteFrame m l f)) = l_sessions l" "sess (fst (WriteFrame m l f)) = sess l"
  "Session (fst (WriteFrame m l f)) = Session l"
  by (auto simp: WriteFrame_def Session_def sess_def split: sum.splits)

lemma WriteFrame_out:
  "\<exists>ds. l_out (fst (WriteFrame m l f)) = l_out l @ ds \<and>
        (ds = [] \<or> (\<exists>b. ds = [b] \<and> EncodeFrame m f = Inr b \<and> \<not> l_broken l))"
  by (auto simp: WriteFrame_def split: sum.splits)

lemma WriteFrame_ok:
  "EncodeFrame m f = Inr b \<Longrightarrow> \<not> l_broken l \<Longrightarrow> WriteFrame m l f = (l\<lparr>l_out := l_out l @ [b]\<rparr>, None)"
  by (simp add: WriteFrame_def)

lemma WriteFrame_None_iff:
  "snd (WriteFrame m l f) = None \<longleftrightarrow> \<not> l_broken l \<and> (\<exists>b. EncodeFrame m f = Inr b)"
  by (auto simp: WriteFrame_def split: sum.splits)

lemma removeSession_simps [simp]:
  "l_broken (removeSession l sid) = l_broken l" "l_out (removeSession l sid) = l_out l"
  "length (l_heap (removeSession l sid)) = length (l_heap l)"
  "l_sessions (removeSession l sid) = AList.delete sid (l_sessions l)"
  by (simp_all add: removeSession_def Let_def split: option.splits)

lemma Session_remove: "Session (removeSession l sid) k = (if k = sid then None else Session l k)"
  by (simp add: Session_def delete_conv')

lemma sess_remove:
  "sess (removeSession l sid) b =
     (if Session l sid = Some b \<and> b < length (l_heap l) then (sess l b)\<lparr>s_done := True\<rparr> else sess l b)"
  by (auto simp: removeSession_def Let_def sess_markDone split: option.splits)

text \<open>The credit loop adds what fits: excess credit is capped at the window.\<close>

lemma credit_loop_min: "c \<le> sendWindow \<Longrightarrow> credit_loop n c = min sendWindow (c + n)"
  by (induction n c rule: credit_loop.induct) auto

lemma credit_loop_le: "c \<le> sendWindow \<Longrightarrow> credit_loop n c \<le> sendWindow"
  by (simp add: credit_loop_min)

section \<open>Well-formed links\<close>

text \<open>
  The table is a partial injection into the store and lists exactly live sessions under their
  own ids; every session keeps its channels within their capacities and its consumption count
  below the acknowledgement threshold.
\<close>

definition session_ok :: "session \<Rightarrow> bool" where
  "session_ok s \<longleftrightarrow>
     length (s_recv s) \<le> sendWindow + recvSlack \<and> s_credit s \<le> sendWindow \<and> s_consumed s < ackThreshold"

definition link_wf :: "link \<Rightarrow> bool" where
  "link_wf l \<longleftrightarrow>
     distinct (map fst (l_sessions l)) \<and>
     (\<forall>sid a. Session l sid = Some a \<longrightarrow>
        a < length (l_heap l) \<and> s_id (sess l a) = sid \<and> \<not> s_done (sess l a)) \<and>
     (\<forall>a < length (l_heap l). session_ok (sess l a))"

lemma link_wfD:
  assumes "link_wf l" "Session l sid = Some a"
  shows "a < length (l_heap l)" "s_id (sess l a) = sid" "\<not> s_done (sess l a)" "session_ok (sess l a)"
  using assms by (auto simp: link_wf_def)

lemma link_wf_NewLink [simp]: "link_wf NewLink"
  by (simp add: link_wf_def NewLink_def Session_def)

lemma session_ok_new: "session_ok (newSession sid)"
  by (simp add: session_ok_def newSession_def ackThreshold_def sendWindow_def)

text \<open>An update of one session that keeps its id and its liveness keeps the link well formed.\<close>

lemma link_wf_upd:
  assumes "link_wf l"
    and "\<And>s. s = sess l a \<Longrightarrow> session_ok s \<Longrightarrow> session_ok (g s) \<and> s_id (g s) = s_id s \<and> s_done (g s) = s_done s"
  shows "link_wf (upd_sess a g l)"
proof -
  have "s_id (sess (upd_sess a g l) b) = s_id (sess l b) \<and>
        s_done (sess (upd_sess a g l) b) = s_done (sess l b) \<and> session_ok (sess (upd_sess a g l) b)"
    if "b < length (l_heap l)" for b
    using that assms by (cases "b = a") (auto simp: link_wf_def)
  then show ?thesis
    using assms(1) by (auto simp: link_wf_def)
qed

lemma link_wf_out [simp]: "link_wf (l\<lparr>l_out := x\<rparr>) = link_wf l"
  by (simp add: link_wf_def)

lemma link_wf_Write [simp]: "link_wf (fst (WriteFrame m l f)) = link_wf l"
  by (simp add: link_wf_def)

lemma link_wf_remove:
  assumes "link_wf l"
  shows "link_wf (removeSession l sid)"
proof -
  have inj: "k = sid" if "Session l sid = Some a" "Session l k = Some a" for k a
    using that assms link_wfD(2) by metis
  show ?thesis
    using assms
    by (auto simp: link_wf_def Session_remove sess_remove distinct_delete session_ok_def
        split: if_splits dest: inj)
qed

lemma Session_add:
  "Session l sid = None \<Longrightarrow>
   Session (fst (addSession l sid)) k = (if k = sid then Some (length (l_heap l)) else Session l k)"
  by (simp add: addSession_def Session_def)

lemma sess_add:
  "a < length (l_heap l) \<Longrightarrow> sess (fst (addSession l sid)) a = sess l a"
  by (simp add: addSession_def sess_def nth_append)

lemma sess_add_new:
  "Session l sid = None \<Longrightarrow> sess (fst (addSession l sid)) (length (l_heap l)) = newSession sid"
  by (simp add: addSession_def sess_def)

lemma link_wf_add:
  assumes "link_wf l"
  shows "link_wf (fst (addSession l sid))"
proof (cases "Session l sid")
  case (Some a)
  then show ?thesis using assms by (simp add: addSession_def)
next
  case None
  let ?l = "fst (addSession l sid)"
  have len: "length (l_heap ?l) = Suc (length (l_heap l))"
    and keys: "map fst (l_sessions ?l) = sid # map fst (l_sessions l)"
    using None by (simp_all add: addSession_def)
  have fresh: "sid \<notin> set (map fst (l_sessions l))"
    using None by (simp add: Session_def map_of_eq_None_iff)
  have old: "sess ?l b = sess l b" if "b < length (l_heap l)" for b
    by (rule sess_add [OF that])
  have new: "sess ?l (length (l_heap l)) = newSession sid"
    by (rule sess_add_new [OF None])
  show ?thesis
    unfolding link_wf_def
  proof (intro conjI allI impI)
    show "distinct (map fst (l_sessions ?l))"
      using keys fresh assms by (simp add: link_wf_def)
  next
    fix k a assume k: "Session ?l k = Some a"
    show "a < length (l_heap ?l)" "s_id (sess ?l a) = k" "\<not> s_done (sess ?l a)"
      using k new old assms link_wfD(1-3) [OF assms, of k a]
      by (auto simp: Session_add [OF None] len newSession_def split: if_splits)
  next
    fix a assume "a < length (l_heap ?l)"
    then show "session_ok (sess ?l a)"
      using new old assms session_ok_new by (auto simp: len link_wf_def less_Suc_eq)
  qed
qed

lemma SendData_cases:
  assumes "SendData m pick l a k p = Some (l', e)"
  obtains "s_credit (sess l a) > 0"
      "(l', e) = WriteFrame m (take_credit a l) (data_frame (s_id (sess l a)) k p)"
    | "s_done (sess l a)" "l' = l" "e = Some LSessionClosed"
  using assms by (auto simp: SendData_def Let_def split: if_splits)

lemma link_wf_take_credit: "link_wf l \<Longrightarrow> link_wf (take_credit a l)"
  unfolding take_credit_def by (rule link_wf_upd) (auto simp: session_ok_def)

lemma link_wf_SendData:
  assumes "link_wf l" "SendData m pick l a k p = Some (l', e)"
  shows "link_wf l'"
  using assms(2)
proof (cases rule: SendData_cases)
  case 1
  then show ?thesis
    using link_wf_Write [of m "take_credit a l"] link_wf_take_credit [OF assms(1)] by (metis fst_conv)
next
  case 2
  then show ?thesis using assms(1) by simp
qed

lemma link_wf_SendEOF: "link_wf l \<Longrightarrow> link_wf (fst (SendEOF m l a))"
  by (simp add: SendEOF_def)

lemma link_wf_AckData: "link_wf l \<Longrightarrow> link_wf (AckData m l a)"
  unfolding AckData_def Let_def
  by (auto intro!: link_wf_upd simp: session_ok_def ackThreshold_def sendWindow_def)

lemma link_wf_closes:
  assumes "link_wf l"
  shows "link_wf (CloseSession m l a)" "link_wf (CloseWithError m l a msg)"
    "link_wf (CloseWithCode m l a c t)"
  using assms by (simp_all add: CloseSession_def CloseWithError_def CloseWithCode_def Let_def link_wf_remove)

lemma link_wf_Open: "link_wf l \<Longrightarrow> link_wf (fst (Open m l f))"
proof -
  assume wf: "link_wf l"
  obtain l1 r where a: "addSession l (f_SessionID f) = (l1, r)" by fastforce
  then have wf1: "link_wf l1" using link_wf_add [OF wf, of "f_SessionID f"] by simp
  obtain l2 e where w: "WriteFrame m l1 f = (l2, e)" by fastforce
  then have "link_wf l2" using wf1 link_wf_Write [of m l1 f] by simp
  then show ?thesis
    using a w wf1 link_wf_remove by (auto simp: Open_def split: sum.splits option.splits)
qed

lemma link_wf_dispatch: "link_wf l \<Longrightarrow> link_wf (dispatch m pick l f)"
proof (cases "Session l (f_SessionID f)")
  case (Some a)
  assume wf: "link_wf l"
  have credit: "link_wf (addSendCredit (f_Window f) a l)"
    unfolding addSendCredit_def
    by (rule link_wf_upd [OF wf]) (auto simp: session_ok_def credit_loop_le)
  have recv: "link_wf (upd_sess a (\<lambda>s. s\<lparr>s_recv := q\<rparr>) l)"
    if "chan_try_send (sendWindow + recvSlack) f (s_recv (sess l a)) = Some q" for q
    using chan_try_send_bound [OF that] by (intro link_wf_upd [OF wf]) (auto simp: session_ok_def)
  show ?thesis
    by (cases "chan_try_send (sendWindow + recvSlack) f (s_recv (sess l a))")
      (simp_all add: dispatch_def Let_def Some wf credit recv link_wf_remove)
qed (simp add: dispatch_def)

lemma link_wf_Run_turn:
  assumes "link_wf l" and "\<And>h k f. onOpen = Some h \<Longrightarrow> link_wf k \<Longrightarrow> link_wf (h k f)"
  shows "link_wf (Run_turn m u onOpen pick l msg)"
  using assms by (auto simp: Run_turn_def link_wf_dispatch split: ws_message.splits sum.splits option.splits)

section \<open>Closing the link\<close>

lemma foldl_markDone:
  "l_sessions (foldl (\<lambda>l' e. markDone (snd e) l') l es) = l_sessions l"
  "l_broken (foldl (\<lambda>l' e. markDone (snd e) l') l es) = l_broken l"
  "l_out (foldl (\<lambda>l' e. markDone (snd e) l') l es) = l_out l"
  "length (l_heap (foldl (\<lambda>l' e. markDone (snd e) l') l es)) = length (l_heap l)"
  by (induction es arbitrary: l) auto

lemma sess_foldl_markDone:
  "b < length (l_heap l) \<Longrightarrow>
   sess (foldl (\<lambda>l' e. markDone (snd e) l') l es) b =
     (if b \<in> snd ` set es then (sess l b)\<lparr>s_done := True\<rparr> else sess l b)"
proof (induction es arbitrary: l)
  case (Cons e es)
  then show ?case by (auto simp: sess_markDone)
qed simp

lemma CloseLink_facts:
  "l_sessions (CloseLink l) = []" "l_broken (CloseLink l)" "l_out (CloseLink l) = l_out l"
  "length (l_heap (CloseLink l)) = length (l_heap l)"
  by (simp_all add: CloseLink_def foldl_markDone)

lemma sess_CloseLink:
  "a < length (l_heap l) \<Longrightarrow>
   sess (CloseLink l) a =
     (if a \<in> snd ` set (l_sessions l) then (sess l a)\<lparr>s_done := True\<rparr> else sess l a)"
  by (simp add: CloseLink_def sess_foldl_markDone)

lemma link_wf_CloseLink: "link_wf l \<Longrightarrow> link_wf (CloseLink l)"
  by (auto simp: link_wf_def CloseLink_facts sess_CloseLink Session_def session_ok_def)

lemma link_wf_Run:
  assumes "link_wf l" and "\<And>h k f. onOpen = Some h \<Longrightarrow> link_wf k \<Longrightarrow> link_wf (h k f)"
  shows "link_wf (Run m u onOpen l msgs)"
  using assms(1)
proof (induction msgs arbitrary: l)
  case Nil
  then show ?case by (simp add: link_wf_CloseLink)
next
  case (Cons x msgs)
  obtain msg pick where x: "x = (msg, pick)" by (cases x)
  have "link_wf (Run_turn m u onOpen pick l msg)"
    using Cons.prems assms(2) by (rule link_wf_Run_turn)
  then show ?case by (simp add: x Cons.IH)
qed

section \<open>Sessions do not interfere\<close>

text \<open>
  From \<open>l\<close> to \<open>l'\<close> nothing happened to the sessions named \<open>sid\<close>: their states, their
  table entry and the frames written for them are the same.
\<close>

definition untouched :: "frame unmarshal \<Rightarrow> string \<Rightarrow> link \<Rightarrow> link \<Rightarrow> bool" where
  "untouched u sid l l' \<longleftrightarrow>
     l_broken l' = l_broken l \<and> length (l_heap l) \<le> length (l_heap l') \<and>
     (\<forall>a < length (l_heap l). s_id (sess l' a) = s_id (sess l a)) \<and>
     (\<forall>a < length (l_heap l). s_id (sess l a) = sid \<longrightarrow> sess l' a = sess l a) \<and>
     (\<forall>a < length (l_heap l'). length (l_heap l) \<le> a \<longrightarrow> s_id (sess l' a) \<noteq> sid) \<and>
     Session l' sid = Session l sid \<and>
     (\<exists>ds. l_out l' = l_out l @ ds \<and>
           (\<forall>d \<in> set ds. \<forall>f. DecodeFrame u d = Inr f \<longrightarrow> f_SessionID f \<noteq> sid))"

lemma untouched_refl [simp]: "untouched u sid l l"
  by (simp add: untouched_def)

lemma untouched_trans:
  assumes "untouched u sid l1 l2" "untouched u sid l2 l3"
  shows "untouched u sid l1 l3"
proof -
  from assms obtain ds es where
    ds: "l_out l2 = l_out l1 @ ds" "\<forall>d \<in> set ds. \<forall>f. DecodeFrame u d = Inr f \<longrightarrow> f_SessionID f \<noteq> sid"
    and es: "l_out l3 = l_out l2 @ es" "\<forall>d \<in> set es. \<forall>f. DecodeFrame u d = Inr f \<longrightarrow> f_SessionID f \<noteq> sid"
    unfolding untouched_def by blast
  have out: "\<exists>ds. l_out l3 = l_out l1 @ ds \<and>
      (\<forall>d \<in> set ds. \<forall>f. DecodeFrame u d = Inr f \<longrightarrow> f_SessionID f \<noteq> sid)"
    by (rule exI [of _ "ds @ es"]) (use ds es in auto)
  have new: "s_id (sess l3 a) \<noteq> sid" if "a < length (l_heap l3)" "length (l_heap l1) \<le> a" for a
    using that assms by (cases "a < length (l_heap l2)") (auto simp: untouched_def)
  show ?thesis
    using assms out new by (auto simp: untouched_def)
qed

lemma untouched_Write:
  assumes "codec_inverse m u" "f_SessionID f \<noteq> sid"
  shows "untouched u sid l (fst (WriteFrame m l f))"
proof -
  have "DecodeFrame u b = Inr f" if "EncodeFrame m f = Inr b" for b
    using frame_codec.round_trip [OF assms(1) that] .
  then show ?thesis
    using WriteFrame_out [of m l f] assms(2) by (auto simp: untouched_def)
qed

lemma untouched_upd:
  assumes "s_id (sess l a) \<noteq> sid" "\<And>s. s_id (g s) = s_id s"
  shows "untouched u sid l (upd_sess a g l)"
proof -
  have "s_id (sess (upd_sess a g l) b) = s_id (sess l b)" if "b < length (l_heap l)" for b
    using that assms(2) by (cases "b = a") auto
  moreover have "sess (upd_sess a g l) b = sess l b" if "s_id (sess l b) = sid" for b
    using that assms(1) by (cases "b = a") auto
  ultimately show ?thesis by (auto simp: untouched_def)
qed

lemma untouched_remove: "link_wf l \<Longrightarrow> k \<noteq> sid \<Longrightarrow> untouched u sid l (removeSession l k)"
  using link_wfD(2) [of l k] by (auto simp: untouched_def Session_remove sess_remove)

lemma untouched_add:
  assumes "k \<noteq> sid"
  shows "untouched u sid l (fst (addSession l k))"
proof (cases "Session l k")
  case None
  have "length (l_heap (fst (addSession l k))) = Suc (length (l_heap l))"
    "l_broken (fst (addSession l k)) = l_broken l" "l_out (fst (addSession l k)) = l_out l"
    using None by (simp_all add: addSession_def)
  then show ?thesis
    using assms sess_add_new [OF None] None
    by (auto simp: untouched_def Session_add sess_add newSession_def less_Suc_eq)
qed (simp add: addSession_def)

lemma untouched_Write_remove:
  assumes "codec_inverse m u" "link_wf l" "f_SessionID f \<noteq> sid" "k \<noteq> sid"
  shows "untouched u sid l (removeSession (fst (WriteFrame m l f)) k)"
  using untouched_Write [OF assms(1,3)] assms(2,4)
  by (blast intro: untouched_trans untouched_remove link_wf_Write [THEN iffD2])

lemma NewFrame_simps [simp]:
  "f_SessionID (NewFrame t sid) = sid" "f_Type (NewFrame t sid) = t" "f_Version (NewFrame t sid) = Version"
  "f_CloseCode (NewFrame t sid) = 0"
  by (simp_all add: NewFrame_def)

lemma data_frame_simps [simp]:
  "f_SessionID (data_frame sid k p) = sid" "f_Type (data_frame sid k p) = FrameData"
  "f_DataKind (data_frame sid k p) = k" "f_Payload (data_frame sid k p) = p"
  by (simp_all add: data_frame_def)

lemma untouched_SendData:
  assumes "codec_inverse m u" "s_id (sess l a) \<noteq> sid" "SendData m pick l a k p = Some (l', e)"
  shows "untouched u sid l l'"
  using assms(3)
proof (cases rule: SendData_cases)
  case 1
  have "untouched u sid l (take_credit a l)"
    unfolding take_credit_def using assms(2) by (rule untouched_upd) simp
  moreover have "untouched u sid (take_credit a l) l'"
    using untouched_Write [OF assms(1), of "data_frame (s_id (sess l a)) k p" sid "take_credit a l"]
      assms(2) 1(2) by (metis data_frame_simps(1) fst_conv)
  ultimately show ?thesis by (rule untouched_trans)
qed simp

lemma untouched_AckData:
  assumes "codec_inverse m u" "s_id (sess l a) \<noteq> sid"
  shows "untouched u sid l (AckData m l a)"
proof -
  let ?f = "(NewFrame FrameWindow (s_id (sess l a)))\<lparr>f_Window := int (s_consumed (sess l a) + 1)\<rparr>"
  let ?l = "fst (WriteFrame m l ?f)"
  have "untouched u sid l ?l" using assms by (intro untouched_Write) auto
  moreover have "untouched u sid ?l (upd_sess a (\<lambda>s. s\<lparr>s_consumed := 0\<rparr>) ?l)"
    using assms(2) by (intro untouched_upd) auto
  moreover have "untouched u sid l (upd_sess a (\<lambda>s. s\<lparr>s_consumed := s_consumed (sess l a) + 1\<rparr>) l)"
    using assms(2) by (intro untouched_upd) auto
  ultimately show ?thesis
    unfolding AckData_def Let_def using untouched_trans by auto
qed

lemma untouched_closes:
  assumes "codec_inverse m u" "link_wf l" "s_id (sess l a) \<noteq> sid"
  shows "untouched u sid l (CloseSession m l a)" "untouched u sid l (CloseWithError m l a msg)"
    "untouched u sid l (CloseWithCode m l a c t)" "untouched u sid l (fst (SendEOF m l a))"
  unfolding CloseSession_def CloseWithError_def CloseWithCode_def SendEOF_def Let_def
  using assms by (auto intro!: untouched_Write_remove untouched_Write)

lemma untouched_Open:
  assumes "codec_inverse m u" "link_wf l" "f_SessionID f \<noteq> sid"
  shows "untouched u sid l (fst (Open m l f))"
proof -
  obtain l1 r where a: "addSession l (f_SessionID f) = (l1, r)" by fastforce
  then have 1: "untouched u sid l l1" "link_wf l1"
    using untouched_add [OF assms(3), of u l] link_wf_add [OF assms(2), of "f_SessionID f"] by simp_all
  obtain l2 e where w: "WriteFrame m l1 f = (l2, e)" by fastforce
  then have 2: "untouched u sid l1 l2" "link_wf l2"
    using untouched_Write [OF assms(1,3), of l1] link_wf_Write [of m l1 f] 1(2) by simp_all
  have "untouched u sid l2 (removeSession l2 (f_SessionID f))"
    using 2(2) assms(3) by (rule untouched_remove)
  then have "untouched u sid l (removeSession l2 (f_SessionID f))" "untouched u sid l l2"
    using 1(1) 2(1) untouched_trans by blast+
  then show ?thesis
    using a w 1(1) by (auto simp: Open_def split: sum.splits option.splits)
qed

lemma untouched_dispatch:
  assumes "codec_inverse m u" "link_wf l" "f_SessionID f \<noteq> sid"
  shows "untouched u sid l (dispatch m pick l f)"
proof (cases "Session l (f_SessionID f)")
  case (Some a)
  then have a: "s_id (sess l a) \<noteq> sid" using link_wfD(2) [OF assms(2)] assms(3) by metis
  have upd: "untouched u sid l (upd_sess a g l)" if "\<And>s. s_id (g s) = s_id s" for g
    using a that by (rule untouched_upd)
  have rem: "untouched u sid l (removeSession (fst (WriteFrame m l
      ((NewFrame FrameError (f_SessionID f))\<lparr>f_Error := flow_violation\<rparr>))) (f_SessionID f))"
    using assms by (intro untouched_Write_remove) auto
  show ?thesis
    by (cases "chan_try_send (sendWindow + recvSlack) f (s_recv (sess l a))")
      (simp_all add: dispatch_def Let_def Some upd rem addSendCredit_def)
qed (simp add: dispatch_def)

lemma untouched_Run_turn:
  assumes "codec_inverse m u" "link_wf l" "DecodeFrame u d = Inr f" "f_SessionID f \<noteq> sid"
    and "\<And>h. onOpen = Some h \<Longrightarrow> f_Type f = FrameOpen \<Longrightarrow> untouched u sid l (h l f)"
  shows "untouched u sid l (Run_turn m u onOpen pick l (BinaryMessage d))"
  using assms by (auto simp: Run_turn_def untouched_dispatch split: option.splits)

section \<open>Properties\<close>

text \<open>
  C13. Whatever a peer sends, in any order and however often, a link's read loop keeps the
  session table and every session within their bounds: ids unique, the table listing only
  live sessions under their own ids, receive queues within 40 frames, credit within 32,
  unacknowledged consumption below 16. When the connection ends the table is empty, writes
  fail and every session that was in the table is done.
\<close>

theorem Run_keeps_link:
  assumes "link_wf l" "\<And>h k f. onOpen = Some h \<Longrightarrow> link_wf k \<Longrightarrow> link_wf (h k f)"
  shows "link_wf (Run m u onOpen l msgs) \<and> l_sessions (Run m u onOpen l msgs) = [] \<and>
    l_broken (Run m u onOpen l msgs)"
proof -
  have "l_sessions (Run m u onOpen k msgs) = [] \<and> l_broken (Run m u onOpen k msgs)" for k
    by (induction m u onOpen k msgs rule: Run.induct) (simp_all add: CloseLink_facts)
  moreover have "link_wf (Run m u onOpen l msgs)" using assms by (rule link_wf_Run)
  ultimately show ?thesis by simp
qed

theorem Run_keeps_link_witness:
  "link_wf (Run (\<lambda>_. Inr ''x'') (\<lambda>_. Inr ((NewFrame FrameOpen ''a'')\<lparr>f_Route := ''r'', f_Kind := KindTCP\<rparr>))
     (Some (\<lambda>l f. fst (Accept l (f_SessionID f)))) NewLink [(BinaryMessage ''x'', True), (BinaryMessage ''x'', True)])"
proof -
  have "link_wf (fst (Accept k sid))" if "link_wf k" for k sid
    using link_wf_add [OF that] by (simp add: Accept_def)
  then show ?thesis
    using Run_keeps_link [OF link_wf_NewLink, where onOpen = "Some (\<lambda>l f. fst (Accept l (f_SessionID f)))"]
    by blast
qed

text \<open>
  Closing a link wakes every relay that waits on one of its sessions: each session of the
  table becomes done and keeps the frames it has queued, and a sender that was waiting for
  credit returns with "session closed" instead of blocking.
\<close>

theorem CloseLink_wakes_all:
  assumes "link_wf l" "Session l sid = Some a"
  shows "s_done (sess (CloseLink l) a) \<and> s_recv (sess (CloseLink l) a) = s_recv (sess l a) \<and>
    Session (CloseLink l) sid = None \<and>
    SendData m False (CloseLink l) a k p = Some (CloseLink l, Some LSessionClosed)"
proof -
  have a: "a < length (l_heap l)" using link_wfD [OF assms] by simp
  have "a \<in> snd ` set (l_sessions l)"
    using assms(2) map_of_SomeD [of "l_sessions l" sid a] by (force simp: Session_def)
  then show ?thesis
    using sess_CloseLink [OF a] by (simp add: Session_def CloseLink_facts SendData_def Let_def)
qed

theorem CloseLink_wakes_all_witness:
  "Session (CloseLink (fst (Accept NewLink ''a''))) ''a'' = None"
proof -
  have "link_wf (fst (Accept NewLink ''a''))" by (simp add: Accept_def link_wf_add)
  moreover have "Session (fst (Accept NewLink ''a'')) ''a'' = Some 0" by code_simp
  ultimately show ?thesis
    using CloseLink_wakes_all [of "fst (Accept NewLink ''a'')" "''a''" 0] by blast
qed

text \<open>
  Sessions of one link do not interfere. Handling a frame of one session leaves the state,
  the table entry and the outgoing frames of every other session as they were, also when the
  frame overruns its own session's window.
\<close>

theorem dispatch_isolates_sessions:
  assumes "codec_inverse m u" "link_wf l" "f_SessionID f \<noteq> sid"
  shows "untouched u sid l (dispatch m pick l f)"
  by (rule untouched_dispatch [OF assms])

theorem dispatch_isolates_sessions_witness:
  "untouched (\<lambda>b. Inl b) ''b'' NewLink
     (dispatch (\<lambda>_. Inl []) True NewLink (NewFrame FrameEOF ''a''))"
proof -
  have "codec_inverse (\<lambda>_. Inl []) (\<lambda>b. Inl b :: string + frame)" by (simp add: codec_inverse_def)
  then show ?thesis
    using dispatch_isolates_sessions [where f = "NewFrame FrameEOF ''a''" and sid = "''b''", OF _ link_wf_NewLink]
    by simp
qed

text \<open>
  A session is claimed once: of any number of \<^verbatim>\<open>TryClaim\<close> calls on a fresh session, the
  first succeeds and every later one fails, and \<^verbatim>\<open>Claimed\<close> reports it.
\<close>

fun claims :: "nat \<Rightarrow> link \<Rightarrow> nat \<Rightarrow> bool list" where
  "claims 0 l a = []"
| "claims (Suc n) l a = fst (TryClaim l a) # claims n (snd (TryClaim l a)) a"

lemma claims_after:
  "a < length (l_heap l) \<Longrightarrow> s_claimed (sess l a) \<Longrightarrow> claims n l a = replicate n False"
  by (induction n arbitrary: l) (simp_all add: TryClaim_def)

theorem TryClaim_once:
  assumes "a < length (l_heap l)" "\<not> Claimed l a"
  shows "claims (Suc n) l a = True # replicate n False \<and> Claimed (snd (TryClaim l a)) a"
  using assms claims_after [of a "snd (TryClaim l a)" n] by (simp add: TryClaim_def Claimed_def)

theorem TryClaim_once_witness: "claims 3 (fst (Accept NewLink ''a'')) 0 = [True, False, False]"
proof -
  have "0 < length (l_heap (fst (Accept NewLink ''a'')))" "\<not> Claimed (fst (Accept NewLink ''a'')) 0"
    by code_simp+
  from TryClaim_once [OF this, of 2] show ?thesis by (simp add: numeral_eq_Suc)
qed

end
