(* ===== verification/Flow_Control.thy ===== *)
theory Flow_Control
  imports Data_Tunnel
begin

text \<open>
  Credit flow control between the two ends of a session: the contract that
  \<^verbatim>\<open>sendWindow\<close>, \<^verbatim>\<open>recvSlack\<close> and \<^verbatim>\<open>ackThreshold\<close> are chosen for, and the proof that the
  sessions of two links meet it.

  The first part is the abstract protocol: a \<open>port\<close> is what one end of a session amounts to
  (credit, frames and grants on their way, receive queue), and \<open>port_step\<close> is what the two
  ends may do. The locale \<open>credit_flow\<close> proves, for any window, threshold and slack, that
  the receive queue is never overrun, that what the reader takes is a prefix of what the
  sender sent, and that credit is conserved.

  The second part is the code: two links with the sessions of one id, the operations of
  \<^verbatim>\<open>session.go\<close> and \<^verbatim>\<open>link.go\<close>, the WebSocket between them delivering in order, and any
  activity on other sessions. Each step of the code is a step of the protocol.
\<close>

section \<open>The abstract protocol\<close>

text \<open>What a session carries: data, the end of the data, and frames that end the session.\<close>

datatype 'p item = Data 'p | Eof | Fin

fun datas :: "'p item list \<Rightarrow> 'p list" where
  "datas [] = []"
| "datas (Data p # xs) = p # datas xs"
| "datas (Eof # xs) = datas xs"
| "datas (Fin # xs) = datas xs"

definition ctls :: "'p item list \<Rightarrow> nat" where
  "ctls xs = length (filter (\<lambda>x. x = Eof \<or> x = Fin) xs)"

record 'p port =
  p_credit :: nat
  p_out :: "'p item list"
  p_grants :: "nat list"
  p_live :: bool
  p_queue :: "'p item list"
  p_consumed :: nat
  p_sent :: "'p item list"
  p_got :: "'p item list"
  p_ctl :: nat
  p_fail :: bool

text \<open>
  \<open>p_sent\<close>, \<open>p_got\<close>, \<open>p_ctl\<close> and \<open>p_fail\<close> record history: what was sent and taken, the control
  frames attempted, and whether a write failed or a frame was taken without being
  acknowledged.
\<close>

inductive port_step ::
  "nat \<Rightarrow> nat \<Rightarrow> nat \<Rightarrow> 'p port \<times> 'p port \<Rightarrow> 'p port \<times> 'p port \<Rightarrow> bool" for W T S where
  send: "p_credit p > 0 \<Longrightarrow>
    port_step W T S (p, q)
      (p\<lparr>p_credit := p_credit p - 1, p_out := p_out p @ [Data x], p_sent := p_sent p @ [Data x]\<rparr>, q)"
| send_fail: "p_credit p > 0 \<Longrightarrow>
    port_step W T S (p, q) (p\<lparr>p_credit := p_credit p - 1, p_fail := True\<rparr>, q)"
| control: "p_ctl p < S \<Longrightarrow> w \<in> {[], [Eof], [Fin]} \<Longrightarrow> (live \<Longrightarrow> p_live p) \<Longrightarrow>
    port_step W T S (p, q)
      (p\<lparr>p_out := p_out p @ w, p_sent := p_sent p @ w, p_ctl := p_ctl p + 1, p_live := live\<rparr>, q)"
| consume: "p_queue p = Data x # xs \<Longrightarrow> n = p_consumed p + 1 \<Longrightarrow>
    port_step W T S (p, q)
      (p\<lparr>p_queue := xs, p_got := p_got p @ [Data x],
         p_consumed := (if n \<ge> T then 0 else n),
         p_grants := p_grants p @ (if n \<ge> T then [n] else [])\<rparr>, q)"
| consume_fail: "p_queue p = Data x # xs \<Longrightarrow> n < T \<Longrightarrow> n \<le> p_consumed p + 1 \<Longrightarrow>
    port_step W T S (p, q)
      (p\<lparr>p_queue := xs, p_got := p_got p @ [Data x], p_consumed := n, p_fail := True\<rparr>, q)"
| consume_ctl: "p_queue p = x # xs \<Longrightarrow> x \<in> {Eof, Fin} \<Longrightarrow>
    port_step W T S (p, q) (p\<lparr>p_queue := xs, p_got := p_got p @ [x]\<rparr>, q)"
| deliver: "p_out p = x # xs \<Longrightarrow> p_live q \<Longrightarrow> length (p_queue q) < W + S \<Longrightarrow>
    port_step W T S (p, q) (p\<lparr>p_out := xs\<rparr>, q\<lparr>p_queue := p_queue q @ [x]\<rparr>)"
| overrun: "p_out p = x # xs \<Longrightarrow> p_live q \<Longrightarrow> length (p_queue q) \<ge> W + S \<Longrightarrow>
    port_step W T S (p, q)
      (p\<lparr>p_out := xs\<rparr>, q\<lparr>p_live := False, p_out := p_out q @ w\<rparr>)"
| discard: "p_out p = x # xs \<Longrightarrow> \<not> p_live q \<Longrightarrow> port_step W T S (p, q) (p\<lparr>p_out := xs\<rparr>, q)"
| grant: "p_grants p = n # ns \<Longrightarrow> p_live q \<Longrightarrow>
    port_step W T S (p, q)
      (p\<lparr>p_grants := ns\<rparr>, q\<lparr>p_credit := min W (p_credit q + n)\<rparr>)"
| grant_late: "p_grants p = n # ns \<Longrightarrow> \<not> p_live q \<Longrightarrow> port_step W T S (p, q) (p\<lparr>p_grants := ns\<rparr>, q)"
| close: "port_step W T S (p, q) (p\<lparr>p_live := False\<rparr>, q)"

text \<open>Either end may act.\<close>

inductive duplex_step ::
  "nat \<Rightarrow> nat \<Rightarrow> nat \<Rightarrow> 'p port \<times> 'p port \<Rightarrow> 'p port \<times> 'p port \<Rightarrow> bool" for W T S where
  left: "port_step W T S (p, q) (p', q') \<Longrightarrow> duplex_step W T S (p, q) (p', q')"
| right: "port_step W T S (q, p) (q', p') \<Longrightarrow> duplex_step W T S (p, q) (p', q')"

text \<open>
  The invariant of one direction, from \<open>p\<close> to \<open>q\<close>: credit is in one of five places, the
  control frames fit in the slack, and what was sent is what the reader has taken, then its
  queue, then the wire.
\<close>

definition credit_total :: "'p port \<Rightarrow> 'p port \<Rightarrow> nat" where
  "credit_total p q =
     p_credit p + length (datas (p_out p)) + length (datas (p_queue q)) + p_consumed q +
     sum_list (p_grants q)"

definition flow_ok :: "nat \<Rightarrow> nat \<Rightarrow> nat \<Rightarrow> 'p port \<Rightarrow> 'p port \<Rightarrow> bool" where
  "flow_ok W T S p q \<longleftrightarrow>
     credit_total p q \<le> W \<and>
     (p_live p \<and> p_live q \<and> \<not> p_fail p \<and> \<not> p_fail q \<longrightarrow> credit_total p q = W) \<and>
     ctls (p_out p) + ctls (p_queue q) \<le> p_ctl p \<and> p_ctl p \<le> S \<and> p_consumed q < T \<and>
     (\<exists>rest. p_sent p = p_got q @ p_queue q @ rest \<and> (p_live q \<longrightarrow> rest = p_out p))"

lemma datas_append [simp]: "datas (xs @ ys) = datas xs @ datas ys"
  by (induction xs rule: datas.induct) auto

lemma ctls_simps [simp]:
  "ctls [] = 0" "ctls (Data p # xs) = ctls xs" "ctls (Eof # xs) = Suc (ctls xs)"
  "ctls (Fin # xs) = Suc (ctls xs)"
  "ctls (xs @ ys) = ctls xs + ctls ys"
  by (simp_all add: ctls_def)

lemma length_items: "length xs = length (datas xs) + ctls xs"
  by (induction xs rule: datas.induct) auto

locale credit_flow =
  fixes window threshold slack :: nat
  assumes threshold_pos: "0 < threshold" and threshold_window: "threshold \<le> window"
begin

text \<open>A frame on its way always finds room.\<close>

lemma room:
  assumes "flow_ok window threshold slack p q" "p_out p = x # xs"
  shows "length (p_queue q) < window + slack"
proof -
  have "length (p_out p) + length (p_queue q) \<le> window + slack"
    using assms(1) length_items [of "p_out p"] length_items [of "p_queue q"]
    by (auto simp: flow_ok_def credit_total_def)
  then show ?thesis using assms(2) by simp
qed

lemma step_forward:
  assumes "port_step window threshold slack (p, q) (p', q')" "flow_ok window threshold slack p q"
  shows "flow_ok window threshold slack p' q'"
  using assms(1)
proof cases
  case (control live w)
  then show ?thesis using assms(2) by (auto simp: flow_ok_def credit_total_def)
next
  case (deliver x xs)
  then show ?thesis using assms(2) by (cases x) (auto simp: flow_ok_def credit_total_def)
next
  case (overrun x xs w)
  then show ?thesis using room [OF assms(2)] by auto
next
  case (discard x xs)
  then show ?thesis using assms(2) by (cases x) (auto simp: flow_ok_def credit_total_def)
qed (use assms(2) in \<open>auto simp: flow_ok_def credit_total_def\<close>)

lemma step_backward:
  assumes "port_step window threshold slack (p, q) (p', q')"
    "flow_ok window threshold slack q p" "flow_ok window threshold slack p q"
  shows "flow_ok window threshold slack q' p'"
  using assms(1)
proof cases
  case (overrun x xs w)
  then show ?thesis using room [OF assms(3)] by auto
next
  case (grant n ns)
  have "p_credit q + n \<le> window"
    using assms(2) grant(3) by (auto simp: flow_ok_def credit_total_def)
  then have "min window (p_credit q + n) = p_credit q + n" by simp
  then show ?thesis using assms(2) grant by (auto simp: flow_ok_def credit_total_def)
qed (use assms(2) threshold_pos in \<open>auto simp: flow_ok_def credit_total_def\<close>)

lemma duplex_preserves:
  assumes "duplex_step window threshold slack (p, q) (p', q')"
    "flow_ok window threshold slack p q" "flow_ok window threshold slack q p"
  shows "flow_ok window threshold slack p' q' \<and> flow_ok window threshold slack q' p'"
  using assms(1)
  by cases (use assms step_forward step_backward in blast)+

text \<open>When nothing is on its way and nothing waits, the sender has more than the window less the threshold.\<close>

lemma drained_credit:
  assumes "flow_ok window threshold slack p q"
    and "p_live p" "p_live q" "\<not> p_fail p" "\<not> p_fail q"
    and "p_out p = []" "p_queue q = []" "p_grants q = []"
  shows "p_credit p > window - threshold"
  using assms threshold_pos threshold_window by (auto simp: flow_ok_def credit_total_def)

lemma got_prefix:
  "flow_ok window threshold slack p q \<Longrightarrow> \<exists>rest. p_sent p = p_got q @ rest"
  by (auto simp: flow_ok_def)

lemma queue_bound:
  "flow_ok window threshold slack p q \<Longrightarrow>
   length (p_out p) + length (p_queue q) \<le> window + slack"
  using length_items [of "p_out p"] length_items [of "p_queue q"]
  by (auto simp: flow_ok_def credit_total_def)

end

interpretation session_flow: credit_flow sendWindow ackThreshold recvSlack
  by unfold_locales (simp_all add: ackThreshold_def sendWindow_def)

section \<open>Two links and one session\<close>

type_synonym chunk = "string \<times> bytes"

definition frame_item :: "frame \<Rightarrow> chunk item option" where
  "frame_item f =
     (if f_Type f = FrameData then Some (Data (f_DataKind f, f_Payload f))
      else if f_Type f = FrameWindow \<or> f_Type f = FrameOpen then None
      else if f_Type f = FrameEOF then Some Eof
      else Some Fin)"

definition own_frame :: "frame unmarshal \<Rightarrow> string \<Rightarrow> bytes \<Rightarrow> frame option" where
  "own_frame u sid d =
     (case DecodeFrame u d of Inl _ \<Rightarrow> None | Inr f \<Rightarrow> if f_SessionID f = sid then Some f else None)"

definition own_frames :: "frame unmarshal \<Rightarrow> string \<Rightarrow> bytes list \<Rightarrow> frame list" where
  "own_frames u sid ds = List.map_filter (own_frame u sid) ds"

definition frame_items :: "frame list \<Rightarrow> chunk item list" where
  "frame_items fs = List.map_filter frame_item fs"

definition frame_grants :: "frame list \<Rightarrow> nat list" where
  "frame_grants fs = map (nat \<circ> f_Window) (filter (\<lambda>f. f_Type f = FrameWindow) fs)"

text \<open>
  One end: its link, the pointer to its session, and the history of the session at this end.
\<close>

record endpoint =
  ep_link :: link
  ep_addr :: nat
  ep_sent :: "chunk item list"
  ep_got :: "chunk item list"
  ep_ctl :: nat
  ep_fail :: bool

definition ep_sess :: "endpoint \<Rightarrow> session" where
  "ep_sess e = sess (ep_link e) (ep_addr e)"

definition port_of :: "frame unmarshal \<Rightarrow> string \<Rightarrow> endpoint \<Rightarrow> chunk port" where
  "port_of u sid e =
     \<lparr>p_credit = s_credit (ep_sess e),
      p_out = frame_items (own_frames u sid (l_out (ep_link e))),
      p_grants = frame_grants (own_frames u sid (l_out (ep_link e))),
      p_live = (Session (ep_link e) sid = Some (ep_addr e)),
      p_queue = frame_items (s_recv (ep_sess e)),
      p_consumed = s_consumed (ep_sess e),
      p_sent = ep_sent e, p_got = ep_got e, p_ctl = ep_ctl e, p_fail = ep_fail e\<rparr>"

text \<open>The calls of a relay that send a control frame.\<close>

datatype ctl_call = CallEOF | CallClose | CallError string | CallCode int string

fun ctl_apply :: "frame marshal \<Rightarrow> link \<Rightarrow> nat \<Rightarrow> ctl_call \<Rightarrow> link" where
  "ctl_apply m l a CallEOF = fst (SendEOF m l a)"
| "ctl_apply m l a CallClose = CloseSession m l a"
| "ctl_apply m l a (CallError msg) = CloseWithError m l a msg"
| "ctl_apply m l a (CallCode code msg) = CloseWithCode m l a code msg"

text \<open>The frame such a call writes, and what it adds to the history when the write succeeds.\<close>

fun ctl_frame :: "string \<Rightarrow> ctl_call \<Rightarrow> frame" where
  "ctl_frame sid CallEOF = NewFrame FrameEOF sid"
| "ctl_frame sid CallClose = NewFrame FrameClose sid"
| "ctl_frame sid (CallError msg) = (NewFrame FrameError sid)\<lparr>f_Error := msg\<rparr>"
| "ctl_frame sid (CallCode code msg) = (NewFrame FrameClose sid)\<lparr>f_CloseCode := code, f_Payload := msg\<rparr>"

definition ctl_sent :: "frame marshal \<Rightarrow> link \<Rightarrow> nat \<Rightarrow> ctl_call \<Rightarrow> chunk item list" where
  "ctl_sent m l a call =
     (if snd (WriteFrame m l (ctl_frame (s_id (sess l a)) call)) \<noteq> None then []
      else if call = CallEOF then [Eof] else [Fin])"

text \<open>Whether the acknowledgement that is due now is lost: \<^verbatim>\<open>AckData\<close> ignores a failed write.\<close>

definition ack_lost :: "frame marshal \<Rightarrow> link \<Rightarrow> nat \<Rightarrow> bool" where
  "ack_lost m l a \<longleftrightarrow>
     (let n = s_consumed (sess l a) + 1 in
      n \<ge> ackThreshold \<and>
      snd (WriteFrame m l ((NewFrame FrameWindow (s_id (sess l a)))\<lparr>f_Window := int n\<rparr>)) \<noteq> None)"

text \<open>A relay receives the head of the queue.\<close>

definition pop_recv :: "nat \<Rightarrow> link \<Rightarrow> link" where
  "pop_recv a l = upd_sess a (\<lambda>s. s\<lparr>s_recv := tl (s_recv s)\<rparr>) l"

definition got_item :: "frame \<Rightarrow> chunk item list" where
  "got_item f = (case frame_item f of None \<Rightarrow> [] | Some x \<Rightarrow> [x])"

text \<open>An open handler that concerns itself with other sessions only.\<close>

definition handler_ok :: "frame unmarshal \<Rightarrow> string \<Rightarrow> open_handler option \<Rightarrow> bool" where
  "handler_ok u sid onOpen \<longleftrightarrow>
     (\<forall>h l f. onOpen = Some h \<longrightarrow> link_wf l \<longrightarrow> f_SessionID f \<noteq> sid \<longrightarrow>
        link_wf (h l f) \<and> untouched u sid l (h l f))"

text \<open>
  What may happen at the first end, or between the first end and the second. \<open>act_ctl\<close> holds
  the one obligation of the caller: at most \<^verbatim>\<open>recvSlack\<close> control frames per session.
\<close>

inductive act ::
  "frame marshal \<Rightarrow> frame unmarshal \<Rightarrow> string \<Rightarrow> endpoint \<times> endpoint \<Rightarrow> endpoint \<times> endpoint \<Rightarrow> bool"
  for m u sid where
  act_send: "SendData m pick (ep_link e) (ep_addr e) k p = Some (l', r) \<Longrightarrow>
    act m u sid (e, e2)
      (e\<lparr>ep_link := l', ep_sent := ep_sent e @ (if r = None then [Data (k, p)] else []),
         ep_fail := (ep_fail e \<or> r \<noteq> None \<and> r \<noteq> Some LSessionClosed)\<rparr>, e2)"
| act_ctl: "ep_ctl e < recvSlack \<Longrightarrow>
    act m u sid (e, e2)
      (e\<lparr>ep_link := ctl_apply m (ep_link e) (ep_addr e) call,
         ep_sent := ep_sent e @ ctl_sent m (ep_link e) (ep_addr e) call, ep_ctl := ep_ctl e + 1\<rparr>, e2)"
| act_take: "s_recv (ep_sess e) = f # fs \<Longrightarrow> l1 = pop_recv (ep_addr e) (ep_link e) \<Longrightarrow>
    act m u sid (e, e2)
      (e\<lparr>ep_link := (if f_Type f = FrameData then AckData m l1 (ep_addr e) else l1),
         ep_got := ep_got e @ got_item f,
         ep_fail := (ep_fail e \<or> f_Type f = FrameData \<and> ack_lost m l1 (ep_addr e))\<rparr>, e2)"
| act_abandon: "s_recv (ep_sess e) = f # fs \<Longrightarrow> f_Type f = FrameData \<Longrightarrow>
    act m u sid (e, e2)
      (e\<lparr>ep_link := pop_recv (ep_addr e) (ep_link e), ep_got := ep_got e @ got_item f,
         ep_fail := True\<rparr>, e2)"
| act_read: "l_out (ep_link e) = d # ds \<Longrightarrow> handler_ok u sid onOpen \<Longrightarrow>
    act m u sid (e, e2)
      (e\<lparr>ep_link := (ep_link e)\<lparr>l_out := ds\<rparr>\<rparr>,
       e2\<lparr>ep_link := Run_turn m u onOpen pick (ep_link e2) (BinaryMessage d)\<rparr>)"
| act_other: "untouched u sid (ep_link e) l' \<Longrightarrow> link_wf l' \<Longrightarrow>
    act m u sid (e, e2) (e\<lparr>ep_link := l'\<rparr>, e2)"
| act_shut: "act m u sid (e, e2) (e\<lparr>ep_link := CloseLink (ep_link e)\<rparr>, e2)"

inductive system_step ::
  "frame marshal \<Rightarrow> frame unmarshal \<Rightarrow> string \<Rightarrow> endpoint \<times> endpoint \<Rightarrow> endpoint \<times> endpoint \<Rightarrow> bool"
  for m u sid where
  step_left: "act m u sid (e, e2) (e', e2') \<Longrightarrow> system_step m u sid (e, e2) (e', e2')"
| step_right: "act m u sid (e2, e) (e2', e') \<Longrightarrow> system_step m u sid (e, e2) (e', e2')"

text \<open>What the abstraction needs of an end.\<close>

definition end_ok :: "frame unmarshal \<Rightarrow> string \<Rightarrow> endpoint \<Rightarrow> bool" where
  "end_ok u sid e \<longleftrightarrow>
     link_wf (ep_link e) \<and> ep_addr e < length (l_heap (ep_link e)) \<and> s_id (ep_sess e) = sid \<and>
     (\<forall>b < length (l_heap (ep_link e)). s_id (sess (ep_link e) b) = sid \<longrightarrow> b = ep_addr e) \<and>
     (\<forall>f \<in> set (s_recv (ep_sess e)). frame_item f \<noteq> None) \<and>
     (\<forall>f \<in> set (own_frames u sid (l_out (ep_link e))). f_Type f \<noteq> FrameOpen)"

section \<open>Frames of the session on a wire\<close>

lemma map_filter_append: "List.map_filter f (xs @ ys) = List.map_filter f xs @ List.map_filter f ys"
  by (induction xs) (auto simp: List.map_filter_simps split: option.splits)

lemma own_frames_simps [simp]:
  "own_frames u sid [] = []" "own_frames u sid (xs @ ys) = own_frames u sid xs @ own_frames u sid ys"
  by (simp_all add: own_frames_def map_filter_append List.map_filter_simps)

lemma own_frames_Cons:
  "own_frames u sid (d # ds) = (case own_frame u sid d of None \<Rightarrow> [] | Some f \<Rightarrow> [f]) @ own_frames u sid ds"
  by (simp add: own_frames_def List.map_filter_simps split: option.splits)

lemma frame_items_simps [simp]:
  "frame_items [] = []" "frame_items (xs @ ys) = frame_items xs @ frame_items ys"
  "frame_items (f # fs) = (case frame_item f of None \<Rightarrow> [] | Some x \<Rightarrow> [x]) @ frame_items fs"
  by (simp_all add: frame_items_def map_filter_append List.map_filter_simps split: option.splits)

lemma frame_grants_simps [simp]:
  "frame_grants [] = []" "frame_grants (xs @ ys) = frame_grants xs @ frame_grants ys"
  "frame_grants (f # fs) = (if f_Type f = FrameWindow then [nat (f_Window f)] else []) @ frame_grants fs"
  by (simp_all add: frame_grants_def)

lemma own_frames_none:
  "\<forall>d \<in> set ds. \<forall>f. DecodeFrame u d = Inr f \<longrightarrow> f_SessionID f \<noteq> sid \<Longrightarrow> own_frames u sid ds = []"
  by (induction ds) (auto simp: own_frames_Cons own_frame_def split: sum.splits)

lemma own_frames_write:
  assumes "codec_inverse m u" "f_SessionID f = sid"
  shows "own_frames u sid (l_out (fst (WriteFrame m l f))) =
    own_frames u sid (l_out l) @ (if snd (WriteFrame m l f) = None then [f] else [])"
  using frame_codec.round_trip [OF assms(1), of f] assms(2)
  by (auto simp: WriteFrame_def own_frames_Cons own_frame_def split: sum.splits)

lemma types_distinct [simp]:
  "FrameData \<noteq> FrameWindow" "FrameData \<noteq> FrameOpen" "FrameWindow \<noteq> FrameData" "FrameWindow \<noteq> FrameOpen"
  "FrameEOF \<noteq> FrameData" "FrameEOF \<noteq> FrameWindow" "FrameEOF \<noteq> FrameOpen"
  "FrameClose \<noteq> FrameData" "FrameClose \<noteq> FrameWindow" "FrameClose \<noteq> FrameOpen"
  "FrameError \<noteq> FrameData" "FrameError \<noteq> FrameWindow" "FrameError \<noteq> FrameOpen"
  by (simp_all add: frame_type_defs)

lemma frame_items_length:
  "\<forall>f \<in> set fs. frame_item f \<noteq> None \<Longrightarrow> length (frame_items fs) = length fs"
  by (induction fs) auto

section \<open>Each step of the code is a step of the protocol\<close>

text \<open>The protocol with the constants of \<^verbatim>\<open>session.go\<close>, or no visible change.\<close>

definition simulates :: "chunk port \<times> chunk port \<Rightarrow> chunk port \<times> chunk port \<Rightarrow> bool" where
  "simulates P P' \<longleftrightarrow> P' = P \<or> port_step sendWindow ackThreshold recvSlack P P'"

lemma end_okD:
  assumes "end_ok u sid e"
  shows "link_wf (ep_link e)" "ep_addr e < length (l_heap (ep_link e))" "s_id (ep_sess e) = sid"
    "\<And>f. f \<in> set (s_recv (ep_sess e)) \<Longrightarrow> frame_item f \<noteq> None"
    "\<And>f. f \<in> set (own_frames u sid (l_out (ep_link e))) \<Longrightarrow> f_Type f \<noteq> FrameOpen"
    "\<And>b. b < length (l_heap (ep_link e)) \<Longrightarrow> s_id (sess (ep_link e) b) = sid \<Longrightarrow> b = ep_addr e"
  using assms unfolding end_ok_def by simp_all

lemma end_ok_table:
  assumes "end_ok u sid e"
  shows "Session (ep_link e) sid = None \<or> Session (ep_link e) sid = Some (ep_addr e)"
proof (cases "Session (ep_link e) sid")
  case (Some b)
  then show ?thesis
    using link_wfD(1,2) [OF end_okD(1) [OF assms] Some] end_okD(6) [OF assms] by simp
qed simp

text \<open>
  An end after a change of its link that keeps the ids of the store, possibly updates its own
  session and possibly appends frames of the session.
\<close>

lemma end_ok_change:
  assumes "end_ok u sid e" "link_wf l'" "length (l_heap l') = length (l_heap (ep_link e))"
    and "\<And>b. b < length (l_heap (ep_link e)) \<Longrightarrow> s_id (sess l' b) = s_id (sess (ep_link e) b)"
    and "set (s_recv (sess l' (ep_addr e))) \<subseteq> set (s_recv (ep_sess e))"
    and "\<And>f. f \<in> set (own_frames u sid (l_out l')) \<Longrightarrow>
           f \<in> set (own_frames u sid (l_out (ep_link e))) \<or> f_Type f \<noteq> FrameOpen"
    and "ep_link e' = l'" "ep_addr e' = ep_addr e"
  shows "end_ok u sid e'"
proof -
  note e = end_okD [OF assms(1), unfolded ep_sess_def]
  have "s_id (sess l' (ep_addr e)) = sid" using assms(4) [OF e(2)] e(3) by simp
  moreover have "b = ep_addr e" if "b < length (l_heap (ep_link e))" "s_id (sess l' b) = sid" for b
    using assms(4) [OF that(1)] e(6) [OF that(1)] that(2) by simp
  moreover have "frame_item f \<noteq> None" if "f \<in> set (s_recv (sess l' (ep_addr e)))" for f
    using that assms(5) e(4) unfolding ep_sess_def by blast
  moreover have "f_Type f \<noteq> FrameOpen" if "f \<in> set (own_frames u sid (l_out l'))" for f
    using assms(6) [OF that] e(5) by blast
  ultimately show ?thesis
    unfolding end_ok_def ep_sess_def assms(3,7,8) using assms(2) e(2) by blast
qed

lemma s_id_upd:
  assumes "\<And>s. s_id (g s) = s_id s" "b < length (l_heap l)"
  shows "s_id (sess (upd_sess a g l) b) = s_id (sess l b)"
  using assms by (cases "b = a") auto

lemma sim_send:
  assumes m: "codec_inverse m u" and e: "end_ok u sid e"
    and s: "SendData m pick (ep_link e) (ep_addr e) k p = Some (l', r)"
    and e': "e' = e\<lparr>ep_link := l', ep_sent := ep_sent e @ (if r = None then [Data (k, p)] else []),
      ep_fail := (ep_fail e \<or> r \<noteq> None \<and> r \<noteq> Some LSessionClosed)\<rparr>"
  shows "end_ok u sid e' \<and> simulates (port_of u sid e, q) (port_of u sid e', q)"
  using s
proof (cases rule: SendData_cases)
  case 1
  let ?l = "take_credit (ep_addr e) (ep_link e)" and ?f = "data_frame sid k p"
  note a = end_okD(2) [OF e] and sid = end_okD(3) [OF e]
  have w: "l' = fst (WriteFrame m ?l ?f)" "r = snd (WriteFrame m ?l ?f)"
    using 1(2) sid by (metis ep_sess_def fst_conv, metis ep_sess_def snd_conv)
  have out: "own_frames u sid (l_out l') =
      own_frames u sid (l_out (ep_link e)) @ (if r = None then [?f] else [])"
    unfolding w using own_frames_write [OF m, of ?f sid ?l] by (simp add: take_credit_def)
  have ss: "sess l' (ep_addr e) = (ep_sess e)\<lparr>s_credit := s_credit (ep_sess e) - 1\<rparr>"
    using a by (simp add: w take_credit_def ep_sess_def)
  have tab: "Session l' = Session (ep_link e)" by (simp add: w take_credit_def)
  have "end_ok u sid e'"
    using link_wf_SendData [OF end_okD(1) [OF e] s] out ss
    by (intro end_ok_change [OF e, of l']) (auto simp: e' w take_credit_def s_id_upd)
  moreover have "simulates (port_of u sid e, q) (port_of u sid e', q)"
  proof (cases r)
    case None
    then have "port_of u sid e' = (port_of u sid e)\<lparr>p_credit := p_credit (port_of u sid e) - 1,
        p_out := p_out (port_of u sid e) @ [Data (k, p)], p_sent := p_sent (port_of u sid e) @ [Data (k, p)]\<rparr>"
      using out ss tab by (simp add: port_of_def e' ep_sess_def frame_item_def)
    then show ?thesis
      using 1(1) port_step.send [of "port_of u sid e"]
      by (simp add: simulates_def port_of_def ep_sess_def)
  next
    case (Some x)
    moreover from this have "x \<noteq> LSessionClosed"
      using w(2) by (auto simp: WriteFrame_def split: sum.splits if_splits)
    ultimately have "port_of u sid e' = (port_of u sid e)\<lparr>p_credit := p_credit (port_of u sid e) - 1,
        p_fail := True\<rparr>"
      using out ss tab by (simp add: port_of_def e' ep_sess_def)
    then show ?thesis
      using 1(1) port_step.send_fail [of "port_of u sid e"]
      by (simp add: simulates_def port_of_def ep_sess_def)
  qed
  ultimately show ?thesis ..
next
  case 2
  then show ?thesis using e by (simp add: e' simulates_def)
qed

lemma ctl_apply_frame:
  assumes "s_id (sess l a) = sid"
  shows "ctl_apply m l a call =
    (let l' = fst (WriteFrame m l (ctl_frame sid call)) in if call = CallEOF then l' else removeSession l' sid)"
  using assms
  by (cases call)
    (simp_all add: SendEOF_def CloseSession_def CloseWithError_def CloseWithCode_def Let_def)

lemma ctl_frame_facts [simp]:
  "f_SessionID (ctl_frame sid call) = sid"
  "f_Type (ctl_frame sid call) \<notin> {FrameData, FrameWindow, FrameOpen}"
  "frame_item (ctl_frame sid call) = Some (if call = CallEOF then Eof else Fin)"
  by (cases call; simp add: frame_item_def frame_type_defs)+

lemma frame_item_ctl: "frame_item f \<in> {Some Eof, Some Fin} \<longleftrightarrow> f_Type f \<notin> {FrameData, FrameWindow, FrameOpen}"
  by (auto simp: frame_item_def)

lemma ctl_sent_shape: "ctl_sent m l a call \<in> {[], [Eof], [Fin]}"
  by (simp add: ctl_sent_def)

lemma ctl_end:
  assumes m: "codec_inverse m u" and e: "end_ok u sid e"
    and e': "e' = e\<lparr>ep_link := ctl_apply m (ep_link e) (ep_addr e) call\<rparr>"
  obtains live where "end_ok u sid e'" "live \<Longrightarrow> p_live (port_of u sid e)"
    "live \<Longrightarrow> call = CallEOF"
    "port_of u sid e' = (port_of u sid e)\<lparr>
      p_out := p_out (port_of u sid e) @ ctl_sent m (ep_link e) (ep_addr e) call, p_live := live\<rparr>"
proof -
  let ?f = "ctl_frame sid call"
  let ?l = "ctl_apply m (ep_link e) (ep_addr e) call" and ?w = "snd (WriteFrame m (ep_link e) ?f) = None"
  have sid: "s_id (sess (ep_link e) (ep_addr e)) = sid" using end_okD(3) [OF e] by (simp add: ep_sess_def)
  note l = ctl_apply_frame [OF sid, of m call, unfolded Let_def]
  have ty: "f_Type ?f \<noteq> FrameData" "f_Type ?f \<noteq> FrameWindow" "f_Type ?f \<noteq> FrameOpen"
    using ctl_frame_facts(2) [of sid call] by auto
  have out: "own_frames u sid (l_out ?l) = own_frames u sid (l_out (ep_link e)) @ (if ?w then [?f] else [])"
  proof -
    have "l_out ?l = l_out (fst (WriteFrame m (ep_link e) ?f))" unfolding l by (cases "call = CallEOF") simp_all
    then show ?thesis using own_frames_write [OF m ctl_frame_facts(1)] by metis
  qed
  have ss: "sess ?l b = sess (ep_link e) b \<or> sess ?l b = (sess (ep_link e) b)\<lparr>s_done := True\<rparr>" for b
    by (simp add: l sess_remove)
  have d: "s_recv (sess ?l (ep_addr e)) = s_recv (ep_sess e)"
    "s_credit (sess ?l (ep_addr e)) = s_credit (ep_sess e)"
    "s_consumed (sess ?l (ep_addr e)) = s_consumed (ep_sess e)"
    using ss [of "ep_addr e"] by (auto simp: ep_sess_def)
  have "s_id (sess ?l b) = s_id (sess (ep_link e) b)" for b using ss [of b] by auto
  moreover have "link_wf ?l" using end_okD(1) [OF e] by (simp add: l link_wf_remove)
  moreover have "length (l_heap ?l) = length (l_heap (ep_link e))" by (simp add: l)
  ultimately have ok: "end_ok u sid e'"
    using out d ty by (intro end_ok_change [OF e, of ?l]) (auto simp: e' split: if_splits)
  let ?live = "Session ?l sid = Some (ep_addr e)"
  have live: "p_live (port_of u sid e)" "call = CallEOF" if ?live
    using that by (auto simp: l port_of_def Session_remove split: if_splits)
  have "port_of u sid e' = (port_of u sid e)\<lparr>
      p_out := p_out (port_of u sid e) @ ctl_sent m (ep_link e) (ep_addr e) call, p_live := ?live\<rparr>"
    using out d ty by (simp add: port_of_def e' ep_sess_def ctl_sent_def sid)
  then show thesis
    using that [of ?live] ok live by simp
qed

lemma sim_ctl:
  assumes m: "codec_inverse m u" and e: "end_ok u sid e" and c: "ep_ctl e < recvSlack"
    and e': "e' = e\<lparr>ep_link := ctl_apply m (ep_link e) (ep_addr e) call,
      ep_sent := ep_sent e @ ctl_sent m (ep_link e) (ep_addr e) call, ep_ctl := ep_ctl e + 1\<rparr>"
  shows "end_ok u sid e' \<and> simulates (port_of u sid e, q) (port_of u sid e', q)"
proof -
  let ?e = "e\<lparr>ep_link := ctl_apply m (ep_link e) (ep_addr e) call\<rparr>" and ?p = "port_of u sid e"
  let ?w = "ctl_sent m (ep_link e) (ep_addr e) call"
  obtain live where w: "end_ok u sid ?e" "live \<Longrightarrow> p_live ?p"
    "port_of u sid ?e = ?p\<lparr>p_out := p_out ?p @ ?w, p_live := live\<rparr>"
    using ctl_end [OF m e refl] by metis
  have "end_ok u sid e'" using w(1) by (simp add: e' end_ok_def ep_sess_def)
  moreover have "port_of u sid e' =
      ?p\<lparr>p_out := p_out ?p @ ?w, p_sent := p_sent ?p @ ?w, p_ctl := p_ctl ?p + 1, p_live := live\<rparr>"
    using w(3) by (simp add: e' port_of_def ep_sess_def)
  moreover have "p_ctl ?p < recvSlack" using c by (simp add: port_of_def)
  ultimately show ?thesis
    using port_step.control [OF _ ctl_sent_shape w(2), of recvSlack] by (simp add: simulates_def)
qed

lemma pop_recv_facts:
  assumes "end_ok u sid e"
  shows "sess (pop_recv (ep_addr e) (ep_link e)) (ep_addr e) = (ep_sess e)\<lparr>s_recv := tl (s_recv (ep_sess e))\<rparr>"
    "link_wf (pop_recv (ep_addr e) (ep_link e))"
proof -
  show "sess (pop_recv (ep_addr e) (ep_link e)) (ep_addr e) = (ep_sess e)\<lparr>s_recv := tl (s_recv (ep_sess e))\<rparr>"
    using end_okD(2) [OF assms] by (simp add: pop_recv_def ep_sess_def)
  show "link_wf (pop_recv (ep_addr e) (ep_link e))"
    unfolding pop_recv_def by (rule link_wf_upd [OF end_okD(1) [OF assms]]) (auto simp: session_ok_def)
qed

lemma AckData_shape:
  fixes l a
  defines "n \<equiv> s_consumed (sess l a) + 1"
  assumes m: "codec_inverse m u" and a: "a < length (l_heap l)" and sid: "s_id (sess l a) = sid"
  shows "sess (AckData m l a) a =
      (sess l a)\<lparr>s_consumed := if n \<ge> ackThreshold then 0 else n\<rparr>"
    "Session (AckData m l a) = Session l" "length (l_heap (AckData m l a)) = length (l_heap l)"
    "b < length (l_heap l) \<Longrightarrow> s_id (sess (AckData m l a) b) = s_id (sess l b)"
    "own_frames u sid (l_out (AckData m l a)) = own_frames u sid (l_out l) @
      (if n \<ge> ackThreshold \<and> \<not> ack_lost m l a
       then [(NewFrame FrameWindow sid)\<lparr>f_Window := int n\<rparr>] else [])"
proof -
  let ?f = "(NewFrame FrameWindow sid)\<lparr>f_Window := int n\<rparr>"
  have len: "length (l_heap (fst (WriteFrame m l ?f))) = length (l_heap l)" by simp
  show "sess (AckData m l a) a = (sess l a)\<lparr>s_consumed := if n \<ge> ackThreshold then 0 else n\<rparr>"
    using a by (simp add: AckData_def Let_def n_def)
  show "Session (AckData m l a) = Session l" "length (l_heap (AckData m l a)) = length (l_heap l)"
    by (simp_all add: AckData_def Let_def)
  show "b < length (l_heap l) \<Longrightarrow> s_id (sess (AckData m l a) b) = s_id (sess l b)"
    by (simp add: AckData_def Let_def s_id_upd)
  show "own_frames u sid (l_out (AckData m l a)) = own_frames u sid (l_out l) @
      (if n \<ge> ackThreshold \<and> \<not> ack_lost m l a then [?f] else [])"
    using own_frames_write [OF m, of ?f sid l] sid
    by (simp add: AckData_def Let_def ack_lost_def n_def)
qed

lemma frame_item_Data:
  "f_Type f = FrameData \<Longrightarrow> frame_item f = Some (Data (f_DataKind f, f_Payload f))"
  by (simp add: frame_item_def)

lemma ack_end:
  assumes m: "codec_inverse m u" and e: "end_ok u sid e" and q: "s_recv (ep_sess e) = f # fs"
    and l1: "l1 = pop_recv (ep_addr e) (ep_link e)"
    and e': "e' = e\<lparr>ep_link := AckData m l1 (ep_addr e), ep_got := ep_got e @ got_item f,
      ep_fail := (ep_fail e \<or> ack_lost m l1 (ep_addr e))\<rparr>"
  shows "end_ok u sid e'"
proof -
  note pop = pop_recv_facts [OF e, folded l1]
  have a: "ep_addr e < length (l_heap l1)" and len: "length (l_heap l1) = length (l_heap (ep_link e))"
    using end_okD(2) [OF e] by (simp_all add: l1 pop_recv_def)
  have sid: "s_id (sess l1 (ep_addr e)) = sid" using end_okD(3) [OF e] by (simp add: pop)
  note ack = AckData_shape [OF m a sid]
  have out1: "l_out l1 = l_out (ep_link e)" by (simp add: l1 pop_recv_def)
  show ?thesis
  proof (rule end_ok_change [OF e, of "AckData m l1 (ep_addr e)"])
    fix b assume "b < length (l_heap (ep_link e))"
    then show "s_id (sess (AckData m l1 (ep_addr e)) b) = s_id (sess (ep_link e) b)"
      using ack(4) [of b] len by (simp add: l1 pop_recv_def s_id_upd)
  qed (use ack len pop(1) q out1 in \<open>auto simp: e' link_wf_AckData pop(2) split: if_splits\<close>)
qed

lemma sim_take:
  assumes m: "codec_inverse m u" and e: "end_ok u sid e" and q: "s_recv (ep_sess e) = f # fs"
    and data: "f_Type f = FrameData"
    and l1: "l1 = pop_recv (ep_addr e) (ep_link e)"
    and e': "e' = e\<lparr>ep_link := AckData m l1 (ep_addr e), ep_got := ep_got e @ got_item f,
      ep_fail := (ep_fail e \<or> ack_lost m l1 (ep_addr e))\<rparr>"
  shows "end_ok u sid e' \<and> simulates (port_of u sid e, r) (port_of u sid e', r)"
proof -
  note pop = pop_recv_facts [OF e, folded l1]
  have a: "ep_addr e < length (l_heap l1)" using end_okD(2) [OF e] by (simp add: l1 pop_recv_def)
  have sid: "s_id (sess l1 (ep_addr e)) = sid" using end_okD(3) [OF e] by (simp add: pop)
  define n where "n = s_consumed (ep_sess e) + 1"
  have n: "s_consumed (sess l1 (ep_addr e)) + 1 = n" by (simp add: pop n_def)
  note ack = AckData_shape [OF m a sid, unfolded n]
  have out1: "l_out l1 = l_out (ep_link e)" and tab1: "Session l1 = Session (ep_link e)"
    by (simp_all add: l1 pop_recv_def)
  have "end_ok u sid e'" by (rule ack_end [OF m e q l1 e'])
  moreover have "simulates (port_of u sid e, r) (port_of u sid e', r)"
  proof -
    let ?p = "port_of u sid e" and ?x = "(f_DataKind f, f_Payload f)"
    have queue: "p_queue ?p = Data ?x # frame_items fs"
      using q data by (simp add: port_of_def frame_item_Data)
    have common: "port_of u sid e' = ?p\<lparr>p_queue := frame_items fs, p_got := p_got ?p @ [Data ?x],
        p_consumed := (if n \<ge> ackThreshold then 0 else n),
        p_grants := p_grants ?p @ (if n \<ge> ackThreshold \<and> \<not> ack_lost m l1 (ep_addr e) then [n] else []),
        p_fail := (p_fail ?p \<or> ack_lost m l1 (ep_addr e))\<rparr>"
      using ack pop(1) q out1 tab1 data
      by (simp add: port_of_def e' ep_sess_def n got_item_def frame_item_def)
    show ?thesis
    proof (cases "ack_lost m l1 (ep_addr e)")
      case True
      then have "n \<ge> ackThreshold" unfolding ack_lost_def Let_def n by blast
      then have "port_of u sid e' = ?p\<lparr>p_queue := frame_items fs, p_got := p_got ?p @ [Data ?x],
          p_consumed := 0, p_fail := True\<rparr>"
        using common True by simp
      then show ?thesis
        using port_step.consume_fail [OF queue, of 0 ackThreshold sendWindow recvSlack r]
          session_flow.threshold_pos by (simp add: simulates_def)
    next
      case False
      then have "port_of u sid e' = ?p\<lparr>p_queue := frame_items fs, p_got := p_got ?p @ [Data ?x],
        p_consumed := (if n \<ge> ackThreshold then 0 else n),
        p_grants := p_grants ?p @ (if n \<ge> ackThreshold then [n] else [])\<rparr>"
        using common by simp
      moreover have "n = p_consumed ?p + 1" by (simp add: port_of_def n_def)
      ultimately show ?thesis
        unfolding simulates_def using port_step.consume [OF queue] by simp
    qed
  qed
  ultimately show ?thesis ..
qed

lemma sim_pop:
  assumes e: "end_ok u sid e" and q: "s_recv (ep_sess e) = f # fs"
    and e': "e' = e\<lparr>ep_link := pop_recv (ep_addr e) (ep_link e), ep_got := ep_got e @ got_item f,
      ep_fail := (ep_fail e \<or> f_Type f = FrameData)\<rparr>"
  shows "end_ok u sid e' \<and> simulates (port_of u sid e, r) (port_of u sid e', r)"
proof -
  let ?l = "pop_recv (ep_addr e) (ep_link e)" and ?p = "port_of u sid e"
  note pop = pop_recv_facts [OF e]
  have same: "l_out ?l = l_out (ep_link e)" "Session ?l = Session (ep_link e)"
    by (simp_all add: pop_recv_def)
  have "end_ok u sid e'"
    by (rule end_ok_change [OF e, of ?l]) (use pop q same in \<open>auto simp: e' pop_recv_def s_id_upd\<close>)
  moreover have "simulates (?p, r) (port_of u sid e', r)"
  proof (cases "f_Type f = FrameData")
    case True
    let ?x = "(f_DataKind f, f_Payload f)"
    have "p_queue ?p = Data ?x # frame_items fs"
      using q True by (simp add: port_of_def frame_item_Data)
    moreover have "port_of u sid e' = ?p\<lparr>p_queue := frame_items fs, p_got := p_got ?p @ [Data ?x],
        p_consumed := p_consumed ?p, p_fail := True\<rparr>"
      using pop(1) q same True by (simp add: port_of_def e' ep_sess_def got_item_def frame_item_Data)
    moreover have "p_consumed ?p < ackThreshold"
      using end_okD(1,2) [OF e] by (simp add: port_of_def ep_sess_def link_wf_def session_ok_def)
    ultimately show ?thesis
      unfolding simulates_def using port_step.consume_fail [of ?p ?x _ "p_consumed ?p"] by auto
  next
    case False
    obtain x where x: "frame_item f = Some x" "x \<in> {Eof, Fin}"
      using end_okD(4) [OF e, of f] q False by (auto simp: frame_item_def split: if_splits)
    then have "p_queue ?p = x # frame_items fs" using q by (simp add: port_of_def)
    moreover have "port_of u sid e' = ?p\<lparr>p_queue := frame_items fs, p_got := p_got ?p @ [x]\<rparr>"
      using pop(1) q same False x(1) by (simp add: port_of_def e' ep_sess_def got_item_def)
    ultimately show ?thesis
      unfolding simulates_def using port_step.consume_ctl [OF _ x(2)] by metis
  qed
  ultimately show ?thesis ..
qed

lemma untouched_end:
  assumes "end_ok u sid e" "untouched u sid (ep_link e) l'" "link_wf l'"
  shows "end_ok u sid (e\<lparr>ep_link := l'\<rparr>) \<and> port_of u sid (e\<lparr>ep_link := l'\<rparr>) = port_of u sid e"
proof -
  note e = end_okD [OF assms(1)]
  from assms(2) obtain ds where ds: "l_out l' = l_out (ep_link e) @ ds" "own_frames u sid ds = []"
    unfolding untouched_def using own_frames_none by blast
  have ss: "sess l' (ep_addr e) = sess (ep_link e) (ep_addr e)"
    using assms(2) e(2,3) by (simp add: untouched_def ep_sess_def)
  have len: "ep_addr e < length (l_heap l')" using assms(2) e(2) by (simp add: untouched_def)
  have uniq: "b = ep_addr e" if "b < length (l_heap l')" "s_id (sess l' b) = sid" for b
  proof (cases "b < length (l_heap (ep_link e))")
    case True
    then have "s_id (sess (ep_link e) b) = sid" using assms(2) that(2) by (simp add: untouched_def)
    then show ?thesis using e(6) [OF True] by simp
  next
    case False
    then show ?thesis using assms(2) that by (simp add: untouched_def)
  qed
  have upd: "ep_link (e\<lparr>ep_link := l'\<rparr>) = l'" "ep_addr (e\<lparr>ep_link := l'\<rparr>) = ep_addr e" by simp_all
  have "end_ok u sid (e\<lparr>ep_link := l'\<rparr>)"
    unfolding end_ok_def ep_sess_def upd ss ds own_frames_simps append_Nil2
    using e(3-5) len assms(3) uniq unfolding ep_sess_def by blast
  then show ?thesis
    using ss ds assms(2) by (simp add: port_of_def ep_sess_def untouched_def)
qed

lemma sim_shut:
  assumes "end_ok u sid e"
  shows "end_ok u sid (e\<lparr>ep_link := CloseLink (ep_link e)\<rparr>) \<and>
    simulates (port_of u sid e, r) (port_of u sid (e\<lparr>ep_link := CloseLink (ep_link e)\<rparr>), r)"
proof -
  let ?l = "CloseLink (ep_link e)"
  note e = end_okD [OF assms]
  have ss: "s_id (sess ?l b) = s_id (sess (ep_link e) b)" "s_recv (sess ?l b) = s_recv (sess (ep_link e) b)"
    "s_credit (sess ?l b) = s_credit (sess (ep_link e) b)"
    "s_consumed (sess ?l b) = s_consumed (sess (ep_link e) b)" if "b < length (l_heap (ep_link e))" for b
    using that by (simp_all add: sess_CloseLink)
  have "end_ok u sid (e\<lparr>ep_link := ?l\<rparr>)"
    by (rule end_ok_change [OF assms, of ?l])
      (use e(1) ss ss(2) [OF e(2)] in \<open>auto simp: CloseLink_facts link_wf_CloseLink ep_sess_def\<close>)
  moreover have "port_of u sid (e\<lparr>ep_link := ?l\<rparr>) = (port_of u sid e)\<lparr>p_live := False\<rparr>"
    using ss [OF e(2)] by (simp add: port_of_def ep_sess_def CloseLink_facts Session_def)
  ultimately show ?thesis
    unfolding simulates_def using port_step.close by metis
qed

text \<open>Reading one message: first the sending end, whose wire loses its head.\<close>

lemma sent_end:
  assumes e: "end_ok u sid e" and out: "l_out (ep_link e) = d # ds"
    and e': "e' = e\<lparr>ep_link := (ep_link e)\<lparr>l_out := ds\<rparr>\<rparr>"
  shows "end_ok u sid e'"
    "own_frame u sid d = None \<Longrightarrow> port_of u sid e' = port_of u sid e"
    "own_frame u sid d = Some f \<Longrightarrow> frame_item f = Some x \<Longrightarrow>
      p_out (port_of u sid e) = x # p_out (port_of u sid e') \<and>
      port_of u sid e' = (port_of u sid e)\<lparr>p_out := p_out (port_of u sid e')\<rparr>"
    "own_frame u sid d = Some f \<Longrightarrow> f_Type f = FrameWindow \<Longrightarrow>
      p_grants (port_of u sid e) = nat (f_Window f) # p_grants (port_of u sid e') \<and>
      port_of u sid e' = (port_of u sid e)\<lparr>p_grants := p_grants (port_of u sid e')\<rparr>"
proof -
  have ss: "ep_sess e' = ep_sess e" "Session (ep_link e') = Session (ep_link e)"
    by (simp_all add: e' ep_sess_def)
  show "end_ok u sid e'"
    by (rule end_ok_change [OF e, of "(ep_link e)\<lparr>l_out := ds\<rparr>"])
      (use end_okD(1) [OF e] out in \<open>auto simp: e' own_frames_Cons ep_sess_def\<close>)
  show "own_frame u sid d = None \<Longrightarrow> port_of u sid e' = port_of u sid e"
    using out ss by (simp add: port_of_def e' own_frames_Cons)
  show "own_frame u sid d = Some f \<Longrightarrow> frame_item f = Some x \<Longrightarrow>
      p_out (port_of u sid e) = x # p_out (port_of u sid e') \<and>
      port_of u sid e' = (port_of u sid e)\<lparr>p_out := p_out (port_of u sid e')\<rparr>"
    using out ss by (auto simp: port_of_def e' own_frames_Cons frame_item_def split: if_splits)
  show "own_frame u sid d = Some f \<Longrightarrow> f_Type f = FrameWindow \<Longrightarrow>
      p_grants (port_of u sid e) = nat (f_Window f) # p_grants (port_of u sid e') \<and>
      port_of u sid e' = (port_of u sid e)\<lparr>p_grants := p_grants (port_of u sid e')\<rparr>"
    using out ss by (auto simp: port_of_def e' own_frames_Cons frame_item_def)
qed

text \<open>Then the reading end, for a frame of the session.\<close>

lemma dispatch_live:
  assumes e: "end_ok u sid e" and live: "Session (ep_link e) sid = Some (ep_addr e)"
    and f: "f_SessionID f = sid" "f_Type f \<noteq> FrameWindow"
  shows "length (s_recv (ep_sess e)) < sendWindow + recvSlack \<Longrightarrow>
      dispatch m pick (ep_link e) f =
        upd_sess (ep_addr e) (\<lambda>s. s\<lparr>s_recv := s_recv (ep_sess e) @ [f]\<rparr>) (ep_link e)"
    "length (s_recv (ep_sess e)) \<ge> sendWindow + recvSlack \<Longrightarrow>
      dispatch m pick (ep_link e) f =
        ctl_apply m (ep_link e) (ep_addr e) (CallError flow_violation)"
  using f live link_wfD(2,3) [OF end_okD(1) [OF e] live]
  by (simp_all add: dispatch_def Let_def ep_sess_def chan_try_send_def chan_room_def CloseWithError_def)

lemma recv_end:
  assumes e: "end_ok u sid e" and live: "Session (ep_link e) sid = Some (ep_addr e)"
    and f: "f_SessionID f = sid" "frame_item f = Some x"
    and room: "length (s_recv (ep_sess e)) < sendWindow + recvSlack"
    and e': "e' = e\<lparr>ep_link := dispatch m pick (ep_link e) f\<rparr>"
  shows "end_ok u sid e'"
    "port_of u sid e' = (port_of u sid e)\<lparr>p_queue := p_queue (port_of u sid e) @ [x]\<rparr>"
proof -
  have nw: "f_Type f \<noteq> FrameWindow" using f(2) by (auto simp: frame_item_def)
  let ?l = "dispatch m pick (ep_link e) f"
  have l: "?l = upd_sess (ep_addr e) (\<lambda>s. s\<lparr>s_recv := s_recv (ep_sess e) @ [f]\<rparr>) (ep_link e)"
    using dispatch_live(1) [OF e live f(1) nw room] .
  have ss: "sess ?l (ep_addr e) = (ep_sess e)\<lparr>s_recv := s_recv (ep_sess e) @ [f]\<rparr>"
    using end_okD(2) [OF e] by (simp add: l ep_sess_def)
  have upd: "ep_link e' = ?l" "ep_addr e' = ep_addr e" by (simp_all add: e')
  have wf: "link_wf ?l" using link_wf_dispatch [OF end_okD(1) [OF e]] .
  have frames: "frame_item g \<noteq> None" if "g \<in> set (s_recv (sess ?l (ep_addr e)))" for g
    using that ss f(2) end_okD(4) [OF e] by auto
  have ids: "s_id (sess ?l b) = s_id (sess (ep_link e) b)" if "b < length (l_heap (ep_link e))" for b
    unfolding l using that by (intro s_id_upd) simp_all
  have uniq: "b = ep_addr e" if "b < length (l_heap ?l)" "s_id (sess ?l b) = sid" for b
  proof -
    have "b < length (l_heap (ep_link e))" using that(1) by (simp add: l)
    then show ?thesis using ids end_okD(6) [OF e, of b] that(2) by simp
  qed
  have out: "l_out ?l = l_out (ep_link e)" "Session ?l = Session (ep_link e)"
    "ep_addr e < length (l_heap ?l)" using end_okD(2) [OF e] by (simp_all add: l)
  have "s_id (sess ?l (ep_addr e)) = sid" using ss end_okD(3) [OF e] by simp
  then show "end_ok u sid e'"
    unfolding end_ok_def ep_sess_def upd out(1)
    using wf out(3) frames uniq end_okD(5) [OF e] by blast
  show "port_of u sid e' = (port_of u sid e)\<lparr>p_queue := p_queue (port_of u sid e) @ [x]\<rparr>"
    using ss out f(2) by (simp add: port_of_def ep_sess_def upd)
      (simp add: e' ep_sess_def)
qed

lemma credit_end:
  assumes e: "end_ok u sid e" and live: "Session (ep_link e) sid = Some (ep_addr e)"
    and f: "f_SessionID f = sid" "f_Type f = FrameWindow"
    and e': "e' = e\<lparr>ep_link := dispatch m pick (ep_link e) f\<rparr>"
  shows "end_ok u sid e'"
    "port_of u sid e' =
      (port_of u sid e)\<lparr>p_credit := min sendWindow (p_credit (port_of u sid e) + nat (f_Window f))\<rparr>"
proof -
  let ?l = "dispatch m pick (ep_link e) f"
  have l: "?l = addSendCredit (f_Window f) (ep_addr e) (ep_link e)"
    using live f by (simp add: dispatch_def)
  have "s_credit (ep_sess e) \<le> sendWindow"
    using end_okD(1,2) [OF e] by (simp add: link_wf_def session_ok_def ep_sess_def)
  then have ss: "sess ?l (ep_addr e) =
      (ep_sess e)\<lparr>s_credit := min sendWindow (s_credit (ep_sess e) + nat (f_Window f))\<rparr>"
    using end_okD(2) [OF e] by (simp add: l addSendCredit_def ep_sess_def credit_loop_min)
  have wf: "link_wf ?l" using link_wf_dispatch [OF end_okD(1) [OF e]] .
  show "end_ok u sid e'"
    by (rule end_ok_change [OF e wf]) (use ss in \<open>simp_all add: e' l addSendCredit_def s_id_upd ep_sess_def\<close>)
  have "l_out ?l = l_out (ep_link e)" "Session ?l = Session (ep_link e)"
    by (simp_all add: l addSendCredit_def)
  then show "port_of u sid e' =
      (port_of u sid e)\<lparr>p_credit := min sendWindow (p_credit (port_of u sid e) + nat (f_Window f))\<rparr>"
    using ss by (simp add: port_of_def ep_sess_def e')
qed

text \<open>A frame for a session that is no longer in the table is dropped.\<close>

lemma sim_dispatch_late:
  assumes e: "end_ok u sid e" and e2: "end_ok u sid e2" and out: "l_out (ep_link e) = d # ds"
    and f: "own_frame u sid d = Some f" "f_SessionID f = sid" "f_Type f \<noteq> FrameOpen"
    and e': "e' = e\<lparr>ep_link := (ep_link e)\<lparr>l_out := ds\<rparr>\<rparr>"
    and e2': "e2' = e2\<lparr>ep_link := dispatch m pick (ep_link e2) f\<rparr>" and dead: "\<not> p_live (port_of u sid e2)"
  shows "end_ok u sid e2' \<and> simulates (port_of u sid e, port_of u sid e2) (port_of u sid e', port_of u sid e2')"
proof -
  note s = sent_end [OF e out e']
  have "Session (ep_link e2) sid = None" using dead end_ok_table [OF e2] by (auto simp: port_of_def)
  then have same: "e2' = e2" using f(2) by (simp add: e2' dispatch_def)
  show ?thesis
  proof (cases "frame_item f")
    case None
    then have "f_Type f = FrameWindow" using f(3) by (auto simp: frame_item_def split: if_splits)
    then show ?thesis
      using s(4) [OF f(1)] port_step.grant_late [OF _ dead] e2 same unfolding simulates_def by metis
  next
    case (Some x)
    then show ?thesis
      using s(3) [OF f(1)] port_step.discard [OF _ dead] e2 same unfolding simulates_def by metis
  qed
qed

text \<open>A frame that finds the receive queue full ends the session.\<close>

lemma overrun_end:
  assumes m: "codec_inverse m u" and e2: "end_ok u sid e2" and lv: "Session (ep_link e2) sid = Some (ep_addr e2)"
    and f: "f_SessionID f = sid" "f_Type f \<noteq> FrameWindow"
    and full: "\<not> length (s_recv (ep_sess e2)) < sendWindow + recvSlack"
    and e2': "e2' = e2\<lparr>ep_link := dispatch m pick (ep_link e2) f\<rparr>"
  shows "\<exists>v. end_ok u sid e2' \<and>
    port_of u sid e2' = (port_of u sid e2)\<lparr>p_live := False, p_out := p_out (port_of u sid e2) @ v\<rparr>"
proof -
  have "e2' = e2\<lparr>ep_link := ctl_apply m (ep_link e2) (ep_addr e2) (CallError flow_violation)\<rparr>"
    using dispatch_live(2) [OF e2 lv f] full by (simp add: e2')
  then obtain v where v: "end_ok u sid e2'"
    "port_of u sid e2' = (port_of u sid e2)\<lparr>p_out := p_out (port_of u sid e2) @ v, p_live := False\<rparr>"
    using ctl_end [OF m e2] by (metis (full_types) ctl_call.distinct(3))
  then have "port_of u sid e2' = (port_of u sid e2)\<lparr>p_live := False, p_out := p_out (port_of u sid e2) @ v\<rparr>" by simp
  then show ?thesis using v(1) by blast
qed

lemma sim_dispatch:
  assumes m: "codec_inverse m u" and e: "end_ok u sid e" and e2: "end_ok u sid e2"
    and out: "l_out (ep_link e) = d # ds" and f: "own_frame u sid d = Some f"
    and e': "e' = e\<lparr>ep_link := (ep_link e)\<lparr>l_out := ds\<rparr>\<rparr>"
    and e2': "e2' = e2\<lparr>ep_link := dispatch m pick (ep_link e2) f\<rparr>"
  shows "end_ok u sid e2' \<and>
    simulates (port_of u sid e, port_of u sid e2) (port_of u sid e', port_of u sid e2')"
proof -
  note s = sent_end [OF e out e']
  let ?q = "port_of u sid e2"
  have sid: "f_SessionID f = sid" using f by (auto simp: own_frame_def split: sum.splits if_splits)
  have no_open: "f_Type f \<noteq> FrameOpen" using end_okD(5) [OF e, of f] out f by (simp add: own_frames_Cons)
  show ?thesis
  proof (cases "p_live ?q")
    case False
    then show ?thesis by (rule sim_dispatch_late [OF e e2 out f sid no_open e' e2'])
  next
    case True
    then have lv: "Session (ep_link e2) sid = Some (ep_addr e2)" by (simp add: port_of_def)
    show ?thesis
    proof (cases "frame_item f")
      case None
      then have w: "f_Type f = FrameWindow" using no_open by (auto simp: frame_item_def split: if_splits)
      show ?thesis
        using s(4) [OF f w] port_step.grant [OF _ True] credit_end [OF e2 lv sid w e2']
        unfolding simulates_def by metis
    next
      case (Some x)
      then have w: "f_Type f \<noteq> FrameWindow" by (auto simp: frame_item_def)
      have len: "length (p_queue ?q) = length (s_recv (ep_sess e2))"
        using end_okD(4) [OF e2] by (simp add: port_of_def frame_items_length)
      show ?thesis
      proof (cases "length (s_recv (ep_sess e2)) < sendWindow + recvSlack")
        case room: True
        show ?thesis
          using s(3) [OF f Some] port_step.deliver [OF _ True] recv_end [OF e2 lv sid Some room e2'] room len
          unfolding simulates_def by metis
      next
        case full: False
        then show ?thesis
          using overrun_end [OF m e2 lv sid w full e2'] s(3) [OF f Some] port_step.overrun [OF _ True] len
          unfolding simulates_def by (metis not_less)
      qed
    qed
  qed
qed

lemma sim_read:
  assumes m: "codec_inverse m u" and e: "end_ok u sid e" and e2: "end_ok u sid e2"
    and out: "l_out (ep_link e) = d # ds" and h: "handler_ok u sid onOpen"
    and e': "e' = e\<lparr>ep_link := (ep_link e)\<lparr>l_out := ds\<rparr>\<rparr>"
    and e2': "e2' = e2\<lparr>ep_link := Run_turn m u onOpen pick (ep_link e2) (BinaryMessage d)\<rparr>"
  shows "end_ok u sid e' \<and> end_ok u sid e2' \<and>
    simulates (port_of u sid e, port_of u sid e2) (port_of u sid e', port_of u sid e2')"
proof (cases "own_frame u sid d")
  case None
  let ?l = "Run_turn m u onOpen pick (ep_link e2) (BinaryMessage d)"
  have "untouched u sid (ep_link e2) ?l \<and> link_wf ?l"
  proof (cases "DecodeFrame u d")
    case (Inl x)
    then show ?thesis using end_okD(1) [OF e2] by (simp add: Run_turn_def)
  next
    case (Inr f)
    then have ne: "f_SessionID f \<noteq> sid" using None by (auto simp: own_frame_def)
    have wf: "link_wf (ep_link e2)" by (rule end_okD(1) [OF e2])
    have "untouched u sid (ep_link e2) ?l"
      by (rule untouched_Run_turn [OF m wf Inr ne]) (use h wf ne in \<open>simp add: handler_ok_def\<close>)
    moreover have "link_wf ?l"
      using Inr wf ne h link_wf_dispatch [OF wf]
      by (simp add: Run_turn_def handler_ok_def split: option.splits)
    ultimately show ?thesis ..
  qed
  then show ?thesis
    using untouched_end [OF e2] sent_end(1,2) [OF e out e'] None by (simp add: e2' simulates_def)
next
  case (Some f)
  have "f_Type f \<noteq> FrameOpen" using end_okD(5) [OF e, of f] out Some by (simp add: own_frames_Cons)
  moreover have "DecodeFrame u d = Inr f"
    using Some by (auto simp: own_frame_def split: sum.splits if_splits)
  ultimately have "Run_turn m u onOpen pick (ep_link e2) (BinaryMessage d) = dispatch m pick (ep_link e2) f"
    by (simp add: Run_turn_def)
  then show ?thesis
    using sim_dispatch [OF m e e2 out Some e'] sent_end(1) [OF e out e'] by (simp add: e2')
qed

text \<open>The refinement: every step of the code keeps the ends well formed and is a step of the protocol.\<close>

lemma act_simulates:
  assumes "codec_inverse m u" "act m u sid (e, e2) (e', e2')" "end_ok u sid e" "end_ok u sid e2"
  shows "end_ok u sid e' \<and> end_ok u sid e2' \<and>
    simulates (port_of u sid e, port_of u sid e2) (port_of u sid e', port_of u sid e2')"
  using assms(2)
proof cases
  case (act_send pick k p l' r)
  then show ?thesis using sim_send [OF assms(1,3)] assms(4) by metis
next
  case (act_ctl call)
  then show ?thesis using sim_ctl [OF assms(1,3)] assms(4) by metis
next
  case (act_take f fs l1)
  show ?thesis
  proof (cases "f_Type f = FrameData")
    case True
    then show ?thesis using act_take sim_take [OF assms(1,3) act_take(3) True act_take(4)] assms(4) by simp
  next
    case False
    then show ?thesis using act_take sim_pop [OF assms(3) act_take(3)] assms(4) by simp
  qed
next
  case (act_abandon f fs)
  then show ?thesis using sim_pop [OF assms(3) act_abandon(3)] assms(4) by simp
next
  case (act_read d ds onOpen pick)
  then show ?thesis using sim_read [OF assms(1,3,4)] by metis
next
  case (act_other l')
  then show ?thesis using untouched_end [OF assms(3)] assms(4) by (simp add: simulates_def)
next
  case act_shut
  then show ?thesis using sim_shut [OF assms(3)] assms(4) by metis
qed

section \<open>Runs of an established session\<close>

text \<open>
  A session is established when the accepting end has just entered it in its table: the
  opening end may have sent already, and what it sent is still on the wire.
\<close>

definition established :: "frame unmarshal \<Rightarrow> string \<Rightarrow> endpoint \<times> endpoint \<Rightarrow> bool" where
  "established u sid s \<longleftrightarrow>
     (let (e, e2) = s; fs = own_frames u sid (l_out (ep_link e)) in
      end_ok u sid e \<and> end_ok u sid e2 \<and>
      Session (ep_link e) sid = Some (ep_addr e) \<and> Session (ep_link e2) sid = Some (ep_addr e2) \<and>
      ep_sess e2 = newSession sid \<and> own_frames u sid (l_out (ep_link e2)) = [] \<and>
      s_recv (ep_sess e) = [] \<and> s_consumed (ep_sess e) = 0 \<and> frame_grants fs = [] \<and>
      s_credit (ep_sess e) + length (datas (frame_items fs)) = sendWindow \<and>
      ctls (frame_items fs) \<le> ep_ctl e \<and> ep_ctl e \<le> recvSlack \<and>
      ep_sent e = frame_items fs \<and> ep_got e = [] \<and> \<not> ep_fail e \<and>
      ep_sent e2 = [] \<and> ep_got e2 = [] \<and> ep_ctl e2 = 0 \<and> \<not> ep_fail e2)"

definition system_inv :: "frame unmarshal \<Rightarrow> string \<Rightarrow> endpoint \<times> endpoint \<Rightarrow> bool" where
  "system_inv u sid s \<longleftrightarrow>
     (let (e, e2) = s in
      end_ok u sid e \<and> end_ok u sid e2 \<and>
      flow_ok sendWindow ackThreshold recvSlack (port_of u sid e) (port_of u sid e2) \<and>
      flow_ok sendWindow ackThreshold recvSlack (port_of u sid e2) (port_of u sid e))"

lemma system_inv_swap: "system_inv u sid (e, e2) \<longleftrightarrow> system_inv u sid (e2, e)"
  by (auto simp: system_inv_def)

lemma established_inv: "established u sid s \<Longrightarrow> system_inv u sid s"
  unfolding established_def system_inv_def Let_def
  by (auto simp: flow_ok_def credit_total_def port_of_def newSession_def ackThreshold_def sendWindow_def)

lemma act_preserves_inv:
  assumes "codec_inverse m u" "act m u sid (e, e2) (e', e2')" "system_inv u sid (e, e2)"
  shows "system_inv u sid (e', e2')"
proof -
  have s: "end_ok u sid e'" "end_ok u sid e2'"
    "simulates (port_of u sid e, port_of u sid e2) (port_of u sid e', port_of u sid e2')"
    using act_simulates [OF assms(1,2)] assms(3) by (auto simp: system_inv_def)
  then show ?thesis
    using assms(3) session_flow.duplex_preserves [OF duplex_step.left]
    unfolding system_inv_def simulates_def by auto
qed

lemma system_step_inv:
  assumes "codec_inverse m u" "system_step m u sid s s'" "system_inv u sid s"
  shows "system_inv u sid s'"
  using assms(2)
proof cases
  case (step_left e e2 e' e2')
  then show ?thesis using act_preserves_inv [OF assms(1)] assms(3) by blast
next
  case (step_right e2 e e2' e')
  then show ?thesis using act_preserves_inv [OF assms(1)] assms(3) system_inv_swap by metis
qed

lemma run_keeps_inv:
  assumes "codec_inverse m u" "(system_step m u sid)\<^sup>*\<^sup>* s0 s" "system_inv u sid s0"
    "s = (e, e2) \<or> s = (e2, e)"
  shows "system_inv u sid (e, e2)"
proof -
  have "system_inv u sid s"
    using assms(2) by induction (use assms(1,3) system_step_inv in blast)+
  then show ?thesis using assms(4) system_inv_swap by metis
qed

lemmas run_inv = run_keeps_inv [OF _ _ established_inv]

text \<open>A link on which the session id has not been used.\<close>

definition fresh_id :: "frame unmarshal \<Rightarrow> string \<Rightarrow> link \<Rightarrow> bool" where
  "fresh_id u sid l \<longleftrightarrow>
     link_wf l \<and> (\<forall>b < length (l_heap l). s_id (sess l b) \<noteq> sid) \<and> own_frames u sid (l_out l) = []"

definition new_endpoint :: "link \<Rightarrow> nat \<Rightarrow> endpoint" where
  "new_endpoint l a =
     \<lparr>ep_link = l, ep_addr = a, ep_sent = [], ep_got = [], ep_ctl = 0, ep_fail = False\<rparr>"

lemma fresh_add:
  assumes "fresh_id u sid l"
  shows "addSession l sid = (fst (addSession l sid), Inr (length (l_heap l)))"
    "end_ok u sid (new_endpoint (fst (addSession l sid)) (length (l_heap l)))"
    "Session (fst (addSession l sid)) sid = Some (length (l_heap l))"
    "sess (fst (addSession l sid)) (length (l_heap l)) = newSession sid"
    "own_frames u sid (l_out (fst (addSession l sid))) = []"
proof -
  have none: "Session l sid = None"
    using assms link_wfD(1,2) [of l sid] by (cases "Session l sid") (auto simp: fresh_id_def)
  then show new: "addSession l sid = (fst (addSession l sid), Inr (length (l_heap l)))"
    "Session (fst (addSession l sid)) sid = Some (length (l_heap l))"
    "sess (fst (addSession l sid)) (length (l_heap l)) = newSession sid"
    by (simp_all add: addSession_def Session_def sess_def)
  show out: "own_frames u sid (l_out (fst (addSession l sid))) = []"
    using none assms by (simp add: addSession_def fresh_id_def)
  have len: "length (l_heap (fst (addSession l sid))) = Suc (length (l_heap l))"
    using none by (simp add: addSession_def)
  have "b = length (l_heap l)"
    if "b < Suc (length (l_heap l))" "s_id (sess (fst (addSession l sid)) b) = sid" for b
    using that assms sess_add [of b l sid] by (cases "b < length (l_heap l)") (auto simp: fresh_id_def)
  then show "end_ok u sid (new_endpoint (fst (addSession l sid)) (length (l_heap l)))"
    using link_wf_add [of l sid] assms new(3) out
    unfolding end_ok_def new_endpoint_def ep_sess_def endpoint.simps len
    by (simp add: newSession_def fresh_id_def)
qed

lemma end_ok_out:
  "end_ok u sid (new_endpoint l a) \<Longrightarrow> own_frames u sid ds = [] \<Longrightarrow>
   end_ok u sid (new_endpoint (l\<lparr>l_out := ds\<rparr>) a)"
  by (rule end_ok_change [of u sid "new_endpoint l a" "l\<lparr>l_out := ds\<rparr>"])
    (auto simp: new_endpoint_def end_ok_def ep_sess_def)

text \<open>
  Opening at one end, the open frame read and accepted at the other: the session is
  established.
\<close>

lemma Open_ok_iff:
  "Open m l f = (l', Inr a) \<longleftrightarrow>
     (\<exists>l1. addSession l (f_SessionID f) = (l1, Inr a) \<and> WriteFrame m l1 f = (l', None))"
  by (auto simp: Open_def split: prod.splits sum.splits option.splits)

lemma Open_Accept_established:
  assumes "fresh_id u sid l" "f_SessionID f = sid" "Open m l f = (l', Inr a)"
    and "fresh_id u sid k" "Accept k sid = (k', Inr b)"
  shows "established u sid (new_endpoint (l'\<lparr>l_out := []\<rparr>) a, new_endpoint k' b)"
proof -
  note A = fresh_add [OF assms(1)] and B = fresh_add [OF assms(4)]
  have k: "k' = fst (addSession k sid)" "b = length (l_heap k)"
    using assms(5) B(1) by (auto simp: Accept_def)
  let ?l = "fst (addSession l sid)"
  have w: "WriteFrame m ?l f = (l', None)" and a: "a = length (l_heap l)"
    using assms(2,3) A(1) by (auto simp: Open_ok_iff)
  have l: "l'\<lparr>l_out := []\<rparr> = ?l\<lparr>l_out := []\<rparr>"
    using w by (auto simp: WriteFrame_def split: sum.splits if_splits)
  have "end_ok u sid (new_endpoint (?l\<lparr>l_out := []\<rparr>) a)"
    using end_ok_out [OF A(2), of "[]"] a by simp
  then show ?thesis
    using A(3,4) B a
    by (simp add: established_def l k) (simp add: new_endpoint_def ep_sess_def newSession_def)
qed

text \<open>A frame of the session that arrives at an open end finds room.\<close>

lemma arriving_frame_queued:
  assumes inv: "system_inv u sid (e, e2)"
    and "l_out (ep_link e) = d # ds" "DecodeFrame u d = Inr f"
    and "f_SessionID f = sid" "f_Type f \<noteq> FrameWindow"
    and "Session (ep_link e2) sid = Some (ep_addr e2)"
  shows "dispatch m pick (ep_link e2) f =
    upd_sess (ep_addr e2) (\<lambda>x. x\<lparr>s_recv := s_recv (ep_sess e2) @ [f]\<rparr>) (ep_link e2)"
proof -
  from inv have ok: "end_ok u sid e" "end_ok u sid e2" by (simp_all add: system_inv_def)
  have own: "own_frame u sid d = Some f" using assms(3,4) by (simp add: own_frame_def)
  have "f_Type f \<noteq> FrameOpen" using end_okD(5) [OF ok(1), of f] own assms(2) by (simp add: own_frames_Cons)
  then obtain x where "frame_item f = Some x" using assms(5)
    by (cases "frame_item f") (auto simp: frame_item_def split: if_splits)
  then have "p_out (port_of u sid e) = x # frame_items (own_frames u sid ds)"
    using own assms(2) by (simp add: port_of_def own_frames_Cons)
  then have "length (p_queue (port_of u sid e2)) < sendWindow + recvSlack"
    using inv session_flow.room [of "port_of u sid e" "port_of u sid e2"] by (simp add: system_inv_def)
  then have "length (s_recv (ep_sess e2)) < sendWindow + recvSlack"
    using end_okD(4) [OF ok(2)] by (simp add: port_of_def frame_items_length)
  then show ?thesis using dispatch_live(1) [OF ok(2) assms(6,4,5)] by simp
qed

section \<open>A sample session\<close>

text \<open>
  A session opened by an edge and accepted by a connector, and one chunk sent; for the
  witnesses, with a marshaller that knows the three frames that occur.
\<close>

definition sample_open :: frame where
  "sample_open = (NewFrame FrameOpen ''s'')\<lparr>f_Route := ''db'', f_Kind := KindTCP\<rparr>"

definition sample_data :: frame where
  "sample_data = data_frame ''s'' DataBinary ''hi''"

definition sample_eof :: frame where
  "sample_eof = NewFrame FrameEOF ''s''"

definition sample_marshal :: "frame marshal" where
  "sample_marshal f =
     (if f = sample_open then Inr ''o'' else if f = sample_data then Inr ''d''
      else if f = sample_eof then Inr ''e'' else Inl ''unknown'')"

definition sample_unmarshal :: "frame unmarshal" where
  "sample_unmarshal b =
     (if b = ''o'' then Inr sample_open else if b = ''d'' then Inr sample_data
      else if b = ''e'' then Inr sample_eof else Inl ''unknown'')"

definition sample_edge :: endpoint where
  "sample_edge = new_endpoint ((fst (Open sample_marshal NewLink sample_open))\<lparr>l_out := []\<rparr>) 0"

definition sample_connector :: endpoint where
  "sample_connector = new_endpoint (fst (Accept NewLink ''s'')) 0"

definition sample_sent :: endpoint where
  "sample_sent =
     sample_edge\<lparr>ep_link := fst (the (SendData sample_marshal True (ep_link sample_edge) 0 DataBinary ''hi'')),
       ep_sent := [Data (DataBinary, ''hi'')]\<rparr>"

lemma sample_codec: "codec_inverse sample_marshal sample_unmarshal"
  by (simp add: codec_inverse_def sample_marshal_def sample_unmarshal_def)

lemma sample_fresh: "fresh_id u sid NewLink"
  using link_wf_NewLink by (simp add: fresh_id_def NewLink_def)

lemma sample_opened: "Open sample_marshal NewLink sample_open = (fst (Open sample_marshal NewLink sample_open), Inr 0)"
  by code_simp

lemma sample_accepted: "Accept NewLink ''s'' = (fst (Accept NewLink ''s''), Inr 0)"
  by code_simp

lemma sample_established: "established u ''s'' (sample_edge, sample_connector)"
  unfolding sample_edge_def sample_connector_def
  by (rule Open_Accept_established [OF sample_fresh _ sample_opened sample_fresh sample_accepted])
    (simp add: sample_open_def)

lemma sample_send:
  "(system_step sample_marshal sample_unmarshal ''s'')\<^sup>*\<^sup>* (sample_edge, sample_connector) (sample_sent, sample_connector)"
proof (rule r_into_rtranclp, rule step_left)
  let ?l = "fst (the (SendData sample_marshal True (ep_link sample_edge) (ep_addr sample_edge) DataBinary ''hi''))"
  have s: "SendData sample_marshal True (ep_link sample_edge) (ep_addr sample_edge) DataBinary ''hi'' = Some (?l, None)"
    by code_simp
  have "sample_sent = sample_edge\<lparr>ep_link := ?l,
      ep_sent := ep_sent sample_edge @ (if None = (None :: link_error option) then [Data (DataBinary, ''hi'')] else []),
      ep_fail := (ep_fail sample_edge \<or> None \<noteq> (None :: link_error option) \<and> None \<noteq> Some LSessionClosed)\<rparr>"
    by (simp add: sample_sent_def sample_edge_def new_endpoint_def)
  then show "act sample_marshal sample_unmarshal ''s'' (sample_edge, sample_connector) (sample_sent, sample_connector)"
    using act_send [OF s] by metis
qed

text \<open>The same session with the whole window sent before the other end accepted it.\<close>

definition sample_full :: endpoint where
  "sample_full =
     sample_edge\<lparr>ep_link := upd_sess 0 (\<lambda>s. s\<lparr>s_credit := 0\<rparr>)
         ((ep_link sample_edge)\<lparr>l_out := replicate 32 ''d''\<rparr>),
       ep_sent := replicate 32 (Data (DataBinary, ''hi''))\<rparr>"

lemma sample_wire:
  "own_frames sample_unmarshal ''s'' (replicate n ''d'') = replicate n sample_data"
  "frame_items (replicate n sample_data) = replicate n (Data (DataBinary, ''hi''))"
  "frame_grants (replicate n sample_data) = []"
  "datas (replicate n (Data x)) = replicate n x" "ctls (replicate n (Data x)) = 0"
proof -
  have "DecodeFrame sample_unmarshal ''d'' = Inr sample_data" by code_simp
  then show "own_frames sample_unmarshal ''s'' (replicate n ''d'') = replicate n sample_data"
    by (induction n) (simp_all add: own_frames_Cons own_frame_def sample_data_def)
  show "frame_items (replicate n sample_data) = replicate n (Data (DataBinary, ''hi''))"
    "frame_grants (replicate n sample_data) = []"
    by (induction n) (simp_all add: frame_item_Data sample_data_def)
  show "datas (replicate n (Data x)) = replicate n x" "ctls (replicate n (Data x)) = 0"
    by (induction n) simp_all
qed

lemma sample_full_established: "established sample_unmarshal ''s'' (sample_full, sample_connector)"
proof -
  let ?l = "upd_sess 0 (\<lambda>s. s\<lparr>s_credit := 0\<rparr>) ((ep_link sample_edge)\<lparr>l_out := replicate 32 ''d''\<rparr>)"
  have est: "established sample_unmarshal ''s'' (sample_edge, sample_connector)" by (rule sample_established)
  then have e: "end_ok sample_unmarshal ''s'' sample_edge" by (simp add: established_def Let_def)
  have a: "ep_addr sample_edge = 0" by code_simp
  have wf: "link_wf ?l"
    by (rule link_wf_upd) (use end_okD(1) [OF e] in \<open>auto simp: session_ok_def\<close>)
  have s: "sess ?l 0 = (ep_sess sample_edge)\<lparr>s_credit := 0\<rparr>"
    using end_okD(2) [OF e] a by (simp add: ep_sess_def)
  have "end_ok sample_unmarshal ''s'' sample_full"
    by (rule end_ok_change [OF e wf])
      (use s a in \<open>auto simp: sample_full_def s_id_upd sample_wire sample_data_def\<close>)
  then show ?thesis
    using est s a unfolding established_def
    by (simp add: Let_def sample_full_def ep_sess_def sample_wire sendWindow_def)
qed

section \<open>Properties\<close>

text \<open>
  C2. Flow control never fires against a peer that runs this code. In every run of an
  established session, with any interleaving of sends, reads, acknowledgements, closes and
  traffic of other sessions at either end, a data or control frame that arrives for a session
  still in the table is queued: the branch of \<^verbatim>\<open>dispatch\<close> that ends the session with
  "flow control violation" is not taken. The one obligation of the callers is to send at most
  \<^verbatim>\<open>recvSlack\<close> control frames per session and end.
\<close>

theorem flow_control_never_violated:
  assumes "codec_inverse m u" "established u sid s0" "(system_step m u sid)\<^sup>*\<^sup>* s0 s"
    and "s = (e, e2) \<or> s = (e2, e)"
    and "l_out (ep_link e) = d # ds" "DecodeFrame u d = Inr f"
    and "f_SessionID f = sid" "f_Type f \<noteq> FrameWindow"
    and "Session (ep_link e2) sid = Some (ep_addr e2)"
  shows "dispatch m pick (ep_link e2) f =
    upd_sess (ep_addr e2) (\<lambda>x. x\<lparr>s_recv := s_recv (ep_sess e2) @ [f]\<rparr>) (ep_link e2)"
  by (rule arriving_frame_queued [OF run_inv [OF assms(1,3,2,4)] assms(5-9)])

theorem flow_control_never_violated_witness:
  "dispatch sample_marshal True (ep_link sample_connector) sample_data =
     upd_sess 0 (\<lambda>x. x\<lparr>s_recv := [sample_data]\<rparr>) (ep_link sample_connector)"
proof -
  have "l_out (ep_link sample_sent) = [''d'']" by code_simp
  moreover have "DecodeFrame sample_unmarshal ''d'' = Inr sample_data" by code_simp
  moreover have "f_SessionID sample_data = ''s''" "f_Type sample_data \<noteq> FrameWindow"
    by (simp_all add: sample_data_def)
  moreover have "Session (ep_link sample_connector) ''s'' = Some (ep_addr sample_connector)"
    "s_recv (ep_sess sample_connector) = []" "ep_addr sample_connector = 0" by code_simp+
  ultimately show ?thesis
    using flow_control_never_violated [OF sample_codec sample_established sample_send, of sample_sent sample_connector]
    by simp
qed

text \<open>
  C11. A session is a pair of reliable, ordered streams. In every run of an established
  session, what the reader at one end has taken is a prefix of what the other end has sent;
  while the reading end's session is open, what it has not yet taken is exactly its receive
  queue followed by the frames on the wire: nothing is lost, duplicated, reordered or
  invented.
\<close>

theorem delivery_in_order:
  assumes "codec_inverse m u" "established u sid s0" "(system_step m u sid)\<^sup>*\<^sup>* s0 s"
    and "s = (e, e2) \<or> s = (e2, e)"
  shows "(\<exists>rest. ep_sent e = ep_got e2 @ rest) \<and>
    (Session (ep_link e2) sid = Some (ep_addr e2) \<longrightarrow>
     ep_sent e = ep_got e2 @ frame_items (s_recv (ep_sess e2)) @
       frame_items (own_frames u sid (l_out (ep_link e))))"
  using run_inv [OF assms(1,3,2,4)] by (auto simp: system_inv_def flow_ok_def port_of_def)

theorem delivery_in_order_witness:
  "\<exists>rest. ep_sent sample_sent = ep_got sample_connector @ rest"
  using delivery_in_order [OF sample_codec sample_established sample_send, of sample_sent sample_connector] by blast

text \<open>
  C3. Backpressure cannot deadlock. If a sender blocks for credit while the session is open
  at both ends and no write has failed, then data waits in the reader's queue or on the
  wire, or an acknowledgement is on its way back; acknowledging in batches of 16 never
  strands the credit.
\<close>

theorem blocked_sender_progress:
  assumes "codec_inverse m u" "established u sid s0" "(system_step m u sid)\<^sup>*\<^sup>* s0 s"
    and "s = (e, e2) \<or> s = (e2, e)"
    and "Session (ep_link e) sid = Some (ep_addr e)" "Session (ep_link e2) sid = Some (ep_addr e2)"
    and "\<not> ep_fail e" "\<not> ep_fail e2"
    and "SendData m pick (ep_link e) (ep_addr e) k p = None"
  shows "datas (frame_items (s_recv (ep_sess e2))) \<noteq> [] \<or>
    datas (frame_items (own_frames u sid (l_out (ep_link e)))) \<noteq> [] \<or>
    frame_grants (own_frames u sid (l_out (ep_link e2))) \<noteq> []"
proof -
  have inv: "flow_ok sendWindow ackThreshold recvSlack (port_of u sid e) (port_of u sid e2)"
    using run_inv [OF assms(1,3,2,4)] by (simp add: system_inv_def)
  have "s_credit (ep_sess e) = 0"
    using assms(9) by (auto simp: SendData_def Let_def ep_sess_def split: if_splits)
  then show ?thesis
    using inv assms(5-8)
    by (auto simp: flow_ok_def credit_total_def port_of_def ackThreshold_def sendWindow_def)
qed

theorem blocked_sender_progress_witness:
  "SendData sample_marshal True (ep_link sample_full) (ep_addr sample_full) DataBinary ''hi'' = None \<and>
   datas (frame_items (own_frames sample_unmarshal ''s'' (l_out (ep_link sample_full)))) \<noteq> []"
proof -
  have b: "SendData sample_marshal True (ep_link sample_full) (ep_addr sample_full) DataBinary ''hi'' = None"
    by code_simp
  have "Session (ep_link sample_connector) ''s'' = Some (ep_addr sample_connector)"
    "Session (ep_link sample_full) ''s'' = Some (ep_addr sample_full)"
    "\<not> ep_fail sample_full" "\<not> ep_fail sample_connector" by code_simp+
  moreover have "s_recv (ep_sess sample_connector) = []" "l_out (ep_link sample_connector) = []" by code_simp+
  ultimately show ?thesis
    using blocked_sender_progress [OF sample_codec sample_full_established rtranclp.rtrancl_refl,
        of sample_full sample_connector] b by simp
qed

text \<open>
  Memory is bounded: in every run, the frames of one direction of a session that are on
  the wire or in the receive queue number at most \<^verbatim>\<open>sendWindow + recvSlack\<close>, 40.
\<close>

theorem in_flight_bounded:
  assumes "codec_inverse m u" "established u sid s0" "(system_step m u sid)\<^sup>*\<^sup>* s0 s"
    and "s = (e, e2) \<or> s = (e2, e)"
  shows "length (frame_items (own_frames u sid (l_out (ep_link e)))) + length (s_recv (ep_sess e2)) \<le> 40"
proof -
  have inv: "system_inv u sid (e, e2)" using run_inv [OF assms(1,3,2,4)] .
  then have "length (p_out (port_of u sid e)) + length (p_queue (port_of u sid e2)) \<le> sendWindow + recvSlack"
    using session_flow.queue_bound [of "port_of u sid e" "port_of u sid e2"] by (simp add: system_inv_def)
  moreover have "end_ok u sid e2" using inv by (simp add: system_inv_def)
  ultimately show ?thesis
    using end_okD(4) by (auto simp: port_of_def frame_items_length sendWindow_def recvSlack_def)
qed

theorem in_flight_bounded_witness:
  "length (frame_items (own_frames sample_unmarshal ''s'' (l_out (ep_link sample_sent)))) +
   length (s_recv (ep_sess sample_connector)) \<le> 40"
  using in_flight_bounded [OF sample_codec sample_established sample_send, of sample_sent sample_connector] by blast

text \<open>
  Opening establishes a session: \<^verbatim>\<open>Open\<close> at one end with an id new to both links, and
  \<^verbatim>\<open>Accept\<close> when the other end reads the open frame, give a state from which the properties
  above hold.
\<close>

theorem open_establishes:
  assumes "fresh_id u sid l" "f_SessionID f = sid" "Open m l f = (l', Inr a)"
    and "fresh_id u sid k" "Accept k sid = (k', Inr b)"
  shows "established u sid (new_endpoint (l'\<lparr>l_out := []\<rparr>) a, new_endpoint k' b)"
  by (rule Open_Accept_established [OF assms])

theorem open_establishes_witness:
  "established sample_unmarshal ''s'' (sample_edge, sample_connector)"
  unfolding sample_edge_def sample_connector_def
  using open_establishes [OF sample_fresh _ sample_opened sample_fresh sample_accepted]
  by (simp add: sample_open_def)

end
