(* ===== verification/Session_Pipe.thy ===== *)
theory Session_Pipe
  imports Flow_Control
begin

text \<open>
  The contract between the flow-control protocol and the code that uses a session. A session
  is used by one party at each end: a relay between the session and a TCP connection or a
  WebSocket, the pump that streams a backend's response body, or the handler that writes a
  streamed response to a client.

  The locale \<open>session_client\<close> is that contract: the party's step function, what it takes in
  from outside and what it passes out, and the promise that each of its steps is a sequence
  of protocol actions at its end of the session. The locale \<open>session_pair\<close> puts two parties at
  the two ends of a session and proves once what every such pair guarantees. The parties are
  interpreted in the theories that model them.
\<close>

section \<open>A pair of parties and the tunnel between them\<close>

record ('s, 'd) party =
  pa_link :: link
  pa_state :: 's
  pa_in :: "'d list"

type_synonym ('s, 'ev) party_step = "frame marshal \<Rightarrow> link \<Rightarrow> 's \<Rightarrow> 'ev \<Rightarrow> (link \<times> 's) option"

text \<open>
  What may happen at the first end: a step of its party, the delivery of the oldest message of
  its link to the other end's read loop, activity on other sessions of its link, the end of
  its link.
\<close>

inductive party_act ::
  "('s, 'ev) party_step \<Rightarrow> ('ev \<Rightarrow> 'd list) \<Rightarrow> frame marshal \<Rightarrow> frame unmarshal \<Rightarrow> string \<Rightarrow>
   ('s, 'd) party \<times> ('t, 'd) party \<Rightarrow> ('s, 'd) party \<times> ('t, 'd) party \<Rightarrow> bool"
  for step read_in m u sid where
  party_own: "step m (pa_link x) (pa_state x) ev = Some (l', s') \<Longrightarrow>
    party_act step read_in m u sid (x, y)
      (x\<lparr>pa_link := l', pa_state := s', pa_in := pa_in x @ read_in ev\<rparr>, y)"
| party_read: "l_out (pa_link x) = d # ds \<Longrightarrow> handler_ok u sid onOpen \<Longrightarrow>
    party_act step read_in m u sid (x, y)
      (x\<lparr>pa_link := (pa_link x)\<lparr>l_out := ds\<rparr>\<rparr>,
       y\<lparr>pa_link := Run_turn m u onOpen pick (pa_link y) (BinaryMessage d)\<rparr>)"
| party_other: "untouched u sid (pa_link x) l' \<Longrightarrow> link_wf l' \<Longrightarrow>
    party_act step read_in m u sid (x, y) (x\<lparr>pa_link := l'\<rparr>, y)"
| party_shut: "party_act step read_in m u sid (x, y) (x\<lparr>pa_link := CloseLink (pa_link x)\<rparr>, y)"

inductive pair_step ::
  "('s, 'ev) party_step \<Rightarrow> ('ev \<Rightarrow> 'd list) \<Rightarrow> ('t, 'ew) party_step \<Rightarrow> ('ew \<Rightarrow> 'd list) \<Rightarrow>
   frame marshal \<Rightarrow> frame unmarshal \<Rightarrow> string \<Rightarrow>
   ('s, 'd) party \<times> ('t, 'd) party \<Rightarrow> ('s, 'd) party \<times> ('t, 'd) party \<Rightarrow> bool"
  for step read_in step2 read_in2 m u sid where
  pair_left: "party_act step read_in m u sid (x, y) (x', y') \<Longrightarrow>
    pair_step step read_in step2 read_in2 m u sid (x, y) (x', y')"
| pair_right: "party_act step2 read_in2 m u sid (y, x) (y', x') \<Longrightarrow>
    pair_step step read_in step2 read_in2 m u sid (x, y) (x', y')"

text \<open>An action before a run that reaches what is wanted.\<close>

lemma act_first:
  assumes "act m u sid c c1" "\<exists>e'. (act m u sid)\<^sup>*\<^sup>* c1 (e', e2) \<and> P e'"
  shows "\<exists>e'. (act m u sid)\<^sup>*\<^sup>* c (e', e2) \<and> P e'"
  using assms by (meson converse_rtranclp_into_rtranclp)

lemma act_system: "(act m u sid)\<^sup>*\<^sup>* c c' \<Longrightarrow> (system_step m u sid)\<^sup>*\<^sup>* c c'"
  by (induction rule: rtranclp_induct)
    (auto intro: rtranclp.rtrancl_into_rtrancl step_left split: prod.splits)

lemma act_system_swap:
  "(act m u sid)\<^sup>*\<^sup>* c c' \<Longrightarrow> (system_step m u sid)\<^sup>*\<^sup>* (snd c, fst c) (snd c', fst c')"
proof (induction rule: rtranclp_induct)
  case (step y z)
  have "system_step m u sid (snd y, fst y) (snd z, fst z)"
    using step(2) by (intro step_right) simp
  with step(3) show ?case by simp
qed simp

text \<open>
  Runs can be executed: a schedule is a list of moves, and a move that is not ready does
  nothing. Every scheduled run is a run.
\<close>

datatype ('ev, 'ew) move = First 'ev | Second 'ew | ToSecond | ToFirst

definition party_do ::
  "('s, 'ev) party_step \<Rightarrow> ('ev \<Rightarrow> 'd list) \<Rightarrow> frame marshal \<Rightarrow> 'ev \<Rightarrow> ('s, 'd) party \<Rightarrow> ('s, 'd) party" where
  "party_do step read_in m ev x =
     (case step m (pa_link x) (pa_state x) ev of
        None \<Rightarrow> x
      | Some (l', s') \<Rightarrow> x\<lparr>pa_link := l', pa_state := s', pa_in := pa_in x @ read_in ev\<rparr>)"

definition party_deliver ::
  "frame marshal \<Rightarrow> frame unmarshal \<Rightarrow> ('s, 'd) party \<times> ('t, 'd) party \<Rightarrow> ('s, 'd) party \<times> ('t, 'd) party" where
  "party_deliver m u s =
     (case l_out (pa_link (fst s)) of
        [] \<Rightarrow> s
      | d # ds \<Rightarrow>
          ((fst s)\<lparr>pa_link := (pa_link (fst s))\<lparr>l_out := ds\<rparr>\<rparr>,
           (snd s)\<lparr>pa_link := Run_turn m u None True (pa_link (snd s)) (BinaryMessage d)\<rparr>))"

fun do_move ::
  "('s, 'ev) party_step \<Rightarrow> ('ev \<Rightarrow> 'd list) \<Rightarrow> ('t, 'ew) party_step \<Rightarrow> ('ew \<Rightarrow> 'd list) \<Rightarrow>
   frame marshal \<Rightarrow> frame unmarshal \<Rightarrow> ('ev, 'ew) move \<Rightarrow>
   ('s, 'd) party \<times> ('t, 'd) party \<Rightarrow> ('s, 'd) party \<times> ('t, 'd) party" where
  "do_move step read_in step2 read_in2 m u (First ev) s = (party_do step read_in m ev (fst s), snd s)"
| "do_move step read_in step2 read_in2 m u (Second ev) s = (fst s, party_do step2 read_in2 m ev (snd s))"
| "do_move step read_in step2 read_in2 m u ToSecond s = party_deliver m u s"
| "do_move step read_in step2 read_in2 m u ToFirst s = prod.swap (party_deliver m u (prod.swap s))"

definition run_moves where
  "run_moves step read_in step2 read_in2 m u moves s =
     fold (do_move step read_in step2 read_in2 m u) moves s"

lemma party_do_act:
  "party_do step read_in m ev x = x \<or> party_act step read_in m u sid (x, y) (party_do step read_in m ev x, y)"
  using party_own [of step m x ev _ _ read_in u sid y]
  by (auto simp: party_do_def split: option.splits prod.splits)

lemma party_deliver_act:
  "party_deliver m u (x, y) = (x, y) \<or> party_act step read_in m u sid (x, y) (party_deliver m u (x, y))"
  using party_read [of x _ _ u sid None step read_in m y True]
  by (cases "l_out (pa_link x)") (auto simp: party_deliver_def handler_ok_def)

lemma do_move_reach:
  "(pair_step step read_in step2 read_in2 m u sid)\<^sup>*\<^sup>* s (do_move step read_in step2 read_in2 m u mv s)"
proof (cases mv)
  case (First ev)
  then show ?thesis
    using party_do_act [of step read_in m ev "fst s" u sid "snd s"] pair_left
    by (cases s) (fastforce intro: r_into_rtranclp)
next
  case (Second ev)
  then show ?thesis
    using party_do_act [of step2 read_in2 m ev "snd s" u sid "fst s"] pair_right
    by (cases s) (fastforce intro: r_into_rtranclp)
next
  case ToSecond
  obtain x' y' where d: "party_deliver m u s = (x', y')" by fastforce
  show ?thesis
    using party_deliver_act [of m u "fst s" "snd s" step read_in sid] ToSecond d
      pair_left [of step read_in m u sid "fst s" "snd s" x' y' step2 read_in2]
    by (auto intro: r_into_rtranclp)
next
  case ToFirst
  obtain x' y' where d: "party_deliver m u (prod.swap s) = (y', x')" by fastforce
  show ?thesis
    using party_deliver_act [of m u "snd s" "fst s" step2 read_in2 sid] ToFirst d
      pair_right [of step2 read_in2 m u sid "snd s" "fst s" y' x' step read_in]
    by (auto simp: prod.swap_def intro: r_into_rtranclp)
qed

lemma run_moves_reach:
  "(pair_step step read_in step2 read_in2 m u sid)\<^sup>*\<^sup>* s (run_moves step read_in step2 read_in2 m u moves s)"
  unfolding run_moves_def
proof (induction moves arbitrary: s)
  case (Cons mv moves)
  show ?case using rtranclp_trans [OF do_move_reach Cons.IH] by simp
qed simp

section \<open>What two ends owe each other\<close>

text \<open>
  Nothing of the session waits on the wire from \<open>l\<close> or in the queue at \<open>a\<close>.
\<close>

definition quiet :: "frame unmarshal \<Rightarrow> string \<Rightarrow> link \<Rightarrow> link \<Rightarrow> nat \<Rightarrow> bool" where
  "quiet u sid l l2 a \<longleftrightarrow>
     datas (frame_items (own_frames u sid (l_out l))) = [] \<and> datas (frame_items (s_recv (sess l2 a))) = []"

text \<open>The next frame of the session that arrives from \<open>l\<close> is queued: it finds room.\<close>

definition room_for_next ::
  "frame marshal \<Rightarrow> frame unmarshal \<Rightarrow> string \<Rightarrow> bool \<Rightarrow> link \<Rightarrow> link \<Rightarrow> nat \<Rightarrow> bool" where
  "room_for_next m u sid pick l l2 a \<longleftrightarrow>
     (\<forall>d ds f. l_out l = d # ds \<and> DecodeFrame u d = Inr f \<and> f_SessionID f = sid \<and> f_Type f \<noteq> FrameWindow \<longrightarrow>
        dispatch m pick l2 f = upd_sess a (\<lambda>z. z\<lparr>s_recv := s_recv (sess l2 a) @ [f]\<rparr>) l2)"

definition in_order :: "frame unmarshal \<Rightarrow> string \<Rightarrow> endpoint \<Rightarrow> endpoint \<Rightarrow> bool" where
  "in_order u sid e e2 \<longleftrightarrow>
     (\<exists>rest. ep_sent e = ep_got e2 @ frame_items (s_recv (ep_sess e2)) @ rest \<and>
        (Session (ep_link e2) sid = Some (ep_addr e2) \<longrightarrow>
         rest = frame_items (own_frames u sid (l_out (ep_link e)))))"

lemma flow_in_order:
  "flow_ok sendWindow ackThreshold recvSlack (port_of u sid e) (port_of u sid e2) \<Longrightarrow> in_order u sid e e2"
  by (auto simp: flow_ok_def port_of_def in_order_def)

text \<open>What a list of items carries, and what it carries before the end of the data.\<close>

definition carried :: "(chunk \<Rightarrow> 'd list) \<Rightarrow> chunk item list \<Rightarrow> 'd list" where
  "carried g xs = concat (map g (datas xs))"

definition before_eof :: "'p item list \<Rightarrow> 'p item list" where
  "before_eof xs = takeWhile (\<lambda>x. x \<noteq> Eof) xs"

lemma carried_simps [simp]:
  "carried g [] = []" "carried g (Data c # xs) = g c @ carried g xs" "carried g (Eof # xs) = carried g xs"
  "carried g (Fin # xs) = carried g xs" "carried g (xs @ ys) = carried g xs @ carried g ys"
  by (simp_all add: carried_def)

lemma before_eof_append: "Eof \<in> set xs \<Longrightarrow> before_eof (xs @ ys) = before_eof xs"
  by (simp add: before_eof_def)

lemma before_eof_all: "Eof \<notin> set xs \<Longrightarrow> before_eof (xs @ ys) = xs @ before_eof ys"
  unfolding before_eof_def by (rule takeWhile_append2) auto

text \<open>Claiming a session, as the handler of a streamed response does, changes nothing of this.\<close>

lemma claim_inv:
  assumes "system_inv u sid (e, e2)"
  shows "system_inv u sid (e\<lparr>ep_link := snd (TryClaim (ep_link e) (ep_addr e))\<rparr>, e2)"
proof -
  let ?e = "e\<lparr>ep_link := snd (TryClaim (ep_link e) (ep_addr e))\<rparr>"
  have ok: "end_ok u sid e" using assms by (simp add: system_inv_def)
  then have s: "ep_sess ?e = (ep_sess e)\<lparr>s_claimed := True\<rparr>"
    by (simp add: end_ok_def ep_sess_def TryClaim_def)
  have "link_wf (ep_link ?e)"
    using ok unfolding end_ok_def TryClaim_def by (auto intro!: link_wf_upd simp: session_ok_def)
  then have "end_ok u sid ?e"
    using ok s s_id_upd [where g = "\<lambda>x. x\<lparr>s_claimed := True\<rparr>" and l = "ep_link e" and a = "ep_addr e"]
    by (simp add: end_ok_def TryClaim_def)
  moreover have "port_of u sid ?e = port_of u sid e"
    using s by (simp add: port_of_def TryClaim_def)
  ultimately show ?thesis using assms by (simp add: system_inv_def)
qed

section \<open>The contract of one party\<close>

locale session_client =
  fixes step :: "('s, 'ev) party_step"
    and read_in :: "'ev \<Rightarrow> 'd list"
    and chunk_data :: "chunk \<Rightarrow> 'd list"
    and party_matches :: "link \<Rightarrow> 's \<Rightarrow> 'd list \<Rightarrow> endpoint \<Rightarrow> bool"
    and passed_out :: "'s \<Rightarrow> 'd list"
    and addr :: "'s \<Rightarrow> nat"
    and alive :: "'s \<Rightarrow> bool"
    and drained :: "'s \<Rightarrow> bool"
    and saw_eof :: "'s \<Rightarrow> bool"
  assumes protocol: "step m l s ev = Some (l', s') \<Longrightarrow> party_matches l s inp e \<Longrightarrow>
      \<exists>e'. (act m u sid)\<^sup>*\<^sup>* (e, e2) (e', e2) \<and> party_matches l' s' (inp @ read_in ev) e'"
    and other_link: "party_matches l s inp e \<Longrightarrow> party_matches l' s inp (e\<lparr>ep_link := l'\<rparr>)"
    and own_session: "party_matches l s inp e \<Longrightarrow> ep_link e = l \<and> ep_addr e = addr s"
    and all_sent: "party_matches l s inp e \<Longrightarrow>
      \<exists>rest. inp = carried chunk_data (ep_sent e) @ rest \<and> (drained s \<longrightarrow> rest = [])"
    and all_passed: "party_matches l s inp e \<Longrightarrow>
      \<exists>rest. carried chunk_data (ep_got e) = passed_out s @ rest \<and> (alive s \<longrightarrow> rest = [])"
    and eof_last: "party_matches l s inp e \<Longrightarrow> Eof \<in> set (ep_sent e) \<Longrightarrow>
      inp = carried chunk_data (before_eof (ep_sent e))"
    and eof_seen: "party_matches l s inp e \<Longrightarrow> saw_eof s \<Longrightarrow>
      Eof \<in> set (ep_got e) \<and> (\<exists>more. passed_out s = carried chunk_data (before_eof (ep_got e)) @ more)"
begin

text \<open>Whatever happens at the party's end is a sequence of protocol actions.\<close>

lemma act_protocol:
  assumes "party_act step read_in m u sid (x, y) (x', y')"
    and x: "party_matches (pa_link x) (pa_state x) (pa_in x) e" and y: "ep_link e2 = pa_link y"
  shows "\<exists>e' e2'. (act m u sid)\<^sup>*\<^sup>* (e, e2) (e', e2') \<and>
    party_matches (pa_link x') (pa_state x') (pa_in x') e' \<and>
    pa_state y' = pa_state y \<and> pa_in y' = pa_in y \<and> e2' = e2\<lparr>ep_link := pa_link y'\<rparr>"
proof -
  have l: "ep_link e = pa_link x" using own_session [OF x] by simp
  have e2: "e2\<lparr>ep_link := pa_link y\<rparr> = e2" using y by simp
  show ?thesis
    using assms(1)
  proof cases
    case (party_own ev l' s')
    then show ?thesis using protocol [OF party_own(3) x, of u sid e2] e2 by auto
  next
    case (party_read d ds onOpen pick)
    let ?e = "e\<lparr>ep_link := (pa_link x)\<lparr>l_out := ds\<rparr>\<rparr>"
    let ?e2 = "e2\<lparr>ep_link := Run_turn m u onOpen pick (pa_link y) (BinaryMessage d)\<rparr>"
    have "act m u sid (e, e2) (?e, ?e2)"
      using act_read [of e d ds u sid onOpen m e2 pick] party_read l y by simp
    then show ?thesis
      using other_link [OF x, of "(pa_link x)\<lparr>l_out := ds\<rparr>"] party_read
      by (intro exI [of _ ?e] exI [of _ ?e2]) simp
  next
    case (party_other l')
    have "act m u sid (e, e2) (e\<lparr>ep_link := l'\<rparr>, e2)" using act_other party_other l by metis
    then show ?thesis
      using other_link [OF x, of l'] party_other e2 by (intro exI [of _ "e\<lparr>ep_link := l'\<rparr>"] exI [of _ e2]) simp
  next
    case party_shut
    have "act m u sid (e, e2) (e\<lparr>ep_link := CloseLink (pa_link x)\<rparr>, e2)" using act_shut l by metis
    then show ?thesis
      using other_link [OF x, of "CloseLink (pa_link x)"] party_shut e2
      by (intro exI [of _ "e\<lparr>ep_link := CloseLink (pa_link x)\<rparr>"] exI [of _ e2]) simp
  qed
qed

end

section \<open>Two parties\<close>

locale session_pair =
  A: session_client step read_in chunk_data matches out addr alive drained eof +
  B: session_client step2 read_in2 chunk_data matches2 out2 addr2 alive2 drained2 eof2
  for step :: "('s, 'ev) party_step" and read_in :: "'ev \<Rightarrow> 'd list" and chunk_data :: "chunk \<Rightarrow> 'd list"
    and matches :: "link \<Rightarrow> 's \<Rightarrow> 'd list \<Rightarrow> endpoint \<Rightarrow> bool"
    and out :: "'s \<Rightarrow> 'd list" and addr :: "'s \<Rightarrow> nat" and alive :: "'s \<Rightarrow> bool" and drained :: "'s \<Rightarrow> bool"
    and eof :: "'s \<Rightarrow> bool"
    and step2 :: "('t, 'ew) party_step" and read_in2 :: "'ew \<Rightarrow> 'd list"
    and matches2 :: "link \<Rightarrow> 't \<Rightarrow> 'd list \<Rightarrow> endpoint \<Rightarrow> bool"
    and out2 :: "'t \<Rightarrow> 'd list" and addr2 :: "'t \<Rightarrow> nat" and alive2 :: "'t \<Rightarrow> bool" and drained2 :: "'t \<Rightarrow> bool"
    and eof2 :: "'t \<Rightarrow> bool"
begin

definition pair_matches :: "('s, 'd) party \<times> ('t, 'd) party \<Rightarrow> endpoint \<times> endpoint \<Rightarrow> bool" where
  "pair_matches s c \<longleftrightarrow>
     (let (x, y) = s; (e, e2) = c in
      matches (pa_link x) (pa_state x) (pa_in x) e \<and> matches2 (pa_link y) (pa_state y) (pa_in y) e2)"

lemma pair_protocol:
  assumes "pair_step step read_in step2 read_in2 m u sid s s'" "pair_matches s c"
  shows "\<exists>c'. (system_step m u sid)\<^sup>*\<^sup>* c c' \<and> pair_matches s' c'"
proof -
  obtain e e2 where c: "c = (e, e2)" by (cases c)
  show ?thesis
    using assms(1)
  proof cases
    case (pair_left x y x' y')
    then have x: "matches (pa_link x) (pa_state x) (pa_in x) e" and y: "matches2 (pa_link y) (pa_state y) (pa_in y) e2"
      using assms(2) by (simp_all add: pair_matches_def c)
    obtain e' e2' where "(act m u sid)\<^sup>*\<^sup>* (e, e2) (e', e2')" "matches (pa_link x') (pa_state x') (pa_in x') e'"
      "pa_state y' = pa_state y" "pa_in y' = pa_in y" "e2' = e2\<lparr>ep_link := pa_link y'\<rparr>"
      using A.act_protocol [OF pair_left(3) x] B.own_session [OF y] by blast
    then show ?thesis
      using act_system B.other_link [OF y, of "pa_link y'"] pair_left
      by (intro exI [of _ "(e', e2')"]) (simp add: pair_matches_def c)
  next
    case (pair_right y x y' x')
    then have x: "matches (pa_link x) (pa_state x) (pa_in x) e" and y: "matches2 (pa_link y) (pa_state y) (pa_in y) e2"
      using assms(2) by (simp_all add: pair_matches_def c)
    obtain e' e2' where "(act m u sid)\<^sup>*\<^sup>* (e2, e) (e2', e')" "matches2 (pa_link y') (pa_state y') (pa_in y') e2'"
      "pa_state x' = pa_state x" "pa_in x' = pa_in x" "e' = e\<lparr>ep_link := pa_link x'\<rparr>"
      using B.act_protocol [OF pair_right(3) y] A.own_session [OF x] by blast
    then show ?thesis
      using act_system_swap [of m u sid "(e2, e)" "(e2', e')"] A.other_link [OF x, of "pa_link x'"] pair_right
      by (intro exI [of _ "(e', e2')"]) (simp add: pair_matches_def c)
  qed
qed

lemma run_protocol:
  assumes "(pair_step step read_in step2 read_in2 m u sid)\<^sup>*\<^sup>* s0 s" "pair_matches s0 c0"
  shows "\<exists>c. (system_step m u sid)\<^sup>*\<^sup>* c0 c \<and> pair_matches s c"
  using assms(1)
proof induction
  case (step s s')
  then obtain c where "(system_step m u sid)\<^sup>*\<^sup>* c0 c" "pair_matches s c" by blast
  then show ?case using pair_protocol [OF step(2)] by (meson rtranclp_trans)
qed (use assms(2) in blast)

text \<open>What the pair guarantees, in both directions.\<close>

lemma run_flow:
  assumes "codec_inverse m u" "system_inv u sid c0" "pair_matches s0 c0"
    and "(pair_step step read_in step2 read_in2 m u sid)\<^sup>*\<^sup>* s0 (x, y)"
  obtains e e2 where "matches (pa_link x) (pa_state x) (pa_in x) e" "matches2 (pa_link y) (pa_state y) (pa_in y) e2"
    and "(system_step m u sid)\<^sup>*\<^sup>* c0 (e, e2)" "in_order u sid e e2" "in_order u sid e2 e"
proof -
  obtain e e2 where c: "(system_step m u sid)\<^sup>*\<^sup>* c0 (e, e2)"
    and xy: "matches (pa_link x) (pa_state x) (pa_in x) e" "matches2 (pa_link y) (pa_state y) (pa_in y) e2"
    using run_protocol [OF assms(4,3)] by (auto simp: pair_matches_def)
  have "in_order u sid e e2" "in_order u sid e2 e"
    using run_keeps_inv [OF assms(1) c assms(2), of e e2] by (auto simp: system_inv_def intro: flow_in_order)
  then show thesis using that xy c by blast
qed

lemma transparent:
  assumes "codec_inverse m u" "system_inv u sid c0" "pair_matches s0 c0"
    and "(pair_step step read_in step2 read_in2 m u sid)\<^sup>*\<^sup>* s0 (x, y)"
  shows "(\<exists>rest. pa_in x = out2 (pa_state y) @ rest) \<and>
    (alive2 (pa_state y) \<and> Session (pa_link y) sid = Some (addr2 (pa_state y)) \<and>
     quiet u sid (pa_link x) (pa_link y) (addr2 (pa_state y)) \<and> drained (pa_state x) \<longrightarrow>
     pa_in x = out2 (pa_state y))"
proof -
  obtain e e2 where x: "matches (pa_link x) (pa_state x) (pa_in x) e"
    and y: "matches2 (pa_link y) (pa_state y) (pa_in y) e2" and o: "in_order u sid e e2"
    using run_flow [OF assms] by blast
  show ?thesis
    using o A.own_session [OF x] A.all_sent [OF x] B.own_session [OF y] B.all_passed [OF y]
    by (auto simp: ep_sess_def in_order_def quiet_def carried_def)
qed

lemma transparent_back:
  assumes "codec_inverse m u" "system_inv u sid c0" "pair_matches s0 c0"
    and "(pair_step step read_in step2 read_in2 m u sid)\<^sup>*\<^sup>* s0 (x, y)"
  shows "(\<exists>rest. pa_in y = out (pa_state x) @ rest) \<and>
    (alive (pa_state x) \<and> Session (pa_link x) sid = Some (addr (pa_state x)) \<and>
     quiet u sid (pa_link y) (pa_link x) (addr (pa_state x)) \<and> drained2 (pa_state y) \<longrightarrow>
     pa_in y = out (pa_state x))"
proof -
  obtain e e2 where x: "matches (pa_link x) (pa_state x) (pa_in x) e"
    and y: "matches2 (pa_link y) (pa_state y) (pa_in y) e2" and o: "in_order u sid e2 e"
    using run_flow [OF assms] by blast
  show ?thesis
    using o A.own_session [OF x] A.all_passed [OF x] B.own_session [OF y] B.all_sent [OF y]
    by (auto simp: ep_sess_def in_order_def quiet_def carried_def)
qed

text \<open>
  The end of the data is passed on only after all of the data: a party that has seen it has
  passed out everything the other party took in.
\<close>

lemma eof_complete:
  assumes "codec_inverse m u" "system_inv u sid c0" "pair_matches s0 c0"
    and "(pair_step step read_in step2 read_in2 m u sid)\<^sup>*\<^sup>* s0 (x, y)"
  shows "(eof2 (pa_state y) \<longrightarrow> out2 (pa_state y) = pa_in x) \<and> (eof (pa_state x) \<longrightarrow> out (pa_state x) = pa_in y)"
proof -
  obtain e e2 where x: "matches (pa_link x) (pa_state x) (pa_in x) e"
    and y: "matches2 (pa_link y) (pa_state y) (pa_in y) e2" and o: "in_order u sid e e2" "in_order u sid e2 e"
    using run_flow [OF assms] by blast
  have "out2 (pa_state y) = pa_in x" if seen: "eof2 (pa_state y)"
  proof -
    obtain more where g: "Eof \<in> set (ep_got e2)" "out2 (pa_state y) = carried chunk_data (before_eof (ep_got e2)) @ more"
      using B.eof_seen [OF y seen] by blast
    then have "Eof \<in> set (ep_sent e)" "before_eof (ep_sent e) = before_eof (ep_got e2)"
      using o(1) by (auto simp: in_order_def before_eof_append)
    then have "pa_in x = carried chunk_data (before_eof (ep_got e2))" using A.eof_last [OF x] by simp
    moreover have "\<exists>rest. pa_in x = out2 (pa_state y) @ rest" using transparent [OF assms] by blast
    ultimately show ?thesis using g(2) by auto
  qed
  moreover have "out (pa_state x) = pa_in y" if seen: "eof (pa_state x)"
  proof -
    obtain more where g: "Eof \<in> set (ep_got e)" "out (pa_state x) = carried chunk_data (before_eof (ep_got e)) @ more"
      using A.eof_seen [OF x seen] by blast
    then have "Eof \<in> set (ep_sent e2)" "before_eof (ep_sent e2) = before_eof (ep_got e)"
      using o(2) by (auto simp: in_order_def before_eof_append)
    then have "pa_in y = carried chunk_data (before_eof (ep_got e))" using B.eof_last [OF y] by simp
    moreover have "\<exists>rest. pa_in y = out (pa_state x) @ rest" using transparent_back [OF assms] by blast
    ultimately show ?thesis using g(2) by auto
  qed
  ultimately show ?thesis by blast
qed

lemma no_violation:
  assumes "codec_inverse m u" "system_inv u sid c0" "pair_matches s0 c0"
    and "(pair_step step read_in step2 read_in2 m u sid)\<^sup>*\<^sup>* s0 (x, y)"
  shows "(Session (pa_link y) sid = Some (addr2 (pa_state y)) \<longrightarrow>
      room_for_next m u sid pick (pa_link x) (pa_link y) (addr2 (pa_state y))) \<and>
    (Session (pa_link x) sid = Some (addr (pa_state x)) \<longrightarrow>
      room_for_next m u sid pick (pa_link y) (pa_link x) (addr (pa_state x)))"
proof -
  obtain e e2 where x: "matches (pa_link x) (pa_state x) (pa_in x) e"
    and y: "matches2 (pa_link y) (pa_state y) (pa_in y) e2" and c: "(system_step m u sid)\<^sup>*\<^sup>* c0 (e, e2)"
    using run_flow [OF assms] by blast
  show ?thesis
    using arriving_frame_queued [OF run_keeps_inv [OF assms(1) c assms(2)], of e e2]
      arriving_frame_queued [OF run_keeps_inv [OF assms(1) c assms(2)], of e2 e]
      A.own_session [OF x] B.own_session [OF y]
    by (auto simp: ep_sess_def room_for_next_def)
qed

end

end
