(* ===== verification/Data_Relay.thy ===== *)
theory Data_Relay
  imports Session_Pipe
begin

text \<open>
  Package \<^verbatim>\<open>internal/datatunnel\<close>, \<^verbatim>\<open>relay.go\<close>: \<^verbatim>\<open>RelayConn\<close> and \<^verbatim>\<open>RelayWebSocket\<close> pipe a
  connection into a session and back.

  A relay is two goroutines, the reader of the connection and the main loop, that share the
  session, the idle guard and a result channel of capacity one. Its state is a record; one
  step is one receive of the main loop's \<^verbatim>\<open>select\<close> or one step of the reader, chosen by an
  event, and \<open>None\<close> says that the event is not ready. What the outside world decides (what a
  read returns, how much of a failing write went out, the clock, the cancellation of the
  context) is carried by the event. The link is passed separately: other goroutines change it
  between two steps of a relay. \<open>ry_log\<close> records the calls made on the connection.

  The lemmas state what reaches the connection, when a relay ends and in what state, the idle
  timeout, and that a relay keeps its obligations to the flow-control protocol.
\<close>

section \<open>The idle guard\<close>

record idle_guard =
  ig_timeout :: int
  ig_last :: int
  ig_timer :: "int option"

definition newIdleGuard :: "int \<Rightarrow> int \<Rightarrow> idle_guard" where
  "newIdleGuard timeout now =
     \<lparr>ig_timeout = timeout, ig_last = now, ig_timer = (if timeout > 0 then Some (now + timeout) else None)\<rparr>"

definition touch :: "int \<Rightarrow> idle_guard \<Rightarrow> idle_guard" where
  "touch now g = g\<lparr>ig_last := now\<rparr>"

text \<open>\<^verbatim>\<open>expired\<close>, called after the timer has fired.\<close>

definition expired :: "int \<Rightarrow> idle_guard \<Rightarrow> bool \<times> idle_guard" where
  "expired now g =
     (let remaining = ig_timeout g - (now - ig_last g) in
      if remaining \<le> 0 then (True, g) else (False, g\<lparr>ig_timer := Some (now + remaining)\<rparr>))"

definition idle_stop :: "idle_guard \<Rightarrow> idle_guard" where
  "idle_stop g = g\<lparr>ig_timer := None\<rparr>"

text \<open>The channel \<^verbatim>\<open>c\<close> has a value when the timer is armed and its time has come.\<close>

definition timer_ready :: "int \<Rightarrow> idle_guard \<Rightarrow> bool" where
  "timer_ready now g \<longleftrightarrow> (case ig_timer g of None \<Rightarrow> False | Some t \<Rightarrow> t \<le> now)"

section \<open>Relay state\<close>

datatype read_error = ReadEOF | ReadClose int string | ReadOther string | ReadSend link_error

text \<open>
  The reader goroutine: in the read call, in \<^verbatim>\<open>SendData\<close> with the chunk just read and the error
  that came with it, or finished.
\<close>

datatype reader = Reading | Sending string bytes "read_error option" | Stopped

record 'w relay =
  ry_addr :: nat
  ry_log :: "'w list"
  ry_reader :: reader
  ry_result :: "read_error option"
  ry_localEOF :: bool
  ry_remoteEOF :: bool
  ry_idle :: idle_guard
  ry_returned :: bool

definition new_relay :: "nat \<Rightarrow> int \<Rightarrow> int \<Rightarrow> 'w relay" where
  "new_relay a idleTimeout now =
     \<lparr>ry_addr = a, ry_log = [], ry_reader = Reading, ry_result = None, ry_localEOF = False,
      ry_remoteEOF = False, ry_idle = newIdleGuard idleTimeout now, ry_returned = False\<rparr>"

text \<open>The deferred calls, last first: \<^verbatim>\<open>idle.stop\<close>, \<^verbatim>\<open>conn.Close\<close>, \<^verbatim>\<open>session.Close\<close>.\<close>

definition finish_relay :: "frame marshal \<Rightarrow> 'w \<Rightarrow> link \<Rightarrow> 'w relay \<Rightarrow> link \<times> 'w relay" where
  "finish_relay m closed l r =
     (CloseSession m l (ry_addr r),
      r\<lparr>ry_idle := idle_stop (ry_idle r), ry_log := ry_log r @ [closed], ry_returned := True\<rparr>)"

text \<open>The reader's \<^verbatim>\<open>SendData\<close> and what follows it in the loop body; shared by both relays.\<close>

definition reader_send ::
  "frame marshal \<Rightarrow> bool \<Rightarrow> int \<Rightarrow> link \<Rightarrow> 'w relay \<Rightarrow> (link \<times> 'w relay) option" where
  "reader_send m pick now l r =
     (case ry_reader r of
        Sending kind payload err \<Rightarrow>
          (case SendData m pick l (ry_addr r) kind payload of
             None \<Rightarrow> None
           | Some (l', Some e) \<Rightarrow> Some (l', r\<lparr>ry_result := Some (ReadSend e), ry_reader := Stopped\<rparr>)
           | Some (l', None) \<Rightarrow>
               (let r' = r\<lparr>ry_idle := touch now (ry_idle r)\<rparr> in
                case err of
                  None \<Rightarrow> Some (l', r'\<lparr>ry_reader := Reading\<rparr>)
                | Some e \<Rightarrow> Some (l', r'\<lparr>ry_result := Some e, ry_reader := Stopped\<rparr>)))
      | _ \<Rightarrow> None)"

section \<open>RelayConn\<close>

datatype conn_call = Wrote bytes | HalfClosed | ConnClosed

datatype conn_event =
    RcRead bytes "read_error option"
  | RcSend bool int
  | RcCtx
  | RcDone
  | RcResult
  | RcRecv "nat option" int
  | RcIdle int

text \<open>
  \<open>RcRead\<close>: \<^verbatim>\<open>conn.Read\<close> returns; a closed connection gives no data and an error.
  \<open>RcRecv (Some k)\<close>: the write fails after \<open>k\<close> bytes.
\<close>

definition conn_read :: "bytes \<Rightarrow> read_error option \<Rightarrow> conn_call relay \<Rightarrow> conn_call relay option" where
  "conn_read payload err r =
     (if ry_reader r \<noteq> Reading \<or> (ConnClosed \<in> set (ry_log r) \<and> (payload \<noteq> [] \<or> err = None)) then None
      else if payload \<noteq> [] then Some (r\<lparr>ry_reader := Sending DataBinary payload err\<rparr>)
      else case err of
          None \<Rightarrow> Some r
        | Some e \<Rightarrow> Some (r\<lparr>ry_result := Some e, ry_reader := Stopped\<rparr>))"

definition conn_result :: "frame marshal \<Rightarrow> link \<Rightarrow> conn_call relay \<Rightarrow> (link \<times> conn_call relay) option" where
  "conn_result m l r =
     (case ry_result r of
        None \<Rightarrow> None
      | Some err \<Rightarrow>
          (let r1 = r\<lparr>ry_result := None\<rparr> in
           if err \<noteq> ReadEOF then Some (finish_relay m ConnClosed l r1)
           else
             (let r2 = r1\<lparr>ry_localEOF := True\<rparr>; (l', e) = SendEOF m l (ry_addr r) in
              if e \<noteq> None \<or> ry_remoteEOF r2 then Some (finish_relay m ConnClosed l' r2)
              else Some (l', r2))))"

definition conn_recv ::
  "frame marshal \<Rightarrow> nat option \<Rightarrow> int \<Rightarrow> link \<Rightarrow> conn_call relay \<Rightarrow> (link \<times> conn_call relay) option" where
  "conn_recv m werr now l r =
     (case s_recv (sess l (ry_addr r)) of
        [] \<Rightarrow> None
      | f # _ \<Rightarrow>
          (let l1 = pop_recv (ry_addr r) l in
           if f_Type f = FrameData then
             (case werr of
                Some k \<Rightarrow>
                  Some (finish_relay m ConnClosed l1 (r\<lparr>ry_log := ry_log r @ [Wrote (take k (f_Payload f))]\<rparr>))
              | None \<Rightarrow>
                  Some (AckData m l1 (ry_addr r),
                        r\<lparr>ry_log := ry_log r @ [Wrote (f_Payload f)], ry_idle := touch now (ry_idle r)\<rparr>))
           else if f_Type f = FrameEOF then
             (let r1 = r\<lparr>ry_remoteEOF := True, ry_log := ry_log r @ [HalfClosed]\<rparr> in
              if ry_localEOF r1 then Some (finish_relay m ConnClosed l1 r1) else Some (l1, r1))
           else if f_Type f = FrameClose \<or> f_Type f = FrameError then
             Some (finish_relay m ConnClosed l1 r)
           else Some (l1, r)))"

definition relay_idle :: "frame marshal \<Rightarrow> 'w \<Rightarrow> int \<Rightarrow> link \<Rightarrow> 'w relay \<Rightarrow> (link \<times> 'w relay) option" where
  "relay_idle m closed now l r =
     (if \<not> timer_ready now (ry_idle r) then None
      else
        (let g = (ry_idle r)\<lparr>ig_timer := None\<rparr>; (ex, g') = expired now g; r' = r\<lparr>ry_idle := g'\<rparr> in
         if ex then Some (finish_relay m closed l r') else Some (l, r')))"

definition RelayConn_step ::
  "frame marshal \<Rightarrow> link \<Rightarrow> conn_call relay \<Rightarrow> conn_event \<Rightarrow> (link \<times> conn_call relay) option" where
  "RelayConn_step m l r ev =
     (case ev of
        RcRead payload err \<Rightarrow> map_option (Pair l) (conn_read payload err r)
      | RcSend pick now \<Rightarrow> reader_send m pick now l r
      | _ \<Rightarrow>
        if ry_returned r then None
        else case ev of
          RcCtx \<Rightarrow> Some (finish_relay m ConnClosed l r)
        | RcDone \<Rightarrow> if s_done (sess l (ry_addr r)) then Some (finish_relay m ConnClosed l r) else None
        | RcResult \<Rightarrow> conn_result m l r
        | RcRecv werr now \<Rightarrow> conn_recv m werr now l r
        | RcIdle now \<Rightarrow> relay_idle m ConnClosed now l r
        | _ \<Rightarrow> None)"

section \<open>RelayWebSocket\<close>

datatype ws_call = WsWrote bool bytes | WsCloseMessage int string | WsClosed

datatype ws_type = WsText | WsBinary | WsOtherType

datatype ws_event =
    RwRead "read_error + ws_type \<times> bytes"
  | RwSend bool int
  | RwCtx
  | RwDone
  | RwResult
  | RwRecv bool int
  | RwIdle int

definition ws_read :: "read_error + ws_type \<times> bytes \<Rightarrow> ws_call relay \<Rightarrow> ws_call relay option" where
  "ws_read res r =
     (if ry_reader r \<noteq> Reading then None
      else case res of
          Inl e \<Rightarrow> Some (r\<lparr>ry_result := Some e, ry_reader := Stopped\<rparr>)
        | Inr (t, payload) \<Rightarrow>
            if WsClosed \<in> set (ry_log r) then None
            else if t = WsText then Some (r\<lparr>ry_reader := Sending DataText payload None\<rparr>)
            else if t \<noteq> WsBinary then Some r
            else Some (r\<lparr>ry_reader := Sending DataBinary payload None\<rparr>))"

definition ws_result :: "frame marshal \<Rightarrow> link \<Rightarrow> ws_call relay \<Rightarrow> (link \<times> ws_call relay) option" where
  "ws_result m l r =
     (case ry_result r of
        None \<Rightarrow> None
      | Some err \<Rightarrow>
          (let r1 = r\<lparr>ry_result := None\<rparr> in
           case err of
             ReadClose code txt \<Rightarrow>
               Some (finish_relay m WsClosed (CloseWithCode m l (ry_addr r) code txt) r1)
           | _ \<Rightarrow> Some (finish_relay m WsClosed l r1)))"

definition ws_recv ::
  "frame marshal \<Rightarrow> bool \<Rightarrow> int \<Rightarrow> link \<Rightarrow> ws_call relay \<Rightarrow> (link \<times> ws_call relay) option" where
  "ws_recv m wok now l r =
     (case s_recv (sess l (ry_addr r)) of
        [] \<Rightarrow> None
      | f # _ \<Rightarrow>
          (let l1 = pop_recv (ry_addr r) l in
           if f_Type f = FrameData then
             (if \<not> wok then Some (finish_relay m WsClosed l1 r)
              else
                Some (AckData m l1 (ry_addr r),
                      r\<lparr>ry_log := ry_log r @ [WsWrote (f_DataKind f = DataText) (f_Payload f)],
                        ry_idle := touch now (ry_idle r)\<rparr>))
           else if f_Type f = FrameClose then
             Some (finish_relay m WsClosed l1
               (if f_CloseCode f \<noteq> 0
                then r\<lparr>ry_log := ry_log r @ [WsCloseMessage (f_CloseCode f) (f_Payload f)]\<rparr> else r))
           else if f_Type f = FrameEOF \<or> f_Type f = FrameError then
             Some (finish_relay m WsClosed l1 r)
           else Some (l1, r)))"

definition RelayWebSocket_step ::
  "frame marshal \<Rightarrow> link \<Rightarrow> ws_call relay \<Rightarrow> ws_event \<Rightarrow> (link \<times> ws_call relay) option" where
  "RelayWebSocket_step m l r ev =
     (case ev of
        RwRead res \<Rightarrow> map_option (Pair l) (ws_read res r)
      | RwSend pick now \<Rightarrow> reader_send m pick now l r
      | _ \<Rightarrow>
        if ry_returned r then None
        else case ev of
          RwCtx \<Rightarrow> Some (finish_relay m WsClosed l r)
        | RwDone \<Rightarrow> if s_done (sess l (ry_addr r)) then Some (finish_relay m WsClosed l r) else None
        | RwResult \<Rightarrow> ws_result m l r
        | RwRecv wok now \<Rightarrow> ws_recv m wok now l r
        | RwIdle now \<Rightarrow> relay_idle m WsClosed now l r
        | _ \<Rightarrow> None)"

section \<open>The life of a relay\<close>

text \<open>
  The reader reports once and stops; local EOF is recorded when its report was EOF; remote EOF
  half-closes the connection; the main loop ends when both directions have ended; and once it
  has ended the connection is closed, and nothing follows on it.
\<close>

definition relay_ok :: "conn_call relay \<Rightarrow> bool" where
  "relay_ok r \<longleftrightarrow>
     (ry_result r \<noteq> None \<longrightarrow> ry_reader r = Stopped) \<and>
     (ry_localEOF r \<longrightarrow> ry_reader r = Stopped \<and> ry_result r = None) \<and>
     (ry_localEOF r \<and> ry_remoteEOF r \<longrightarrow> ry_returned r) \<and>
     (ry_remoteEOF r \<longleftrightarrow> HalfClosed \<in> set (ry_log r)) \<and>
     (if ry_returned r then \<exists>cs. ry_log r = cs @ [ConnClosed] \<and> ConnClosed \<notin> set cs
      else ConnClosed \<notin> set (ry_log r))"

lemmas relay_step_defs =
  RelayConn_step_def conn_read_def reader_send_def conn_result_def conn_recv_def relay_idle_def
  finish_relay_def Let_def

lemma relay_ok_new [simp]: "relay_ok (new_relay a t now)"
  by (simp add: relay_ok_def new_relay_def)

lemma relay_ok_finish:
  assumes "ry_result r = None \<or> ry_reader r = Stopped" "ry_localEOF r \<longrightarrow> ry_reader r = Stopped \<and> ry_result r = None"
    "ry_remoteEOF r \<longleftrightarrow> HalfClosed \<in> set (ry_log r)" "ConnClosed \<notin> set (ry_log r)"
  shows "relay_ok (snd (finish_relay m ConnClosed l r))"
  using assms by (auto simp: relay_ok_def finish_relay_def)

lemma relay_ok_idle_update [simp]:
  "relay_ok (r\<lparr>ry_idle := g\<rparr>) = relay_ok r" by (simp add: relay_ok_def)

lemma reader_send_ok:
  assumes "reader_send m pick now l r = Some (l', r')" "relay_ok r"
  shows "relay_ok r'"
  using assms by (auto simp: reader_send_def Let_def relay_ok_def split: reader.splits option.splits if_splits)

lemma conn_read_ok:
  assumes "conn_read payload err r = Some r'" "relay_ok r"
  shows "relay_ok r'"
  using assms by (auto simp: conn_read_def relay_ok_def split: option.splits if_splits)

lemma conn_result_ok:
  assumes "conn_result m l r = Some (l', r')" "relay_ok r" "\<not> ry_returned r"
  shows "relay_ok r'"
  using assms
  by (auto simp: conn_result_def Let_def relay_ok_def finish_relay_def split: option.splits prod.splits if_splits)

lemma conn_recv_cases:
  assumes "conn_recv m werr now l r = Some (l', r')"
  obtains (data_ok) f fs where "s_recv (sess l (ry_addr r)) = f # fs" "f_Type f = FrameData" "werr = None"
      "l' = AckData m (pop_recv (ry_addr r) l) (ry_addr r)"
      "r' = r\<lparr>ry_log := ry_log r @ [Wrote (f_Payload f)], ry_idle := touch now (ry_idle r)\<rparr>"
    | (data_fail) f fs k where "s_recv (sess l (ry_addr r)) = f # fs" "f_Type f = FrameData" "werr = Some k"
      "(l', r') = finish_relay m ConnClosed (pop_recv (ry_addr r) l)
         (r\<lparr>ry_log := ry_log r @ [Wrote (take k (f_Payload f))]\<rparr>)"
    | (eof_end) f fs where "s_recv (sess l (ry_addr r)) = f # fs" "f_Type f = FrameEOF" "ry_localEOF r"
      "(l', r') = finish_relay m ConnClosed (pop_recv (ry_addr r) l)
         (r\<lparr>ry_remoteEOF := True, ry_log := ry_log r @ [HalfClosed]\<rparr>)"
    | (eof_half) f fs where "s_recv (sess l (ry_addr r)) = f # fs" "f_Type f = FrameEOF" "\<not> ry_localEOF r"
      "l' = pop_recv (ry_addr r) l" "r' = r\<lparr>ry_remoteEOF := True, ry_log := ry_log r @ [HalfClosed]\<rparr>"
    | (ending) f fs where "s_recv (sess l (ry_addr r)) = f # fs" "f_Type f = FrameClose \<or> f_Type f = FrameError"
      "(l', r') = finish_relay m ConnClosed (pop_recv (ry_addr r) l) r"
    | (other) f fs where "s_recv (sess l (ry_addr r)) = f # fs"
      "f_Type f \<notin> {FrameData, FrameEOF, FrameClose, FrameError}"
      "l' = pop_recv (ry_addr r) l" "r' = r"
proof (cases "s_recv (sess l (ry_addr r))")
  case Nil
  then show thesis using assms by (simp add: conn_recv_def)
next
  case (Cons f fs)
  note q = Cons
  consider "f_Type f = FrameData" | "f_Type f = FrameEOF" | "f_Type f = FrameClose \<or> f_Type f = FrameError"
    | "f_Type f \<notin> {FrameData, FrameEOF, FrameClose, FrameError}" by blast
  then show thesis
  proof cases
    case 1
    then show thesis
      using assms q data_ok [OF q 1] data_fail [OF q 1]
      by (cases werr) (simp_all add: conn_recv_def Let_def)
  next
    case 2
    then show thesis
      using assms q eof_end [OF q 2] eof_half [OF q 2]
      by (cases "ry_localEOF r") (simp_all add: conn_recv_def Let_def)
  next
    case 3
    then have "f_Type f \<noteq> FrameData" "f_Type f \<noteq> FrameEOF" by (auto simp: frame_type_defs)
    then show thesis using assms q 3 ending [OF q 3] by (simp add: conn_recv_def Let_def)
  next
    case 4
    then have "l' = pop_recv (ry_addr r) l" "r' = r"
      using assms q by (auto simp: conn_recv_def Let_def)
    then show thesis by (rule other [OF q 4])
  qed
qed

lemma finish_eq:
  "(l', r') = finish_relay m c l r \<longleftrightarrow>
     l' = CloseSession m l (ry_addr r) \<and>
     r' = r\<lparr>ry_idle := idle_stop (ry_idle r), ry_log := ry_log r @ [c], ry_returned := True\<rparr>"
  by (simp add: finish_relay_def)

lemma conn_recv_ok:
  assumes "conn_recv m werr now l r = Some (l', r')" "relay_ok r" "\<not> ry_returned r"
  shows "relay_ok r'"
  using assms(1)
  by (cases rule: conn_recv_cases) (use assms(2,3) in \<open>auto simp: finish_eq relay_ok_def\<close>)

lemma relay_idle_cases:
  assumes "relay_idle m c now l r = Some (l', r')"
  obtains (expire) "timer_ready now (ry_idle r)" "now - ig_last (ry_idle r) \<ge> ig_timeout (ry_idle r)"
      "(l', r') = finish_relay m c l (r\<lparr>ry_idle := (ry_idle r)\<lparr>ig_timer := None\<rparr>\<rparr>)"
    | (rearm) "timer_ready now (ry_idle r)" "now - ig_last (ry_idle r) < ig_timeout (ry_idle r)" "l' = l"
      "r' = r\<lparr>ry_idle := (ry_idle r)\<lparr>ig_timer := Some (ig_last (ry_idle r) + ig_timeout (ry_idle r))\<rparr>\<rparr>"
proof (cases "now - ig_last (ry_idle r) \<ge> ig_timeout (ry_idle r)")
  case True
  then show thesis
    using assms expire
    by (simp add: relay_idle_def expired_def Let_def split: if_splits)
next
  case False
  then show thesis
    using assms rearm by (simp add: relay_idle_def expired_def Let_def algebra_simps split: if_splits)
qed

lemma relay_idle_ok:
  assumes "relay_idle m ConnClosed now l r = Some (l', r')" "relay_ok r" "\<not> ry_returned r"
  shows "relay_ok r'"
  using assms(1)
  by (cases rule: relay_idle_cases) (use assms(2,3) in \<open>auto simp: finish_eq relay_ok_def\<close>)

text \<open>The steps of the main loop and of the reader, one by one.\<close>

lemma RelayConn_cases:
  assumes "RelayConn_step m l r ev = Some (l', r')"
  obtains (read) payload err where "ev = RcRead payload err" "conn_read payload err r = Some r'" "l' = l"
    | (send) pick now where "ev = RcSend pick now" "reader_send m pick now l r = Some (l', r')"
    | (ctx) "ev = RcCtx" "\<not> ry_returned r" "(l', r') = finish_relay m ConnClosed l r"
    | (done_) "ev = RcDone" "\<not> ry_returned r" "s_done (sess l (ry_addr r))"
        "(l', r') = finish_relay m ConnClosed l r"
    | (result) "ev = RcResult" "\<not> ry_returned r" "conn_result m l r = Some (l', r')"
    | (recv) werr now where "ev = RcRecv werr now" "\<not> ry_returned r" "conn_recv m werr now l r = Some (l', r')"
    | (idle) now where "ev = RcIdle now" "\<not> ry_returned r" "relay_idle m ConnClosed now l r = Some (l', r')"
  using assms by (cases ev) (auto simp: RelayConn_step_def split: if_splits)

lemma RelayConn_ok:
  assumes "RelayConn_step m l r ev = Some (l', r')" "relay_ok r"
  shows "relay_ok r'"
  using assms(1)
proof (cases rule: RelayConn_cases)
  case (read payload err)
  then show ?thesis using conn_read_ok assms(2) by metis
next
  case (send pick now)
  then show ?thesis using reader_send_ok assms(2) by metis
next
  case ctx
  then show ?thesis using assms(2) by (simp add: relay_ok_def finish_eq)
next
  case done_
  then show ?thesis using assms(2) by (simp add: relay_ok_def finish_eq)
next
  case result
  then show ?thesis using conn_result_ok assms(2) by metis
next
  case (recv werr now)
  then show ?thesis using conn_recv_ok assms(2) by metis
next
  case (idle now)
  then show ?thesis using relay_idle_ok assms(2) by metis
qed

section \<open>A relay keeps to the protocol\<close>

fun written :: "conn_call list \<Rightarrow> bytes" where
  "written [] = []"
| "written (Wrote b # cs) = b @ written cs"
| "written (_ # cs) = written cs"

lemma written_append [simp]: "written (xs @ ys) = written xs @ written ys"
  by (induction xs rule: written.induct) auto

text \<open>The control frames a relay has tried to send: one for its EOF, one for its end.\<close>

definition relay_calls :: "'w relay \<Rightarrow> nat" where
  "relay_calls r = (if ry_localEOF r then 1 else 0) + (if ry_returned r then 1 else 0)"

text \<open>
  The relay and the protocol's view of its end. \<open>inp\<close> is all that was read from the
  connection: it has been sent, but for a chunk that waits for credit or a chunk whose send
  failed; and all of it once reading has ended with EOF, before the EOF frame. What was
  written to the connection is what was taken from the session, but for a chunk whose write
  failed.
\<close>

definition read_all :: "'w relay \<Rightarrow> bool" where
  "read_all r \<longleftrightarrow> ry_result r = Some ReadEOF \<or> ry_localEOF r"

definition sent_matches :: "conn_call relay \<Rightarrow> bytes \<Rightarrow> endpoint \<Rightarrow> bool" where
  "sent_matches r inp e \<longleftrightarrow>
     (\<exists>rest. inp = carried snd (ep_sent e) @ rest \<and>
        (case ry_reader r of Reading \<Rightarrow> rest = [] | Sending _ p _ \<Rightarrow> rest = p | Stopped \<Rightarrow> read_all r \<longrightarrow> rest = [])) \<and>
     (Eof \<in> set (ep_sent e) \<longrightarrow> ry_localEOF r \<and> carried snd (ep_sent e) = carried snd (before_eof (ep_sent e)))"

definition got_matches :: "conn_call relay \<Rightarrow> endpoint \<Rightarrow> bool" where
  "got_matches r e \<longleftrightarrow>
     (\<exists>rest. carried snd (ep_got e) = written (ry_log r) @ rest \<and> (\<not> ry_returned r \<longrightarrow> rest = [])) \<and>
     (ry_remoteEOF r \<longrightarrow> Eof \<in> set (ep_got e) \<and>
        (\<exists>more. written (ry_log r) = carried snd (before_eof (ep_got e)) @ more))"

definition conn_matches :: "link \<Rightarrow> conn_call relay \<Rightarrow> bytes \<Rightarrow> endpoint \<Rightarrow> bool" where
  "conn_matches l r inp e \<longleftrightarrow>
     relay_ok r \<and> ep_link e = l \<and> ep_addr e = ry_addr r \<and> ep_ctl e = relay_calls r \<and>
     sent_matches r inp e \<and> got_matches r e"

lemma relay_calls_bound: "relay_calls r \<le> 2"
  by (simp add: relay_calls_def)

definition event_input :: "conn_event \<Rightarrow> bytes" where
  "event_input ev = (case ev of RcRead payload _ \<Rightarrow> payload | _ \<Rightarrow> [])"

lemma before_eof_prefix: "\<exists>more. carried g xs = carried g (before_eof xs) @ more"
proof -
  have "carried g xs = carried g (before_eof xs) @ carried g (dropWhile (\<lambda>x. x \<noteq> Eof) xs)"
    unfolding before_eof_def carried_simps(5) [symmetric] by simp
  then show ?thesis ..
qed

lemma got_item_simps [simp]:
  "f_Type f = FrameData \<Longrightarrow> got_item f = [Data (f_DataKind f, f_Payload f)]"
  "f_Type f = FrameEOF \<Longrightarrow> got_item f = [Eof]"
  by (simp_all add: got_item_def frame_item_def)

lemma got_item_other:
  "f_Type f \<notin> {FrameData, FrameEOF} \<Longrightarrow> got_item f \<in> {[], [Fin]}"
  by (simp add: got_item_def frame_item_def)

text \<open>What taking a frame does to the two sides of \<open>got_matches\<close>.\<close>

lemma got_matches_data:
  assumes "got_matches r e" "\<not> ry_returned r"
  shows "got_matches (r\<lparr>ry_log := ry_log r @ [Wrote p], ry_idle := g\<rparr>)
      (e\<lparr>ep_link := l, ep_got := ep_got e @ [Data (k, p)], ep_fail := b\<rparr>)"
    "got_matches (r\<lparr>ry_log := ry_log r @ [Wrote (take n p)], ry_returned := True\<rparr>)
      (e\<lparr>ep_link := l, ep_got := ep_got e @ [Data (k, p)], ep_fail := b\<rparr>)"
proof -
  have "\<exists>rest. p = take n p @ rest" by (metis append_take_drop_id)
  then show "got_matches (r\<lparr>ry_log := ry_log r @ [Wrote (take n p)], ry_returned := True\<rparr>)
      (e\<lparr>ep_link := l, ep_got := ep_got e @ [Data (k, p)], ep_fail := b\<rparr>)"
    using assms by (auto simp: got_matches_def before_eof_append)
qed (use assms in \<open>auto simp: got_matches_def before_eof_append\<close>)

lemma got_matches_eof:
  assumes "got_matches r e" "\<not> ry_returned r"
  shows "got_matches (r\<lparr>ry_remoteEOF := True, ry_log := ry_log r @ [HalfClosed]\<rparr>)
      (e\<lparr>ep_link := l, ep_got := ep_got e @ [Eof]\<rparr>)"
  using assms before_eof_prefix [of snd "ep_got e @ [Eof]"] by (auto simp: got_matches_def)

lemma got_matches_other:
  assumes "got_matches r e" "f_Type f \<notin> {FrameData, FrameEOF}"
  shows "got_matches r (e\<lparr>ep_link := l, ep_got := ep_got e @ got_item f\<rparr>)"
  using assms(1) got_item_other [OF assms(2)] by (auto simp: got_matches_def before_eof_append)

lemma got_matches_cong:
  "got_matches r e \<Longrightarrow> ep_got e' = ep_got e \<Longrightarrow> written (ry_log r') = written (ry_log r) \<Longrightarrow>
   ry_remoteEOF r' = ry_remoteEOF r \<Longrightarrow> (\<not> ry_returned r' \<Longrightarrow> \<not> ry_returned r) \<Longrightarrow> got_matches r' e'"
  by (auto simp: got_matches_def)

lemma sent_matches_cong:
  "sent_matches r inp e \<Longrightarrow> ep_sent e' = ep_sent e \<Longrightarrow> ry_reader r' = ry_reader r \<Longrightarrow>
   ry_localEOF r' = ry_localEOF r \<Longrightarrow> (ry_result r' = ry_result r \<or> ry_result r' = None) \<Longrightarrow> sent_matches r' inp e'"
  by (auto simp: sent_matches_def read_all_def split: reader.splits)

lemma sent_matches_close:
  "sent_matches r inp e \<Longrightarrow> call \<noteq> CallEOF \<Longrightarrow>
   sent_matches r inp (e\<lparr>ep_link := l, ep_sent := ep_sent e @ ctl_sent m l2 a call, ep_ctl := n\<rparr>)"
  by (auto simp: sent_matches_def ctl_sent_def before_eof_append)

lemma conn_matchesD:
  assumes "conn_matches l r inp e"
  shows "relay_ok r" "ep_link e = l" "ep_addr e = ry_addr r" "ep_ctl e = relay_calls r"
    "sent_matches r inp e" "got_matches r e"
  using assms by (simp_all add: conn_matches_def)

text \<open>Ending: one \<^verbatim>\<open>Close\<close> call.\<close>

lemma sim_finish:
  assumes fin: "(l', r') = finish_relay m ConnClosed l r" and r: "\<not> ry_returned r" "relay_ok r'"
    and e: "ep_link e = l" "ep_addr e = ry_addr r" "ep_ctl e = relay_calls r" "sent_matches r inp e"
    and got: "got_matches (r\<lparr>ry_returned := True\<rparr>) e"
  shows "\<exists>e'. (act m u sid)\<^sup>*\<^sup>* (e, e2) (e', e2) \<and> conn_matches l' r' inp e'"
proof -
  let ?e = "e\<lparr>ep_link := ctl_apply m (ep_link e) (ep_addr e) CallClose,
    ep_sent := ep_sent e @ ctl_sent m (ep_link e) (ep_addr e) CallClose, ep_ctl := ep_ctl e + 1\<rparr>"
  have "ep_ctl e < recvSlack" using e(3) relay_calls_bound [of r] by (simp add: recvSlack_def)
  then have "act m u sid (e, e2) (?e, e2)" by (rule act_ctl)
  moreover have "sent_matches r' inp ?e"
    by (rule sent_matches_cong [OF sent_matches_close [OF e(4), of CallClose]])
      (use fin in \<open>auto simp: finish_eq\<close>)
  moreover have "got_matches r' ?e"
    by (rule got_matches_cong [OF got]) (use fin in \<open>auto simp: finish_eq\<close>)
  ultimately show ?thesis
    using fin r e by (intro exI [of _ ?e]) (auto simp: conn_matches_def finish_eq relay_calls_def)
qed

lemma sim_finish_now:
  assumes "(l', r') = finish_relay m ConnClosed l r1" "conn_matches l r inp e" "\<not> ry_returned r" "relay_ok r'"
    and "ry_addr r1 = ry_addr r" "ry_returned r1 = ry_returned r" "ry_localEOF r1 = ry_localEOF r"
    "ry_reader r1 = ry_reader r" "ry_log r1 = ry_log r" "ry_remoteEOF r1 = ry_remoteEOF r"
    "ry_result r1 = ry_result r \<or> ry_result r1 = None"
  shows "\<exists>e'. (act m u sid)\<^sup>*\<^sup>* (e, e2) (e', e2) \<and> conn_matches l' r' inp e'"
proof (rule sim_finish [OF assms(1)])
  note c = conn_matchesD [OF assms(2)]
  show "sent_matches r1 inp e" by (rule sent_matches_cong [OF c(5)]) (use assms in auto)
  show "got_matches (r1\<lparr>ry_returned := True\<rparr>) e" by (rule got_matches_cong [OF c(6)]) (use assms in auto)
qed (use assms conn_matchesD [OF assms(2)] in \<open>auto simp: relay_calls_def\<close>)

lemma sim_reader_send:
  assumes step: "reader_send m pick now l r = Some (l', r')" and c: "conn_matches l r inp e"
  shows "\<exists>e'. (act m u sid)\<^sup>*\<^sup>* (e, e2) (e', e2) \<and> conn_matches l' r' inp e'"
proof -
  obtain k p err where rd: "ry_reader r = Sending k p err"
    using step by (auto simp: reader_send_def split: reader.splits)
  obtain x where s: "SendData m pick l (ry_addr r) k p = Some (l', x)"
    using step by (auto simp: reader_send_def rd Let_def split: option.splits)
  let ?e = "e\<lparr>ep_link := l', ep_sent := ep_sent e @ (if x = None then [Data (k, p)] else []),
      ep_fail := (ep_fail e \<or> x \<noteq> None \<and> x \<noteq> Some LSessionClosed)\<rparr>"
  note d = conn_matchesD [OF c]
  have "act m u sid (e, e2) (?e, e2)"
    using s d by (intro act_send) simp
  moreover have eof: "\<not> ry_localEOF r" "Eof \<notin> set (ep_sent e)" using d rd by (auto simp: relay_ok_def sent_matches_def)
  have "ry_addr r' = ry_addr r" "relay_calls r' = relay_calls r" "got_matches r' ?e" "sent_matches r' inp ?e"
    using step s rd d(5) eof got_matches_cong [OF d(6), of ?e r']
    by (auto simp: reader_send_def sent_matches_def relay_calls_def read_all_def Let_def split: option.splits)
  then have "conn_matches l' r' inp ?e"
    using d reader_send_ok [OF step] by (simp add: conn_matches_def)
  ultimately show ?thesis by blast
qed

lemma sim_result:
  assumes step: "conn_result m l r = Some (l', r')" and r: "\<not> ry_returned r" and c: "conn_matches l r inp e"
  shows "\<exists>e'. (act m u sid)\<^sup>*\<^sup>* (e, e2) (e', e2) \<and> conn_matches l' r' inp e'"
proof -
  note d = conn_matchesD [OF c]
  have ok: "relay_ok r'" using conn_result_ok [OF step d(1) r] .
  obtain err where err: "ry_result r = Some err" using step by (auto simp: conn_result_def split: option.splits)
  then have fresh: "\<not> ry_localEOF r" "ry_reader r = Stopped" using d(1) by (auto simp: relay_ok_def)
  show ?thesis
  proof (cases "err = ReadEOF")
    case False
    then have fin: "(l', r') = finish_relay m ConnClosed l (r\<lparr>ry_result := None\<rparr>)"
      using step err by (simp add: conn_result_def Let_def)
    show ?thesis by (rule sim_finish_now [OF fin c r ok]) simp_all
  next
    case True
    let ?r = "r\<lparr>ry_result := None, ry_localEOF := True\<rparr>"
    let ?e = "e\<lparr>ep_link := ctl_apply m (ep_link e) (ep_addr e) CallEOF,
      ep_sent := ep_sent e @ ctl_sent m (ep_link e) (ep_addr e) CallEOF, ep_ctl := ep_ctl e + 1\<rparr>"
    obtain l1 x where eof: "SendEOF m l (ry_addr r) = (l1, x)" by fastforce
    have "ep_ctl e < recvSlack" using d(4) relay_calls_bound [of r] by (simp add: recvSlack_def)
    then have a: "act m u sid (e, e2) (?e, e2)" by (rule act_ctl)
    have all: "inp = carried snd (ep_sent e)" "Eof \<notin> set (ep_sent e)"
      using d(5) fresh err True by (auto simp: sent_matches_def read_all_def)
    then have "sent_matches ?r inp ?e"
      using fresh(2) by (auto simp: sent_matches_def ctl_sent_def before_eof_all) (auto simp: before_eof_def)
    then have e: "ep_link ?e = l1" "ep_addr ?e = ry_addr ?r" "ep_ctl ?e = relay_calls ?r"
      "sent_matches ?r inp ?e" "got_matches ?r ?e"
      using d eof fresh got_matches_cong [OF d(6), of ?e ?r] by (auto simp: relay_calls_def)
    show ?thesis
    proof (cases "x \<noteq> None \<or> ry_remoteEOF r")
      case True
      then have fin: "(l', r') = finish_relay m ConnClosed l1 ?r"
        using step err \<open>err = ReadEOF\<close> eof by (simp add: conn_result_def Let_def)
      have "\<exists>e'. (act m u sid)\<^sup>*\<^sup>* (?e, e2) (e', e2) \<and> conn_matches l' r' inp e'"
        by (rule sim_finish [OF fin _ ok e(1-4)]) (use r got_matches_cong [OF e(5)] in auto)
      then show ?thesis by (rule act_first [OF a])
    next
      case False
      then have "l' = l1" "r' = ?r" using step err \<open>err = ReadEOF\<close> eof by (simp_all add: conn_result_def Let_def)
      then have "conn_matches l' r' inp ?e" using e ok by (simp add: conn_matches_def)
      then show ?thesis using a by blast
    qed
  qed
qed

text \<open>A frame that is not data is taken from the queue without further effect at this end.\<close>

lemma sim_pop_other:
  assumes "conn_matches l r inp e" "s_recv (sess l (ry_addr r)) = f # fs" "f_Type f \<noteq> FrameData"
  shows "act m u sid (e, e2) (e\<lparr>ep_link := pop_recv (ry_addr r) l, ep_got := ep_got e @ got_item f\<rparr>, e2)"
  using act_take [of e f fs "pop_recv (ry_addr r) l" m u sid e2] assms conn_matchesD [OF assms(1)]
  by (simp add: ep_sess_def)

text \<open>A data frame whose bytes are written, all of them or only the first \<open>k\<close>.\<close>

lemma sim_recv_data:
  assumes c: "conn_matches l r inp e" and r: "\<not> ry_returned r" and ok: "relay_ok r'"
    and q: "s_recv (sess l (ry_addr r)) = f # fs" "f_Type f = FrameData"
    and l: "l' = AckData m (pop_recv (ry_addr r) l) (ry_addr r)"
    and r': "r' = r\<lparr>ry_log := ry_log r @ [Wrote (f_Payload f)], ry_idle := touch now (ry_idle r)\<rparr>"
  shows "\<exists>e'. (act m u sid)\<^sup>*\<^sup>* (e, e2) (e', e2) \<and> conn_matches l' r' inp e'"
proof -
  note d = conn_matchesD [OF c]
  let ?l = "pop_recv (ry_addr r) l"
  let ?e = "e\<lparr>ep_link := AckData m ?l (ry_addr r), ep_got := ep_got e @ got_item f,
      ep_fail := (ep_fail e \<or> ack_lost m ?l (ry_addr r))\<rparr>"
  have "act m u sid (e, e2) (?e, e2)" using act_take [of e f fs ?l m u sid e2] q d by (simp add: ep_sess_def)
  moreover have "sent_matches r' inp ?e" by (rule sent_matches_cong [OF d(5)]) (simp_all add: r')
  then have "conn_matches l' r' inp ?e"
    using d ok l r' q got_matches_data(1) [OF d(6) r] by (simp add: conn_matches_def relay_calls_def)
  ultimately show ?thesis by blast
qed

lemma sim_recv_short_write:
  assumes c: "conn_matches l r inp e" and r: "\<not> ry_returned r" and ok: "relay_ok r'"
    and q: "s_recv (sess l (ry_addr r)) = f # fs" "f_Type f = FrameData"
    and fin: "(l', r') = finish_relay m ConnClosed (pop_recv (ry_addr r) l) (r\<lparr>ry_log := ry_log r @ [Wrote (take k (f_Payload f))]\<rparr>)"
  shows "\<exists>e'. (act m u sid)\<^sup>*\<^sup>* (e, e2) (e', e2) \<and> conn_matches l' r' inp e'"
proof -
  note d = conn_matchesD [OF c]
  let ?e = "e\<lparr>ep_link := pop_recv (ry_addr r) l, ep_got := ep_got e @ got_item f, ep_fail := True\<rparr>"
  have a: "act m u sid (e, e2) (?e, e2)" using act_abandon [of e f fs m u sid e2] q d by (simp add: ep_sess_def)
  have "\<exists>e'. (act m u sid)\<^sup>*\<^sup>* (?e, e2) (e', e2) \<and> conn_matches l' r' inp e'"
    by (rule sim_finish [OF fin _ ok])
      (use d r got_matches_data(2) [OF d(6) r] q(2) sent_matches_cong [OF d(5)] in \<open>auto simp: relay_calls_def\<close>)
  then show ?thesis by (rule act_first [OF a])
qed

lemma sim_recv:
  assumes step: "conn_recv m werr now l r = Some (l', r')" and r: "\<not> ry_returned r" and c: "conn_matches l r inp e"
  shows "\<exists>e'. (act m u sid)\<^sup>*\<^sup>* (e, e2) (e', e2) \<and> conn_matches l' r' inp e'"
proof -
  note d = conn_matchesD [OF c]
  have ok: "relay_ok r'" using conn_recv_ok [OF step d(1) r] .
  let ?l = "pop_recv (ry_addr r) l"
  have pop: "act m u sid (e, e2) (e\<lparr>ep_link := ?l, ep_got := ep_got e @ got_item f\<rparr>, e2)"
    if "s_recv (sess l (ry_addr r)) = f # fs" "f_Type f \<noteq> FrameData" for f fs
    by (rule sim_pop_other [OF c that])
  have sm: "ep_sent e' = ep_sent e \<Longrightarrow> ry_reader r2 = ry_reader r \<Longrightarrow> ry_localEOF r2 = ry_localEOF r \<Longrightarrow>
      ry_result r2 = ry_result r \<Longrightarrow> sent_matches r2 inp e'" for e' r2
    using sent_matches_cong [OF d(5)] by blast
  show ?thesis
    using step
  proof (cases rule: conn_recv_cases)
    case (data_ok f fs)
    show ?thesis by (rule sim_recv_data [OF c r ok data_ok(1,2)]) (use data_ok in simp_all)
  next
    case (data_fail f fs k)
    show ?thesis by (rule sim_recv_short_write [OF c r ok data_fail(1,2)]) (use data_fail in simp_all)
  next
    case (eof_end f fs)
    let ?e = "e\<lparr>ep_link := ?l, ep_got := ep_got e @ got_item f\<rparr>"
    have a: "act m u sid (e, e2) (?e, e2)" using pop [OF eof_end(1)] eof_end(2) by simp
    have g: "got_matches (r\<lparr>ry_remoteEOF := True, ry_log := ry_log r @ [HalfClosed]\<rparr>) ?e"
      using got_matches_eof [OF d(6) r] eof_end(2) by simp
    have "\<exists>e'. (act m u sid)\<^sup>*\<^sup>* (?e, e2) (e', e2) \<and> conn_matches l' r' inp e'"
      by (rule sim_finish [OF eof_end(4) _ ok])
        (use d r got_matches_cong [OF g] in \<open>auto simp: relay_calls_def sm\<close>)
    then show ?thesis by (rule act_first [OF a])
  next
    case (eof_half f fs)
    have "conn_matches l' r' inp (e\<lparr>ep_link := ?l, ep_got := ep_got e @ got_item f\<rparr>)"
      using d eof_half ok got_matches_eof [OF d(6) r] by (simp add: conn_matches_def relay_calls_def sm)
    then show ?thesis using pop [OF eof_half(1)] eof_half(2) by auto
  next
    case (ending f fs)
    let ?e = "e\<lparr>ep_link := ?l, ep_got := ep_got e @ got_item f\<rparr>"
    have ty: "f_Type f \<notin> {FrameData, FrameEOF}" using ending(2) by (auto simp: frame_type_defs)
    then have a: "act m u sid (e, e2) (?e, e2)" using pop [OF ending(1)] by simp
    have "\<exists>e'. (act m u sid)\<^sup>*\<^sup>* (?e, e2) (e', e2) \<and> conn_matches l' r' inp e'"
      by (rule sim_finish [OF ending(3) _ ok])
        (use d r got_matches_cong [OF got_matches_other [OF d(6) ty]] in \<open>auto simp: relay_calls_def sm\<close>)
    then show ?thesis by (rule act_first [OF a])
  next
    case (other f fs)
    have "conn_matches l' r' inp (e\<lparr>ep_link := ?l, ep_got := ep_got e @ got_item f\<rparr>)"
      using d other ok got_matches_other [OF d(6)] by (simp add: conn_matches_def sm)
    then show ?thesis using pop [OF other(1)] other(2) by auto
  qed
qed

lemma sim_idle:
  assumes step: "relay_idle m ConnClosed now l r = Some (l', r')" and r: "\<not> ry_returned r"
    and c: "conn_matches l r inp e"
  shows "\<exists>e'. (act m u sid)\<^sup>*\<^sup>* (e, e2) (e', e2) \<and> conn_matches l' r' inp e'"
  using step
proof (cases rule: relay_idle_cases)
  case expire
  have "relay_ok r'" using relay_idle_ok [OF step conn_matchesD(1) [OF c] r] .
  then show ?thesis by (rule sim_finish_now [OF expire(3) c r]) simp_all
next
  case rearm
  note d = conn_matchesD [OF c]
  have "conn_matches l' r' inp e"
    using rearm d sent_matches_cong [OF d(5), of e r'] got_matches_cong [OF d(6), of e r']
    by (simp add: conn_matches_def relay_calls_def)
  then show ?thesis by blast
qed

text \<open>Every step of a relay is a sequence of protocol actions at its end.\<close>

lemma RelayConn_protocol:
  assumes "RelayConn_step m l r ev = Some (l', r')" "conn_matches l r inp e"
  shows "\<exists>e'. (act m u sid)\<^sup>*\<^sup>* (e, e2) (e', e2) \<and> conn_matches l' r' (inp @ event_input ev) e'"
proof -
  have fin: ?thesis if "\<not> ry_returned r" "(l', r') = finish_relay m ConnClosed l r" "event_input ev = []"
  proof -
    have "relay_ok r'" using RelayConn_ok [OF assms(1)] assms(2) by (simp add: conn_matches_def)
    then show ?thesis using sim_finish_now [OF that(2) assms(2) that(1)] that(3) by simp
  qed
  show ?thesis
    using assms(1)
  proof (cases rule: RelayConn_cases)
    case (read payload err)
    note d = conn_matchesD [OF assms(2)]
    have rd: "ry_reader r = Reading" using read(2) by (simp add: conn_read_def split: if_splits)
    then have eof: "\<not> ry_localEOF r" "ry_result r = None" using d(1) by (auto simp: relay_ok_def)
    have same: "ry_addr r' = ry_addr r" "ry_log r' = ry_log r" "ry_remoteEOF r' = ry_remoteEOF r"
      "ry_returned r' = ry_returned r" "ry_localEOF r' = ry_localEOF r"
      using read(2) by (auto simp: conn_read_def split: if_splits option.splits)
    have "sent_matches r' (inp @ payload) e"
      using read(2) rd eof d(5) by (auto simp: conn_read_def sent_matches_def split: if_splits option.splits)
    moreover have "got_matches r' e" by (rule got_matches_cong [OF d(6)]) (use same in simp_all)
    ultimately have "conn_matches l' r' (inp @ event_input ev) e"
      using d read(1,3) same conn_read_ok [OF read(2) d(1)]
      by (simp add: conn_matches_def relay_calls_def event_input_def)
    then show ?thesis by blast
  next
    case (send pick now)
    then show ?thesis using sim_reader_send [OF send(2) assms(2)] by (simp add: event_input_def)
  next
    case result
    then show ?thesis using sim_result [OF result(3,2) assms(2)] by (simp add: event_input_def)
  next
    case (recv werr now)
    then show ?thesis using sim_recv [OF recv(3,2) assms(2)] by (simp add: event_input_def)
  next
    case (idle now)
    then show ?thesis using sim_idle [OF idle(3,2) assms(2)] by (simp add: event_input_def)
  qed (use fin in \<open>auto simp: event_input_def\<close>)
qed

lemma conn_matches_link:
  "conn_matches l r inp e \<Longrightarrow> conn_matches l' r inp (e\<lparr>ep_link := l'\<rparr>)"
  by (simp add: conn_matches_def sent_matches_def got_matches_def)

section \<open>Two relays and the tunnel between them\<close>

definition conn_out :: "conn_call relay \<Rightarrow> bytes" where
  "conn_out r = written (ry_log r)"

definition relay_alive :: "'w relay \<Rightarrow> bool" where
  "relay_alive r \<longleftrightarrow> \<not> ry_returned r"

definition relay_drained :: "'w relay \<Rightarrow> bool" where
  "relay_drained r \<longleftrightarrow> ry_reader r = Reading"

interpretation conn_client:
  session_client RelayConn_step event_input snd conn_matches conn_out ry_addr relay_alive relay_drained ry_remoteEOF
proof
  show "\<exists>rest. inp = carried snd (ep_sent e) @ rest \<and> (relay_drained s \<longrightarrow> rest = [])"
    if "conn_matches l s inp e" for l s inp e
    using that by (auto simp: conn_matches_def sent_matches_def relay_drained_def)
  show "\<exists>rest. carried snd (ep_got e) = conn_out s @ rest \<and> (relay_alive s \<longrightarrow> rest = [])"
    if "conn_matches l s inp e" for l s inp e
    using that by (auto simp: conn_matches_def got_matches_def relay_alive_def conn_out_def)
  show "inp = carried snd (before_eof (ep_sent e))"
    if "conn_matches l s inp e" "Eof \<in> set (ep_sent e)" for l s inp e
    using that by (auto simp: conn_matches_def sent_matches_def read_all_def relay_ok_def)
  show "Eof \<in> set (ep_got e) \<and> (\<exists>more. conn_out s = carried snd (before_eof (ep_got e)) @ more)"
    if "conn_matches l s inp e" "ry_remoteEOF s" for l s inp e
    using that by (simp add: conn_matches_def got_matches_def conn_out_def)
qed (use RelayConn_protocol conn_matches_link in \<open>auto simp: conn_matches_def\<close>)

interpretation conn_pair:
  session_pair RelayConn_step event_input snd conn_matches conn_out ry_addr relay_alive relay_drained ry_remoteEOF
    RelayConn_step event_input conn_matches conn_out ry_addr relay_alive relay_drained ry_remoteEOF
  by unfold_locales

type_synonym conn_party = "(conn_call relay, char) party"

text \<open>The session has just been opened at one end and accepted at the other; two new relays start on it.\<close>

definition pipe_start :: "frame unmarshal \<Rightarrow> string \<Rightarrow> conn_party \<times> conn_party \<Rightarrow> bool" where
  "pipe_start u sid s \<longleftrightarrow>
     (\<exists>c. established u sid c \<and>
        conn_matches (pa_link (fst s)) (pa_state (fst s)) (pa_in (fst s)) (fst c) \<and>
        conn_matches (pa_link (snd s)) (pa_state (snd s)) (pa_in (snd s)) (snd c))"

abbreviation conn_pipe_step ::
  "frame marshal \<Rightarrow> frame unmarshal \<Rightarrow> string \<Rightarrow> conn_party \<times> conn_party \<Rightarrow> conn_party \<times> conn_party \<Rightarrow> bool" where
  "conn_pipe_step \<equiv> pair_step RelayConn_step event_input RelayConn_step event_input"

lemma pipe_start_pair:
  assumes "pipe_start u sid s"
  obtains c where "system_inv u sid c" "conn_pair.pair_matches s c"
  using assms by (cases s) (auto simp: pipe_start_def conn_pair.pair_matches_def intro: established_inv)

section \<open>Runs of one relay\<close>

definition event_time :: "conn_event \<Rightarrow> int option" where
  "event_time ev =
     (case ev of RcSend _ now \<Rightarrow> Some now | RcRecv _ now \<Rightarrow> Some now | RcIdle now \<Rightarrow> Some now | _ \<Rightarrow> None)"

text \<open>
  A relay and the clock. Between two steps the link may become any other link: what these
  runs show does not depend on the rest of the program.
\<close>

inductive relay_run :: "frame marshal \<Rightarrow> conn_call relay \<times> int \<Rightarrow> conn_call relay \<times> int \<Rightarrow> bool"
  for m s where
  run_start: "relay_run m s s"
| run_step: "relay_run m s (r, clock) \<Longrightarrow> RelayConn_step m l r ev = Some (l', r') \<Longrightarrow>
    clock' = (case event_time ev of None \<Rightarrow> clock | Some t \<Rightarrow> t) \<Longrightarrow> clock \<le> clock' \<Longrightarrow>
    relay_run m s (r', clock')"

definition idle_ok :: "int \<Rightarrow> conn_call relay \<Rightarrow> int \<Rightarrow> bool" where
  "idle_ok T r clock \<longleftrightarrow>
     ig_timeout (ry_idle r) = T \<and> ig_last (ry_idle r) \<le> clock \<and>
     (\<not> ry_returned r \<longrightarrow>
        (case ig_timer (ry_idle r) of
           None \<Rightarrow> T \<le> 0 | Some t \<Rightarrow> T > 0 \<and> t \<le> ig_last (ry_idle r) + T))"

lemma idle_ok_finish:
  "idle_ok T r clock \<Longrightarrow> (l', r') = finish_relay m c l r \<Longrightarrow> idle_ok T r' clock"
  by (simp add: idle_ok_def finish_eq idle_stop_def)

lemma idle_ok_same:
  "idle_ok T r clock \<Longrightarrow> ry_idle r' = ry_idle r \<Longrightarrow> ry_returned r' = ry_returned r \<Longrightarrow> idle_ok T r' clock"
  unfolding idle_ok_def by metis

lemma idle_ok_stopped:
  "idle_ok T r clock \<Longrightarrow> ry_idle r' = idle_stop (ry_idle r) \<Longrightarrow> ry_returned r' \<Longrightarrow> idle_ok T r' clock"
  by (simp add: idle_ok_def idle_stop_def)

lemma idle_ok_touch:
  "idle_ok T r clock \<Longrightarrow> clock \<le> now \<Longrightarrow> ry_idle r' = touch now (ry_idle r) \<Longrightarrow>
   ry_returned r' = ry_returned r \<Longrightarrow> idle_ok T r' now"
  by (auto simp: idle_ok_def touch_def split: option.splits)

lemma idle_ok_clock: "idle_ok T r clock \<Longrightarrow> clock \<le> now \<Longrightarrow> idle_ok T r now"
  by (auto simp: idle_ok_def)

lemma idle_ok_step:
  assumes "RelayConn_step m l r ev = Some (l', r')" "idle_ok T r clock"
    and "clock' = (case event_time ev of None \<Rightarrow> clock | Some t \<Rightarrow> t)" "clock \<le> clock'"
  shows "idle_ok T r' clock'"
  using assms(1)
proof (cases rule: RelayConn_cases)
  case (read payload err)
  then have "ry_idle r' = ry_idle r \<and> ry_returned r' = ry_returned r"
    by (auto simp: conn_read_def split: if_splits option.splits)
  then show ?thesis using assms read idle_ok_same by (auto simp: event_time_def)
next
  case (send pick now)
  then have "clock' = now" using assms(3) by (simp add: event_time_def)
  moreover have "(ry_idle r' = ry_idle r \<or> ry_idle r' = touch now (ry_idle r)) \<and> ry_returned r' = ry_returned r"
    using send by (auto simp: reader_send_def Let_def split: reader.splits option.splits)
  ultimately show ?thesis
    using assms(2,4) idle_ok_touch idle_ok_same idle_ok_clock by metis
next
  case result
  then have "clock' = clock" using assms(3) by (simp add: event_time_def)
  moreover have "ry_idle r' = ry_idle r \<and> ry_returned r' = ry_returned r \<or>
      ry_idle r' = idle_stop (ry_idle r) \<and> ry_returned r'"
    using result by (auto simp: conn_result_def finish_relay_def Let_def split: option.splits prod.splits if_splits)
  ultimately show ?thesis using assms(2) idle_ok_same idle_ok_stopped by metis
next
  case (recv werr now)
  then have cl: "clock' = now" using assms(3) by (simp add: event_time_def)
  then have now: "idle_ok T r now" using idle_ok_clock assms(2,4) by metis
  show ?thesis
    using recv(3)
  proof (cases rule: conn_recv_cases)
    case (data_ok f fs)
    then show ?thesis using idle_ok_touch [OF assms(2), of now r'] assms(4) cl by simp
  next
    case (eof_half f fs)
    then show ?thesis using idle_ok_same [OF now, of r'] cl by simp
  next
    case (other f fs)
    then show ?thesis using now cl by simp
  qed (use now cl idle_ok_finish idle_ok_same in \<open>force simp: finish_eq idle_ok_def idle_stop_def\<close>)+
next
  case (idle now)
  then have cl: "clock' = now" using assms(3) by (simp add: event_time_def)
  then have now: "idle_ok T r now" using idle_ok_clock assms(2,4) by metis
  show ?thesis
    using idle(3)
  proof (cases rule: relay_idle_cases)
    case expire
    then show ?thesis using now cl by (simp add: finish_eq idle_ok_def idle_stop_def)
  next
    case rearm
    then show ?thesis
      using now cl idle(2) by (auto simp: idle_ok_def timer_ready_def split: option.splits)
  qed
qed (use assms idle_ok_finish in \<open>auto simp: event_time_def\<close>)

lemma relay_run_inv:
  assumes "relay_run m s s'" "s = (new_relay a T t0, t0)" "s' = (r, clock)"
  shows "relay_ok r \<and> idle_ok T r clock"
  using assms
proof (induction arbitrary: r clock)
  case run_start
  then show ?case by (auto simp: new_relay_def newIdleGuard_def idle_ok_def relay_ok_def)
next
  case (run_step r1 clock1 l ev l' r' clock')
  then show ?case using RelayConn_ok idle_ok_step by blast
qed

section \<open>Properties\<close>

text \<open>
  C1. A TCP (or gRPC) connection through the tunnel is a transparent byte pipe. In every run
  of two relays and the tunnel between their links, with any interleaving and any activity on
  other sessions, the bytes written to the connection at one end are a prefix of the bytes
  read from the connection at the other end; and while the reading relay and its session are
  alive, once wire, queue and reader are drained they are all of them.
\<close>

theorem conn_pipe_transparent:
  assumes "codec_inverse m u" "pipe_start u sid s0" "(conn_pipe_step m u sid)\<^sup>*\<^sup>* s0 s"
    and "s = (x, y) \<or> s = (y, x)"
  shows "(\<exists>rest. pa_in x = written (ry_log (pa_state y)) @ rest) \<and>
    (\<not> ry_returned (pa_state y) \<and> Session (pa_link y) sid = Some (ry_addr (pa_state y)) \<and>
     quiet u sid (pa_link x) (pa_link y) (ry_addr (pa_state y)) \<and> ry_reader (pa_state x) = Reading \<longrightarrow>
     pa_in x = written (ry_log (pa_state y)))"
proof -
  obtain c where c: "system_inv u sid c" "conn_pair.pair_matches s0 c"
    using pipe_start_pair [OF assms(2)] by blast
  show ?thesis
    using assms(4) conn_pair.transparent [OF assms(1) c, of x y] conn_pair.transparent_back [OF assms(1) c, of y x] assms(3)
    by (auto simp: conn_out_def relay_alive_def relay_drained_def)
qed

definition sample_pipe :: "conn_party \<times> conn_party" where
  "sample_pipe =
     (\<lparr>pa_link = ep_link sample_edge, pa_state = new_relay 0 0 0, pa_in = []\<rparr>,
      \<lparr>pa_link = ep_link sample_connector, pa_state = new_relay 0 0 0, pa_in = []\<rparr>)"

lemma sample_pipe_start: "pipe_start u ''s'' sample_pipe"
proof -
  have "conn_matches l (new_relay a 0 0) [] (new_endpoint l a)" for l a
    by (simp add: conn_matches_def sent_matches_def got_matches_def relay_calls_def)
      (simp add: new_relay_def new_endpoint_def)
  moreover have "ep_link (new_endpoint l a) = l" for l a by (simp add: new_endpoint_def)
  ultimately show ?thesis
    using sample_established [of u] unfolding pipe_start_def sample_edge_def sample_connector_def sample_pipe_def
    by fastforce
qed

definition sample_run :: "(conn_event, conn_event) move list \<Rightarrow> conn_party \<times> conn_party" where
  "sample_run moves =
     run_moves RelayConn_step event_input RelayConn_step event_input sample_marshal sample_unmarshal moves sample_pipe"

lemma sample_run_reach:
  "(conn_pipe_step sample_marshal sample_unmarshal ''s'')\<^sup>*\<^sup>* sample_pipe (sample_run moves)"
  unfolding sample_run_def by (rule run_moves_reach)

text \<open>The edge's relay reads a chunk and sends it; it arrives and is written at the other end; then EOF.\<close>

definition sample_chunk :: "(conn_event, conn_event) move list" where
  "sample_chunk = [First (RcRead ''hi'' None), First (RcSend True 0), ToSecond, Second (RcRecv None 0)]"

definition sample_end :: "(conn_event, conn_event) move list" where
  "sample_end = [First (RcRead [] (Some ReadEOF)), First RcResult, ToSecond, Second (RcRecv None 0)]"

theorem conn_pipe_transparent_witness:
  "written (ry_log (pa_state (snd (sample_run sample_chunk)))) = ''hi''"
proof -
  let ?x = "fst (sample_run sample_chunk)" and ?y = "snd (sample_run sample_chunk)"
  have "pa_in ?x = ''hi''" by code_simp
  moreover have "\<not> ry_returned (pa_state ?y)" by code_simp
  moreover have "Session (pa_link ?y) ''s'' = Some (ry_addr (pa_state ?y))" by code_simp
  moreover have "quiet sample_unmarshal ''s'' (pa_link ?x) (pa_link ?y) (ry_addr (pa_state ?y))" by code_simp
  moreover have "ry_reader (pa_state ?x) = Reading" by code_simp
  ultimately show ?thesis
    using conn_pipe_transparent [OF sample_codec sample_pipe_start sample_run_reach, of sample_chunk ?x ?y] by simp
qed

text \<open>
  C9. The end of a stream is passed on after all of it. When a relay has half-closed its
  connection because the other end's EOF arrived, what it has written to the connection is
  everything the other relay read from its connection before EOF: a half-close never
  truncates the stream, in any run of the two relays and the tunnel.
\<close>

theorem half_close_after_all_data:
  assumes "codec_inverse m u" "pipe_start u sid s0" "(conn_pipe_step m u sid)\<^sup>*\<^sup>* s0 s"
    and "s = (x, y) \<or> s = (y, x)" "HalfClosed \<in> set (ry_log (pa_state y))"
  shows "written (ry_log (pa_state y)) = pa_in x"
proof -
  obtain c where c: "system_inv u sid c" "conn_pair.pair_matches s0 c"
    using pipe_start_pair [OF assms(2)] by blast
  have "ry_remoteEOF (pa_state y)"
  proof -
    obtain c' where "conn_pair.pair_matches s c'" using conn_pair.run_protocol [OF assms(3) c(2)] by blast
    then have "relay_ok (pa_state y)"
      using assms(4) by (auto simp: conn_pair.pair_matches_def conn_matches_def split: prod.splits)
    then show ?thesis using assms(5) by (simp add: relay_ok_def)
  qed
  then show ?thesis
    using assms(4) conn_pair.eof_complete [OF assms(1) c, of x y] conn_pair.eof_complete [OF assms(1) c, of y x] assms(3)
    by (auto simp: conn_out_def)
qed

theorem half_close_after_all_data_witness:
  "written (ry_log (pa_state (snd (sample_run (sample_chunk @ sample_end))))) = ''hi''"
proof -
  let ?x = "fst (sample_run (sample_chunk @ sample_end))" and ?y = "snd (sample_run (sample_chunk @ sample_end))"
  have "pa_in ?x = ''hi''" by code_simp
  moreover have "HalfClosed \<in> set (ry_log (pa_state ?y))" by code_simp
  ultimately show ?thesis
    using half_close_after_all_data [OF sample_codec sample_pipe_start sample_run_reach, of "sample_chunk @ sample_end" ?x ?y]
    by simp
qed

text \<open>
  Two relays never break flow control: in every run of two relays and the tunnel, the next
  data or control frame that arrives for a session still in the table finds room in its queue.
  A relay sends at most two control frames, so the slack of eight is enough.
\<close>

theorem relays_never_violate_flow_control:
  assumes "codec_inverse m u" "pipe_start u sid s0" "(conn_pipe_step m u sid)\<^sup>*\<^sup>* s0 s"
    and "s = (x, y) \<or> s = (y, x)" "Session (pa_link y) sid = Some (ry_addr (pa_state y))"
  shows "room_for_next m u sid pick (pa_link x) (pa_link y) (ry_addr (pa_state y))"
proof -
  obtain c where c: "system_inv u sid c" "conn_pair.pair_matches s0 c"
    using pipe_start_pair [OF assms(2)] by blast
  show ?thesis
    using assms(4) conn_pair.no_violation [OF assms(1) c, of x y pick] conn_pair.no_violation [OF assms(1) c, of y x pick]
      assms(3,5)
    by auto
qed

theorem relays_never_violate_flow_control_witness:
  "let y = pa_link (snd sample_pipe) in
   dispatch sample_marshal True y sample_data = upd_sess 0 (\<lambda>z. z\<lparr>s_recv := [sample_data]\<rparr>) y"
proof -
  let ?s = "sample_run (take 2 sample_chunk)"
  have "l_out (pa_link (fst ?s)) = [''d'']" by code_simp
  moreover have "DecodeFrame sample_unmarshal ''d'' = Inr sample_data" by code_simp
  moreover have "f_SessionID sample_data = ''s''" "f_Type sample_data \<noteq> FrameWindow"
    by (simp_all add: sample_data_def)
  moreover have "snd ?s = snd sample_pipe" by (simp add: sample_run_def sample_chunk_def run_moves_def)
  moreover have "Session (pa_link (snd sample_pipe)) ''s'' = Some 0" "ry_addr (pa_state (snd sample_pipe)) = 0"
    "s_recv (sess (pa_link (snd sample_pipe)) 0) = []" by code_simp+
  ultimately show ?thesis
    using relays_never_violate_flow_control [OF sample_codec sample_pipe_start sample_run_reach,
        of "take 2 sample_chunk" "fst ?s" "snd ?s" True]
    by (simp add: room_for_next_def Let_def) (metis prod.collapse)
qed

text \<open>
  What ends a TCP relay. A step of a running relay ends it exactly when the context or the
  session is done; when reading failed, or reached EOF after the other end's EOF or with the
  EOF frame unsendable; when a write failed; when the other end's EOF arrives after the local
  one, or its close or error frame; or when nothing moved for the idle timeout. A one-sided
  EOF never does.
\<close>

theorem RelayConn_ends_iff:
  assumes "RelayConn_step m l r ev = Some (l', r')" "\<not> ry_returned r"
  shows "ry_returned r' \<longleftrightarrow>
    (case ev of
       RcRead _ _ \<Rightarrow> False
     | RcSend _ _ \<Rightarrow> False
     | RcCtx \<Rightarrow> True
     | RcDone \<Rightarrow> True
     | RcResult \<Rightarrow> ry_result r \<noteq> Some ReadEOF \<or> ry_remoteEOF r \<or> snd (SendEOF m l (ry_addr r)) \<noteq> None
     | RcRecv werr _ \<Rightarrow>
         (let f = hd (s_recv (sess l (ry_addr r))) in
          f_Type f = FrameData \<and> werr \<noteq> None \<or> f_Type f = FrameEOF \<and> ry_localEOF r \<or>
          f_Type f = FrameClose \<or> f_Type f = FrameError)
     | RcIdle now \<Rightarrow> now - ig_last (ry_idle r) \<ge> ig_timeout (ry_idle r))"
  using assms(1)
proof (cases rule: RelayConn_cases)
  case (read payload err)
  then show ?thesis using assms(2) by (auto simp: conn_read_def split: if_splits option.splits)
next
  case (send pick now)
  then show ?thesis using assms(2) by (auto simp: reader_send_def Let_def split: reader.splits option.splits)
next
  case result
  then show ?thesis
    using assms(2) by (auto simp: conn_result_def finish_relay_def Let_def split: option.splits prod.splits if_splits)
next
  case (recv werr now)
  show ?thesis
    using recv(3)
    by (cases rule: conn_recv_cases) (use assms(2) recv(1) in \<open>auto simp: finish_eq frame_type_defs\<close>)
next
  case (idle now)
  show ?thesis
    using idle(3) by (cases rule: relay_idle_cases) (use assms(2) idle(1) in \<open>simp_all add: finish_eq\<close>)
qed (simp_all add: finish_eq)

theorem RelayConn_ends_iff_witness:
  "\<exists>l' r'. RelayConn_step sample_marshal (ep_link sample_edge) (new_relay 0 0 0) RcCtx = Some (l', r') \<and> ry_returned r'"
proof -
  obtain l' r' where s: "RelayConn_step sample_marshal (ep_link sample_edge) (new_relay 0 0 0) RcCtx = Some (l', r')"
    by (simp add: RelayConn_step_def new_relay_def finish_relay_def)
  moreover have "\<not> ry_returned (new_relay 0 0 0)" by (simp add: new_relay_def)
  ultimately have "ry_returned r'" using RelayConn_ends_iff [OF s] by simp
  then show ?thesis using s by blast
qed

text \<open>
  The life of a TCP relay: as long as it runs, its connection is open, and EOF has not been
  seen on both sides; the write side is half-closed exactly when the other end's EOF has
  arrived; when it has ended the connection is closed, once and as the last call on it.
\<close>

theorem RelayConn_lifecycle:
  assumes "relay_run m (new_relay a T t0, t0) (r, clock)"
  shows "(ry_remoteEOF r \<longleftrightarrow> HalfClosed \<in> set (ry_log r)) \<and>
    (\<not> ry_returned r \<longrightarrow> \<not> (ry_localEOF r \<and> ry_remoteEOF r) \<and> ConnClosed \<notin> set (ry_log r)) \<and>
    (ry_returned r \<longrightarrow> (\<exists>cs. ry_log r = cs @ [ConnClosed] \<and> ConnClosed \<notin> set cs))"
  using relay_run_inv [OF assms refl refl] by (auto simp: relay_ok_def split: if_splits)

theorem RelayConn_lifecycle_witness:
  "\<exists>l' r'. RelayConn_step sample_marshal (ep_link sample_edge) (new_relay 0 0 0) RcCtx = Some (l', r') \<and>
     (\<exists>cs. ry_log r' = cs @ [ConnClosed] \<and> ConnClosed \<notin> set cs)"
proof -
  obtain l' r' where s: "RelayConn_step sample_marshal (ep_link sample_edge) (new_relay 0 0 0) RcCtx = Some (l', r')"
    and r: "ry_returned r'"
    by (simp add: RelayConn_step_def new_relay_def finish_relay_def)
  have "relay_run sample_marshal (new_relay 0 0 0, 0) (r', 0)"
    using run_step [OF run_start s] by (simp add: event_time_def)
  from RelayConn_lifecycle [OF this] show ?thesis using s r by blast
qed

text \<open>
  C33. The idle timeout of a TCP relay is exact. While the relay runs, its timer is armed no
  later than the last activity plus the timeout, and when it fires the relay ends exactly if
  nothing has moved for the timeout; with the timeout disabled it never fires.
\<close>

theorem idle_timeout_exact:
  assumes "relay_run m (new_relay a T t0, t0) (r, clock)" "\<not> ry_returned r"
  shows "(T > 0 \<longrightarrow> (\<exists>t. ig_timer (ry_idle r) = Some t \<and> t \<le> ig_last (ry_idle r) + T)) \<and>
    (T \<le> 0 \<longrightarrow> RelayConn_step m l r (RcIdle now) = None) \<and>
    (RelayConn_step m l r (RcIdle now) = Some (l', r') \<longrightarrow>
       (ry_returned r' \<longleftrightarrow> now \<ge> ig_last (ry_idle r) + T))"
proof -
  have inv: "idle_ok T r clock" using relay_run_inv [OF assms(1) refl refl] by simp
  have "ry_returned r' \<longleftrightarrow> now \<ge> ig_last (ry_idle r) + T" if "relay_idle m ConnClosed now l r = Some (l', r')"
    using that by (cases rule: relay_idle_cases)
      (use assms(2) inv in \<open>auto simp: finish_eq idle_ok_def\<close>)
  moreover have "relay_idle m ConnClosed now l r = None" if "T \<le> 0"
    using that inv assms(2)
    by (auto simp: relay_idle_def timer_ready_def idle_ok_def split: option.splits)
  ultimately show ?thesis
    using inv assms(2) by (auto simp: RelayConn_step_def idle_ok_def split: option.splits)
qed

theorem idle_timeout_exact_witness:
  "\<exists>t. ig_timer (ry_idle (new_relay 0 5 100 :: conn_call relay)) = Some t \<and> t \<le> 105"
  using idle_timeout_exact [OF run_start [of sample_marshal "(new_relay 0 5 100, 100)"]]
  by (simp add: new_relay_def newIdleGuard_def)

end
