(* ===== verification/Edge_Data.thy ===== *)
theory Edge_Data
  imports Edge_Routes Data_Relay
begin

text \<open>
  Package \<^verbatim>\<open>internal/edge\<close>, \<^verbatim>\<open>data.go\<close>: the registry of connector tunnels, the handler that admits
  them, the acceptance and claiming of response streams, and the opening of data sessions.

  Links are pointers: \<open>es_links\<close> is the store of all links the edge ever made and the registry
  maps connector ids to indices into it. NATS is outside the repository: a request is a
  function from subject and payload to a reply or an error, an argument of the definitions
  that use it. Loops that poll take the list of what each turn observes; \<open>None\<close> means that
  the list ended before the loop did.

  The lemmas state what the registry guarantees across reconnects, who is admitted, that a
  stream is claimed by one handler, and what opening a session does on each outcome.
\<close>

section \<open>The tunnel registry\<close>

record edge_state =
  es_links :: "link list"
  es_registry :: "(string \<times> nat) list"

definition newTunnelRegistry :: edge_state where
  "newTunnelRegistry = \<lparr>es_links = [], es_registry = []\<rparr>"

definition upd_link :: "nat \<Rightarrow> (link \<Rightarrow> link) \<Rightarrow> edge_state \<Rightarrow> edge_state" where
  "upd_link a g st = st\<lparr>es_links := (es_links st)[a := g (es_links st ! a)]\<rparr>"

definition registry_get :: "edge_state \<Rightarrow> string \<Rightarrow> nat option" where
  "registry_get st connectorID = map_of (es_registry st) connectorID"

definition register :: "string \<Rightarrow> nat \<Rightarrow> edge_state \<Rightarrow> edge_state" where
  "register connectorID a st =
     (let st' = st\<lparr>es_registry := AList.update connectorID a (es_registry st)\<rparr> in
      case registry_get st connectorID of None \<Rightarrow> st' | Some old \<Rightarrow> upd_link old CloseLink st')"

definition unregister :: "string \<Rightarrow> nat \<Rightarrow> edge_state \<Rightarrow> edge_state" where
  "unregister connectorID a st =
     (if registry_get st connectorID = Some a
      then st\<lparr>es_registry := AList.delete connectorID (es_registry st)\<rparr> else st)"

definition closeAll :: "edge_state \<Rightarrow> edge_state" where
  "closeAll st = foldl (\<lambda>s e. upd_link (snd e) CloseLink s) (st\<lparr>es_registry := []\<rparr>) (es_registry st)"

section \<open>Admitting a tunnel\<close>

definition dataTunnelPath :: string where "dataTunnelPath = ''/_airpc/data''"

definition http_NotFound :: http_reply where
  "http_NotFound = http_Error ''404 page not found'' 404"

text \<open>The checks of \<^verbatim>\<open>dataHandler.ServeHTTP\<close>: the refusal, or the connector id to upgrade for.\<close>

definition dataHandler_check :: "string \<Rightarrow> http_request \<Rightarrow> (http_reply, string) result" where
  "dataHandler_check token req =
     (if hq_Path req \<noteq> dataTunnelPath then Inl http_NotFound
      else
        let id0 = Query_Get (hq_RawQuery req) ''connector_id'';
            connectorID = (if id0 = [] then Query_Get (hq_RawQuery req) ''id'' else id0) in
        if ValidateSubjectToken ''connector_id'' connectorID \<noteq> None then
          Inl (http_Error ''invalid connector id'' 400)
        else if token \<noteq> [] \<and> Query_Get (hq_RawQuery req) ''token'' \<noteq> token \<and>
                header_Get (hq_Header req) ''Authorization'' \<noteq> ''Bearer '' @ token then
          Inl (http_Error ''unauthorized'' 401)
        else Inr connectorID)"

text \<open>
  The rest of the handler: the upgrade (which may fail), the new link registered; later the
  end of \<^verbatim>\<open>Run\<close> on what was read, and the link unregistered.
\<close>

definition dataHandler_connect ::
  "string \<Rightarrow> bool \<Rightarrow> http_request \<Rightarrow> edge_state \<Rightarrow> edge_state \<times> (http_reply option, string \<times> nat) result" where
  "dataHandler_connect token upgraded req st =
     (case dataHandler_check token req of
        Inl rep \<Rightarrow> (st, Inl (Some rep))
      | Inr connectorID \<Rightarrow>
          if \<not> upgraded then (st, Inl None)
          else
            (let a = length (es_links st) in
             (register connectorID a (st\<lparr>es_links := es_links st @ [NewLink]\<rparr>), Inr (connectorID, a))))"

definition dataHandler_disconnect :: "string \<Rightarrow> nat \<Rightarrow> edge_state \<Rightarrow> edge_state" where
  "dataHandler_disconnect connectorID a st = unregister connectorID a (upd_link a CloseLink st)"

section \<open>Response streams\<close>

definition streamClaimTimeout :: int where "streamClaimTimeout = 10 * 1000000000"

text \<open>\<^verbatim>\<open>acceptStreamOpen\<close>: the session whose claim timer is started, if one was accepted.\<close>

definition acceptStreamOpen :: "link \<Rightarrow> frame \<Rightarrow> link \<times> nat option" where
  "acceptStreamOpen l f =
     (if f_Kind f \<noteq> KindHTTPStream then (l, None)
      else case Accept l (f_SessionID f) of
          (l', Inl _) \<Rightarrow> (l', None)
        | (l', Inr a) \<Rightarrow> (l', Some a))"

text \<open>What the claim timer does when it fires.\<close>

definition stream_claim_expired :: "frame marshal \<Rightarrow> link \<Rightarrow> nat \<Rightarrow> link" where
  "stream_claim_expired m l a =
     (if \<not> Claimed l a then CloseWithError m l a ''response stream was not claimed'' else l)"

datatype claim_result = ClaimedBy link nat | ClaimLost link | ClaimTimedOut

fun claim_loop :: "int \<Rightarrow> string \<Rightarrow> (link \<times> int) list \<Rightarrow> claim_result option" where
  "claim_loop deadline sid [] = None"
| "claim_loop deadline sid ((l, now) # obs) =
     (case Session l sid of
        Some a \<Rightarrow> (case TryClaim l a of (True, l') \<Rightarrow> Some (ClaimedBy l' a) | (False, l') \<Rightarrow> Some (ClaimLost l'))
      | None \<Rightarrow> if now > deadline then Some ClaimTimedOut else claim_loop deadline sid obs)"

definition claimStreamSession :: "int \<Rightarrow> string \<Rightarrow> (link \<times> int) list \<Rightarrow> claim_result option" where
  "claimStreamSession start sid obs = claim_loop (start + 2 * 1000000000) sid obs"

section \<open>Opening a data session\<close>

datatype nats_error = NatsNoResponders | NatsTimeout | NatsDeadlineExceeded | NatsOther string

type_synonym nats_request = "string \<Rightarrow> bytes \<Rightarrow> nats_error + bytes"

datatype open_error =
    OEncode tunnel_error | ONats nats_error | ODecode tunnel_error
  | OUnavailable | ORejected string | OLink link_error

definition openRequest :: "croute \<Rightarrow> string \<Rightarrow> string \<Rightarrow> int \<Rightarrow> open_request" where
  "openRequest r sessionID path deadline =
     \<lparr>oq_Version = Version, oq_RequestID = sessionID, oq_SessionID = sessionID, oq_Route = r_Name r,
      oq_Kind = r_Mode r, oq_Path = path, oq_DeadlineUnixMS = deadline\<rparr>"

definition openFrame :: "croute \<Rightarrow> string \<Rightarrow> string \<Rightarrow> frame" where
  "openFrame r sessionID path =
     (NewFrame FrameOpen sessionID)\<lparr>f_Route := r_Name r, f_Kind := r_Mode r, f_Payload := path\<rparr>"

record open_codecs =
  oc_frame :: "frame marshal"
  oc_request :: "open_request marshal"
  oc_response :: "open_response unmarshal"

definition attemptOpenDataSession ::
  "open_codecs \<Rightarrow> nats_request \<Rightarrow> int \<Rightarrow> croute \<Rightarrow> string \<Rightarrow> string \<Rightarrow> edge_state \<Rightarrow>
   edge_state \<times> (open_error, nat \<times> nat) result" where
  "attemptOpenDataSession oc nats deadline r sessionID path st =
     (case EncodeOpenRequest (oc_request oc) (openRequest r sessionID path deadline) of
        Inl e \<Rightarrow> (st, Inl (OEncode e))
      | Inr payload \<Rightarrow>
          (case nats (OpenSubject r) payload of
             Inl e \<Rightarrow> (st, Inl (ONats e))
           | Inr reply \<Rightarrow>
               (case DecodeOpenResponse (oc_response oc) reply of
                  Inl e \<Rightarrow> (st, Inl (ODecode e))
                | Inr resp \<Rightarrow>
                    if os_RequestID resp \<noteq> sessionID \<or> \<not> os_Accepted resp then
                      (st, Inl (if os_Error resp = ErrTunnelNotConnected then OUnavailable
                                else ORejected (if os_Error resp = [] then ''open rejected'' else os_Error resp)))
                    else
                      (case registry_get st (os_ConnectorID resp) of
                         None \<Rightarrow> (st, Inl OUnavailable)
                       | Some a \<Rightarrow>
                           (case Open (oc_frame oc) (es_links st ! a) (openFrame r sessionID path) of
                              (l', Inl e) \<Rightarrow> (upd_link a (\<lambda>_. l') st, Inl (OLink e))
                            | (l', Inr b) \<Rightarrow> (upd_link a (\<lambda>_. l') st, Inr (a, b)))))))"

text \<open>
  The retry loop: one element per attempt, the state of the edge at that time, NATS, and
  whether the open timeout has passed when the attempt has failed.
\<close>

fun open_loop ::
  "open_codecs \<Rightarrow> int \<Rightarrow> croute \<Rightarrow> string \<Rightarrow> string \<Rightarrow> (edge_state \<times> nats_request \<times> bool) list \<Rightarrow>
   (edge_state \<times> (open_error, nat \<times> nat) result) option" where
  "open_loop oc deadline r sessionID path [] = None"
| "open_loop oc deadline r sessionID path ((st, nats, timedOut) # rest) =
     (case attemptOpenDataSession oc nats deadline r sessionID path st of
        (st', Inr s) \<Rightarrow> Some (st', Inr s)
      | (st', Inl e) \<Rightarrow>
          if e \<noteq> OUnavailable then Some (st', Inl e)
          else if timedOut then Some (st', Inl e)
          else open_loop oc deadline r sessionID path rest)"

definition openDataSession ::
  "open_codecs \<Rightarrow> int \<Rightarrow> croute \<Rightarrow> string \<Rightarrow> string \<Rightarrow> (edge_state \<times> nats_request \<times> bool) list \<Rightarrow>
   (edge_state \<times> (open_error, nat \<times> nat) result) option" where
  "openDataSession oc now r sessionID path attempts =
     open_loop oc ((now + routeTimeout r) div 1000000) r sessionID path attempts"

text \<open>The open context expires one route timeout from \<open>now\<close>, in nanoseconds. \<^verbatim>\<open>handleTCPConn\<close> and \<^verbatim>\<open>handleWebSocketRoute\<close> up to the relay they start.\<close>

datatype 'w conn_start = ConnRefused "'w list" | ConnRelay nat nat "'w relay"

definition handleTCPConn ::
  "open_codecs \<Rightarrow> int \<Rightarrow> croute \<Rightarrow> bytes option \<Rightarrow> (edge_state \<times> nats_request \<times> bool) list \<Rightarrow>
   (edge_state option \<times> conn_call conn_start) option" where
  "handleTCPConn oc now r rand attempts =
     (case requestID rand of
        None \<Rightarrow> Some (None, ConnRefused [ConnClosed])
      | Some sessionID \<Rightarrow>
          (case openDataSession oc now r sessionID ''/'' attempts of
             None \<Rightarrow> None
           | Some (st, Inl e) \<Rightarrow> Some (Some st, ConnRefused [ConnClosed])
           | Some (st, Inr (a, b)) \<Rightarrow> Some (Some st, ConnRelay a b (new_relay b (r_IdleTimeout r) now))))"

definition handleWebSocketRoute ::
  "open_codecs \<Rightarrow> int \<Rightarrow> edge_route \<Rightarrow> string \<Rightarrow> bool \<Rightarrow> bytes option \<Rightarrow>
   (edge_state \<times> nats_request \<times> bool) list \<Rightarrow> (edge_state option \<times> ws_call conn_start) option" where
  "handleWebSocketRoute oc now r suffix upgraded rand attempts =
     (if \<not> upgraded then Some (None, ConnRefused [])
      else case requestID rand of
        None \<Rightarrow> Some (None, ConnRefused [WsCloseMessage 1011 ''session id'', WsClosed])
      | Some sessionID \<Rightarrow>
          (case openDataSession oc now (er_cfg r) sessionID suffix attempts of
             None \<Rightarrow> None
           | Some (st, Inl e) \<Rightarrow> Some (Some st, ConnRefused [WsCloseMessage 1013 ''connector unavailable'', WsClosed])
           | Some (st, Inr (a, b)) \<Rightarrow>
               Some (Some st, ConnRelay a b (new_relay b (r_IdleTimeout (er_cfg r)) now))))"

section \<open>The registry across reconnects\<close>

lemma registry_get_simps [simp]:
  "registry_get (upd_link a g st) = registry_get st"
  "registry_get (st\<lparr>es_links := ls\<rparr>) = registry_get st"
  "es_registry (upd_link a g st) = es_registry st"
  "length (es_links (upd_link a g st)) = length (es_links st)"
  by (simp_all add: registry_get_def upd_link_def fun_eq_iff)

lemma registry_get_register: "registry_get (register c a st) k = (if k = c then Some a else registry_get st k)"
  by (auto simp: register_def registry_get_def Let_def update_conv' split: option.splits)

lemma registry_get_unregister:
  "registry_get (unregister c a st) k = (if k = c \<and> registry_get st c = Some a then None else registry_get st k)"
  by (auto simp: unregister_def registry_get_def delete_conv')

lemma upd_link_same [simp]: "a < length (es_links st) \<Longrightarrow> es_links (upd_link a g st) ! a = g (es_links st ! a)"
  by (simp add: upd_link_def)

lemma upd_link_other [simp]: "b \<noteq> a \<Longrightarrow> es_links (upd_link a g st) ! b = es_links st ! b"
  by (simp add: upd_link_def)

lemma es_links_register:
  "length (es_links (register c a st)) = length (es_links st)"
  "b < length (es_links st) \<Longrightarrow>
   es_links (register c a st) ! b =
     (if registry_get st c = Some b then CloseLink (es_links st ! b) else es_links st ! b)"
  by (auto simp: register_def Let_def upd_link_def nth_list_update split: option.splits)

lemma CloseLink_idem_facts:
  "l_broken (CloseLink l)" "l_sessions (CloseLink l) = []"
  by (simp_all add: CloseLink_facts)

lemma closeAll_fold:
  "length (es_links (foldl (\<lambda>s e. upd_link (snd e) CloseLink s) st es)) = length (es_links st)"
  "es_registry (foldl (\<lambda>s e. upd_link (snd e) CloseLink s) st es) = es_registry st"
  "b < length (es_links st) \<Longrightarrow> b \<notin> snd ` set es \<Longrightarrow>
   es_links (foldl (\<lambda>s e. upd_link (snd e) CloseLink s) st es) ! b = es_links st ! b"
proof (induction es arbitrary: st)
  case (Cons e es)
  { case 1 show ?case using Cons.IH(1) by simp }
  { case 2 show ?case using Cons.IH(2) by simp }
  { case 3 then show ?case using Cons.IH(3) [of "upd_link (snd e) CloseLink st"] by auto }
qed simp_all

lemma closeAll_fold_closed:
  "b < length (es_links st) \<Longrightarrow> b \<in> snd ` set es \<or> l_broken (es_links st ! b) \<and> l_sessions (es_links st ! b) = [] \<Longrightarrow>
   l_broken (es_links (foldl (\<lambda>s e. upd_link (snd e) CloseLink s) st es) ! b) \<and>
   l_sessions (es_links (foldl (\<lambda>s e. upd_link (snd e) CloseLink s) st es) ! b) = []"
proof (induction es arbitrary: st)
  case (Cons e es)
  let ?st = "upd_link (snd e) CloseLink st"
  have "b \<in> snd ` set es \<or> l_broken (es_links ?st ! b) \<and> l_sessions (es_links ?st ! b) = []"
    using Cons.prems by (cases "b = snd e") (auto simp: CloseLink_facts)
  then show ?case using Cons.IH [of ?st] Cons.prems(1) by simp
qed simp

section \<open>Opening\<close>

lemma Open_fail_sessions:
  assumes "Open m l f = (l', Inl e)"
  shows "l_sessions l' = l_sessions l"
proof (cases "Session l (f_SessionID f)")
  case (Some a)
  then show ?thesis using assms by (simp add: Open_def addSession_def)
next
  case None
  let ?l = "fst (addSession l (f_SessionID f))"
  have add: "addSession l (f_SessionID f) = (?l, Inr (length (l_heap l)))"
    and tab: "l_sessions ?l = (f_SessionID f, length (l_heap l)) # l_sessions l"
    using None by (simp_all add: addSession_def)
  have "snd (WriteFrame m ?l f) \<noteq> None"
    using assms add by (auto simp: Open_def split: prod.splits option.splits)
  then have "l' = removeSession (fst (WriteFrame m ?l f)) (f_SessionID f)"
    using assms add by (auto simp: Open_def split: prod.splits option.splits)
  moreover have "f_SessionID f \<notin> fst ` set (l_sessions l)"
    using None by (simp add: Session_def map_of_eq_None_iff)
  ultimately show ?thesis
    using tab by (simp add: delete_idem)
qed

lemma Open_success:
  assumes "Open m l f = (l', Inr b)"
  shows "Session l' (f_SessionID f) = Some b" "\<exists>d. l_out l' = l_out l @ [d] \<and> EncodeFrame m f = Inr d"
    "Session l (f_SessionID f) = None" "\<not> l_broken l"
proof -
  obtain l1 where a: "addSession l (f_SessionID f) = (l1, Inr b)" and w: "WriteFrame m l1 f = (l', None)"
    using assms by (auto simp: Open_ok_iff)
  have l1: "l1 = fst (addSession l (f_SessionID f))" using a by simp
  show none: "Session l (f_SessionID f) = None" using a by (auto simp: addSession_def split: if_splits)
  have o: "l_out l1 = l_out l" "l_broken l1 = l_broken l" "Session l1 (f_SessionID f) = Some b"
    using a none by (auto simp: addSession_def Session_def)
  show "Session l' (f_SessionID f) = Some b" "\<exists>d. l_out l' = l_out l @ [d] \<and> EncodeFrame m f = Inr d" "\<not> l_broken l"
    using w o by (auto simp: WriteFrame_def split: sum.splits if_splits)
qed

lemma attempt_cases:
  assumes "attemptOpenDataSession oc nats deadline r sid path st = (st', res)"
  obtains (opened) a l' b resp reply payload where "res = Inr (a, b)" "st' = upd_link a (\<lambda>_. l') st"
      "Open (oc_frame oc) (es_links st ! a) (openFrame r sid path) = (l', Inr b)"
      "registry_get st (os_ConnectorID resp) = Some a" "os_Accepted resp" "os_RequestID resp = sid"
      "DecodeOpenResponse (oc_response oc) reply = Inr resp" "nats (OpenSubject r) payload = Inr reply"
      "EncodeOpenRequest (oc_request oc) (openRequest r sid path deadline) = Inr payload"
    | (link_failed) a l' e where "res = Inl (OLink e)" "st' = upd_link a (\<lambda>_. l') st"
      "Open (oc_frame oc) (es_links st ! a) (openFrame r sid path) = (l', Inl e)"
    | (refused) e where "res = Inl e" "st' = st"
  using assms unfolding attemptOpenDataSession_def
  by (auto split: sum.splits if_splits option.splits prod.splits)

lemma attempt_failed_sessions:
  assumes "attemptOpenDataSession oc nats deadline r sid path st = (st', Inl e)"
  shows "l_sessions (es_links st' ! i) = l_sessions (es_links st ! i)"
  using assms
proof (cases rule: attempt_cases)
  case (link_failed a l' e')
  then show ?thesis
    using Open_fail_sessions [OF link_failed(3)]
    by (cases "i = a"; cases "a < length (es_links st)") (simp_all add: upd_link_def list_update_beyond)
qed simp_all

section \<open>The invariant of the edge's tunnels\<close>

definition edge_ok :: "edge_state \<Rightarrow> bool" where
  "edge_ok st \<longleftrightarrow>
     (\<forall>l \<in> set (es_links st). link_wf l) \<and>
     (\<forall>c a. registry_get st c = Some a \<longrightarrow> a < length (es_links st)) \<and>
     (\<forall>c c' a. registry_get st c = Some a \<longrightarrow> registry_get st c' = Some a \<longrightarrow> c = c')"

lemma edge_ok_new: "edge_ok newTunnelRegistry"
  by (simp add: edge_ok_def newTunnelRegistry_def registry_get_def)

lemma edge_ok_upd_link:
  "edge_ok st \<Longrightarrow> (a < length (es_links st) \<Longrightarrow> link_wf (es_links st ! a) \<Longrightarrow> link_wf (g (es_links st ! a))) \<Longrightarrow>
   edge_ok (upd_link a g st)"
proof -
  assume ok: "edge_ok st"
    and g: "a < length (es_links st) \<Longrightarrow> link_wf (es_links st ! a) \<Longrightarrow> link_wf (g (es_links st ! a))"
  have "link_wf l" if "l \<in> set (es_links (upd_link a g st))" for l
  proof (cases "a < length (es_links st)")
    case True
    then have "link_wf (g (es_links st ! a))" using g ok by (simp add: edge_ok_def)
    then show ?thesis
      using that ok set_update_subset_insert [of "es_links st" a "g (es_links st ! a)"]
      by (auto simp: upd_link_def edge_ok_def)
  next
    case False
    then show ?thesis using that ok by (simp add: upd_link_def list_update_beyond edge_ok_def)
  qed
  then show ?thesis using ok by (simp add: edge_ok_def)
qed

lemma edge_ok_register:
  assumes "edge_ok st" "a < length (es_links st)" "\<And>c. registry_get st c \<noteq> Some a"
  shows "edge_ok (register c a st)"
proof -
  let ?st = "st\<lparr>es_registry := AList.update c a (es_registry st)\<rparr>"
  have get: "registry_get ?st k = (if k = c then Some a else registry_get st k)" for k
    by (simp add: registry_get_def update_conv')
  have "edge_ok ?st"
    using assms by (auto simp: edge_ok_def get split: if_splits)
  then show ?thesis
    by (auto simp: register_def Let_def link_wf_CloseLink split: option.splits intro: edge_ok_upd_link)
qed

lemma edge_ok_unregister: "edge_ok st \<Longrightarrow> edge_ok (unregister c a st)"
proof -
  have "es_links (unregister c a st) = es_links st" by (simp add: unregister_def)
  moreover assume "edge_ok st"
  ultimately show ?thesis
    by (auto simp: edge_ok_def registry_get_unregister split: if_splits)
qed

lemma edge_ok_connect: "edge_ok st \<Longrightarrow> edge_ok (fst (dataHandler_connect token upgraded req st))"
proof -
  assume ok: "edge_ok st"
  have old: "registry_get st c \<noteq> Some (length (es_links st))" for c using ok by (auto simp: edge_ok_def)
  have "edge_ok (st\<lparr>es_links := es_links st @ [NewLink]\<rparr>)"
    using ok by (auto simp: edge_ok_def less_SucI)
  then have "edge_ok (register c (length (es_links st)) (st\<lparr>es_links := es_links st @ [NewLink]\<rparr>))" for c
    using old by (intro edge_ok_register) auto
  then show ?thesis
    using ok by (auto simp: dataHandler_connect_def Let_def split: sum.splits)
qed

lemma edge_ok_disconnect: "edge_ok st \<Longrightarrow> edge_ok (dataHandler_disconnect c a st)"
  unfolding dataHandler_disconnect_def
  by (intro edge_ok_unregister edge_ok_upd_link link_wf_CloseLink)

lemma edge_ok_closeAll: "edge_ok st \<Longrightarrow> edge_ok (closeAll st)"
proof -
  have "edge_ok s \<Longrightarrow> edge_ok (foldl (\<lambda>s e. upd_link (snd e) CloseLink s) s es)" for s es
    by (induction es arbitrary: s) (auto intro: edge_ok_upd_link link_wf_CloseLink)
  moreover assume "edge_ok st"
  then have "edge_ok (st\<lparr>es_registry := []\<rparr>)" by (simp add: edge_ok_def registry_get_def)
  ultimately show ?thesis by (simp add: closeAll_def)
qed

lemma edge_ok_attempt:
  assumes "edge_ok st"
  shows "edge_ok (fst (attemptOpenDataSession oc nats deadline r sid path st))"
proof -
  obtain st' res where a: "attemptOpenDataSession oc nats deadline r sid path st = (st', res)" by fastforce
  have "link_wf l'" if "Open m l f = (l', x)" "link_wf l" for m l f l' and x :: "link_error + nat"
    using link_wf_Open [OF that(2), of m f] that(1) by simp
  note wf = this
  have "edge_ok st'"
    using a
  proof (cases rule: attempt_cases)
    case (opened b l' s resp reply payload)
    then show ?thesis using wf [OF opened(3)] assms by (auto intro: edge_ok_upd_link)
  next
    case (link_failed b l' e)
    then show ?thesis using wf [OF link_failed(3)] assms by (auto intro: edge_ok_upd_link)
  qed (use assms in simp)
  then show ?thesis using a by simp
qed

section \<open>Properties\<close>



text \<open>
  Reconnecting is safe. When a connector connects again under its id, the old link is
  closed and the new one takes its place, and the old connection's later clean-up does not
  remove the new link from the registry.
\<close>

theorem reconnect_keeps_new_tunnel:
  assumes "edge_ok st" "registry_get st c = Some old" "dataHandler_check token req = Inr c"
  shows "\<exists>st' a. dataHandler_connect token True req st = (st', Inr (c, a)) \<and> a \<noteq> old \<and>
    l_broken (es_links st' ! old) \<and> l_sessions (es_links st' ! old) = [] \<and>
    es_links st' ! a = NewLink \<and> registry_get (dataHandler_disconnect c old st') c = Some a"
proof -
  let ?a = "length (es_links st)" and ?st = "st\<lparr>es_links := es_links st @ [NewLink]\<rparr>"
  have old: "old < length (es_links st)" using assms(1,2) by (simp add: edge_ok_def)
  have "dataHandler_connect token True req st = (register c ?a ?st, Inr (c, ?a))"
    using assms(3) by (simp add: dataHandler_connect_def Let_def)
  moreover have "es_links (register c ?a ?st) ! old = CloseLink (es_links st ! old)"
    using es_links_register(2) [of old ?st c ?a] old assms(2) by (simp add: nth_append)
  moreover have "es_links (register c ?a ?st) ! ?a = NewLink"
    using es_links_register(2) [of ?a ?st c ?a] old assms(2) by (simp add: nth_append)
  moreover have "registry_get (dataHandler_disconnect c old (register c ?a ?st)) c = Some ?a"
    using old by (simp add: dataHandler_disconnect_def registry_get_unregister registry_get_register)
  ultimately show ?thesis
    using old by (intro exI [of _ "register c ?a ?st"] exI [of _ ?a]) (simp add: CloseLink_facts)
qed

definition sample_dial :: http_request where
  "sample_dial =
     \<lparr>hq_Method = ''GET'', hq_Host = ''edge'', hq_Path = ''/_airpc/data'', hq_RawQuery = ''connector_id=c1'',
      hq_Header = [(''Authorization'', [''Bearer t''])], hq_TLS = False,
      hq_Body = \<lparr>hb_data = [], hb_fails = False\<rparr>\<rparr>"

lemma sample_dial_admitted: "dataHandler_check ''t'' sample_dial = Inr ''c1''"
  by code_simp

theorem reconnect_keeps_new_tunnel_witness:
  "\<exists>st' a. dataHandler_connect ''t'' True sample_dial (fst (dataHandler_connect ''t'' True sample_dial newTunnelRegistry)) =
     (st', Inr (''c1'', a)) \<and> registry_get (dataHandler_disconnect ''c1'' 0 st') ''c1'' = Some a"
proof -
  let ?st = "fst (dataHandler_connect ''t'' True sample_dial newTunnelRegistry)"
  have "edge_ok ?st" by (rule edge_ok_connect [OF edge_ok_new])
  moreover have "registry_get ?st ''c1'' = Some 0" by code_simp
  ultimately show ?thesis
    using reconnect_keeps_new_tunnel [OF _ _ sample_dial_admitted, of ?st 0] by blast
qed

text \<open>
  Who may open a tunnel: a request is admitted exactly if it is for the tunnel path, names
  a connector id that is a subject token of at most 128 bytes, and, when a token is
  configured, presents it in the query or as a bearer token.
\<close>

theorem tunnel_admission:
  "dataHandler_check token req = Inr c \<longleftrightarrow>
     hq_Path req = ''/_airpc/data'' \<and>
     c = (if Query_Get (hq_RawQuery req) ''connector_id'' = [] then Query_Get (hq_RawQuery req) ''id''
          else Query_Get (hq_RawQuery req) ''connector_id'') \<and>
     subject_token c \<and> length c \<le> 128 \<and>
     (token = [] \<or> Query_Get (hq_RawQuery req) ''token'' = token \<or>
      header_Get (hq_Header req) ''Authorization'' = ''Bearer '' @ token)"
  unfolding dataHandler_check_def Let_def dataTunnelPath_def
  using ValidateSubjectToken_iff [of "''connector_id''"] by auto

text \<open>
  Shutting down reaches every connector: \<^verbatim>\<open>closeAll\<close> empties the registry, closes every link
  that was in it and leaves the others as they were.
\<close>

theorem closeAll_closes_registered:
  assumes "edge_ok st" "b < length (es_links st)"
  shows "es_registry (closeAll st) = [] \<and>
    (if b \<in> snd ` set (es_registry st)
     then l_broken (es_links (closeAll st) ! b) \<and> l_sessions (es_links (closeAll st) ! b) = []
     else es_links (closeAll st) ! b = es_links st ! b)"
  using assms closeAll_fold(2) [of "st\<lparr>es_registry := []\<rparr>" "es_registry st"]
    closeAll_fold(3) [of b "st\<lparr>es_registry := []\<rparr>" "es_registry st"]
    closeAll_fold_closed [of b "st\<lparr>es_registry := []\<rparr>" "es_registry st"]
  by (auto simp: closeAll_def)

theorem closeAll_closes_registered_witness:
  "l_broken (es_links (closeAll (fst (dataHandler_connect ''t'' True sample_dial newTunnelRegistry))) ! 0)"
proof -
  let ?st = "fst (dataHandler_connect ''t'' True sample_dial newTunnelRegistry)"
  have "edge_ok ?st" by (rule edge_ok_connect [OF edge_ok_new])
  moreover have "0 < length (es_links ?st)" "0 \<in> snd ` set (es_registry ?st)" by code_simp+
  ultimately show ?thesis using closeAll_closes_registered [of ?st 0] by simp
qed

text \<open>
  A response stream has one reader. A claim succeeds only on a session that nobody had
  claimed; after it every other handler's claim of that session fails; the claim timer closes
  the session exactly if it was not claimed.
\<close>

theorem stream_claimed_once:
  assumes "link_wf l" "Session l sid = Some a"
  shows "claimStreamSession start sid ((l, now) # obs) =
      Some (if Claimed l a then ClaimLost (snd (TryClaim l a)) else ClaimedBy (snd (TryClaim l a)) a) \<and>
    claimStreamSession start' sid ((snd (TryClaim l a), now') # obs') =
      Some (ClaimLost (snd (TryClaim (snd (TryClaim l a)) a))) \<and>
    stream_claim_expired m (snd (TryClaim l a)) a = snd (TryClaim l a) \<and>
    (\<not> Claimed l a \<longrightarrow> Session (stream_claim_expired m l a) sid = None)"
proof -
  have a: "a < length (l_heap l)" "s_id (sess l a) = sid" using link_wfD [OF assms] by simp_all
  have c: "Claimed (snd (TryClaim l a)) a" using a by (simp add: TryClaim_def Claimed_def)
  have s: "Session (snd (TryClaim l a)) sid = Some a" using assms(2) by (simp add: TryClaim_def)
  have t: "fst (TryClaim k a) = (\<not> Claimed k a)" for k by (simp add: TryClaim_def Claimed_def)
  show ?thesis
    using assms(2) s c t [of l] t [of "snd (TryClaim l a)"] a
    by (auto simp: claimStreamSession_def stream_claim_expired_def CloseWithError_def Let_def Session_remove
        split: prod.splits bool.splits)
qed

theorem stream_claimed_once_witness:
  "\<exists>l'. claimStreamSession 0 ''x'' [(fst (Accept NewLink ''x''), 0)] = Some (ClaimedBy l' 0)"
proof -
  let ?l = "fst (Accept NewLink ''x'')"
  have "link_wf ?l" by (simp add: Accept_def link_wf_add)
  moreover have "Session ?l ''x'' = Some 0" "\<not> Claimed ?l 0" by code_simp+
  ultimately show ?thesis using stream_claimed_once [of ?l "''x''" 0 0 0 "[]"] by auto
qed

text \<open>
  Waiting for a stream to appear is bounded: if the polls are at least ten milliseconds
  apart, the claim is decided within 202 of them.
\<close>

theorem claim_terminates:
  assumes "202 \<le> length obs" "\<forall>i < length obs. snd (obs ! i) \<ge> start + 10000000 * int i"
  shows "\<exists>res. claimStreamSession start sid obs = Some res"
proof -
  have dec: "\<exists>res. claim_loop d sid os = Some res"
    if "i < length os" "snd (os ! i) > d" for d os i
    using that
  proof (induction d sid os arbitrary: i rule: claim_loop.induct)
    case (2 d sid l now obs)
    show ?case
    proof (cases "Session l sid")
      case None
      then show ?thesis using 2 by (cases i) auto
    next
      case (Some a)
      then show ?thesis by (cases "TryClaim l a"; cases "fst (TryClaim l a)") auto
    qed
  qed simp
  have "201 < length obs" using assms(1) by simp
  then have "snd (obs ! 201) \<ge> start + 10000000 * int 201" using assms(2) by blast
  then show ?thesis unfolding claimStreamSession_def using assms(1) by (intro dec [of 201]) auto
qed

theorem claim_terminates_witness:
  "\<exists>res. claimStreamSession 0 ''x'' (map (\<lambda>i. (NewLink, 10000000 * int i)) [0..<202]) = Some res"
  using claim_terminates [of "map (\<lambda>i. (NewLink, 10000000 * int i)) [0..<202]" 0 "''x''"] by simp

text \<open>
  What opening a session gives. On success the accepting connector's registered link has
  the new session in its table, and its open frame, with route, kind and path, has been
  written; a failed attempt leaves no session behind on any link.
\<close>

theorem open_attempt_result:
  assumes "attemptOpenDataSession oc nats deadline r sid path st = (st', res)" "edge_ok st"
  shows "case res of
      Inr (a, b) \<Rightarrow>
        Session (es_links st' ! a) sid = Some b \<and>
        (\<exists>d. l_out (es_links st' ! a) = l_out (es_links st ! a) @ [d] \<and>
             EncodeFrame (oc_frame oc) (openFrame r sid path) = Inr d) \<and>
        (\<exists>c. registry_get st c = Some a)
    | Inl e \<Rightarrow> \<forall>i. l_sessions (es_links st' ! i) = l_sessions (es_links st ! i)"
proof (cases res)
  case (Inl e)
  then show ?thesis using attempt_failed_sessions assms(1) by simp
next
  case (Inr ab)
  obtain a b where ab: "ab = (a, b)" by (cases ab)
  from assms(1) show ?thesis
  proof (cases rule: attempt_cases)
    case (opened a' l' b' resp reply payload)
    have "a' < length (es_links st)" using opened(4) assms(2) by (auto simp: edge_ok_def)
    then show ?thesis
      using opened Open_success [OF opened(3)] by (auto simp: openFrame_def)
  qed (use Inr in simp_all)
qed

text \<open>An edge with one connector, and the codecs and NATS of an accepted open.\<close>

definition sample_codecs :: open_codecs where
  "sample_codecs =
     \<lparr>oc_frame = (\<lambda>_. Inr ''frame''), oc_request = (\<lambda>_. Inr ''request''),
      oc_response = (\<lambda>_. Inr \<lparr>os_Version = 1, os_RequestID = ''s'', os_Accepted = True,
                                os_ConnectorID = ''c1'', os_Error = []\<rparr>)\<rparr>"

definition sample_edge_state :: edge_state where
  "sample_edge_state = fst (dataHandler_connect ''t'' True sample_dial newTunnelRegistry)"

definition sample_nats :: nats_request where
  "sample_nats subject payload = Inr ''reply''"

lemma sample_edge_ok: "edge_ok sample_edge_state"
  unfolding sample_edge_state_def by (rule edge_ok_connect [OF edge_ok_new])

theorem open_attempt_result_witness:
  "\<exists>st'. attemptOpenDataSession sample_codecs sample_nats 1000 sample_tcp ''s'' ''/'' sample_edge_state = (st', Inr (0, 0)) \<and>
     Session (es_links st' ! 0) ''s'' = Some 0"
proof -
  let ?r = "attemptOpenDataSession sample_codecs sample_nats 1000 sample_tcp ''s'' ''/'' sample_edge_state"
  have "snd ?r = Inr (0, 0)" by code_simp
  then have r: "?r = (fst ?r, Inr (0, 0))" by (metis prod.collapse)
  have "Session (es_links (fst ?r) ! 0) ''s'' = Some 0"
    using open_attempt_result [OF r sample_edge_ok] by simp
  then show ?thesis using r by blast
qed

text \<open>
  Opening retries only what is worth retrying: the loop ends at the first attempt that
  succeeds or fails for another reason than an unavailable tunnel, or when the timeout has
  passed, with the result of that attempt; all earlier attempts found no tunnel.
\<close>

theorem open_retries_until_decided:
  assumes "openDataSession oc now r sid path attempts = Some (st', res)"
  shows "\<exists>pre st nats timedOut post.
    attempts = pre @ (st, nats, timedOut) # post \<and>
    attemptOpenDataSession oc nats ((now + routeTimeout r) div 1000000) r sid path st = (st', res) \<and>
    (res = Inl OUnavailable \<longrightarrow> timedOut) \<and>
    (\<forall>(s, n, t) \<in> set pre. \<not> t \<and>
       snd (attemptOpenDataSession oc n ((now + routeTimeout r) div 1000000) r sid path s) = Inl OUnavailable)"
  using assms unfolding openDataSession_def
proof (induction oc "(now + routeTimeout r) div 1000000" r sid path attempts rule: open_loop.induct)
  case (2 oc r sid path st nats timedOut rest)
  let ?d = "(now + routeTimeout r) div 1000000"
  obtain st1 res1 where a: "attemptOpenDataSession oc nats ?d r sid path st = (st1, res1)" by fastforce
  show ?case
  proof (cases "res1 = Inl OUnavailable \<and> \<not> timedOut")
    case True
    then have "open_loop oc ?d r sid path rest = Some (st', res)" using 2(2) a by simp
    then obtain pre st2 nats2 t2 post where ih: "rest = pre @ (st2, nats2, t2) # post"
      "attemptOpenDataSession oc nats2 ?d r sid path st2 = (st', res)" "res = Inl OUnavailable \<longrightarrow> t2"
      "\<forall>(s, n, t) \<in> set pre. \<not> t \<and> snd (attemptOpenDataSession oc n ?d r sid path s) = Inl OUnavailable"
      using 2(1) [OF a [symmetric]] True by auto
    show ?thesis
      by (rule exI [of _ "(st, nats, timedOut) # pre"]) (use ih a True in auto)
  next
    case False
    then have "st1 = st' \<and> res1 = res" using 2(2) a by (auto split: sum.splits if_splits)
    then show ?thesis using a False by (intro exI [of _ "[]"]) auto
  qed
qed simp

theorem open_retries_until_decided_witness:
  "\<exists>st nats. (st, nats, False) \<in> set [(newTunnelRegistry, sample_nats, False), (sample_edge_state, sample_nats, False)] \<and>
     snd (attemptOpenDataSession sample_codecs nats ((0 + routeTimeout sample_tcp) div 1000000) sample_tcp ''s'' ''/'' st) = Inr (0, 0)"
proof -
  let ?as = "[(newTunnelRegistry, sample_nats, False), (sample_edge_state, sample_nats, False)]"
  have "map_option snd (openDataSession sample_codecs 0 sample_tcp ''s'' ''/'' ?as) = Some (Inr (0, 0))" by code_simp
  then obtain st' where "openDataSession sample_codecs 0 sample_tcp ''s'' ''/'' ?as = Some (st', Inr (0, 0))" by auto
  from open_retries_until_decided [OF this] obtain pre st nats tm post where
    "?as = pre @ (st, nats, tm) # post"
    "attemptOpenDataSession sample_codecs nats ((0 + routeTimeout sample_tcp) div 1000000) sample_tcp ''s'' ''/'' st =
       (st', Inr (0, 0))" by blast
  moreover from this(1) have "(st, nats, tm) \<in> set ?as" by (metis in_set_conv_decomp)
  moreover from this have "tm = False" by auto
  ultimately show ?thesis by (intro exI [of _ st] exI [of _ nats]) simp
qed

text \<open>
  C21. Opening returns: once an attempt ends after the open timeout has passed, the loop is left,
  whatever all the attempts met; and an attempt that finds a tunnel leaves it at once.
\<close>

theorem open_returns:
  assumes "(st, nats, timedOut) \<in> set attempts"
    and "timedOut \<or> snd (attemptOpenDataSession oc nats ((now + routeTimeout r) div 1000000) r sid path st) \<noteq> Inl OUnavailable"
  shows "\<exists>st' res. openDataSession oc now r sid path attempts = Some (st', res)"
  using assms unfolding openDataSession_def
proof (induction oc "(now + routeTimeout r) div 1000000" r sid path attempts rule: open_loop.induct)
  case (2 oc r sid path st1 nats1 timedOut1 rest)
  then show ?case by (auto split: prod.splits sum.splits)
qed simp

theorem open_returns_witness:
  "\<exists>st' res. openDataSession sample_codecs 0 sample_tcp ''s'' ''/''
     [(newTunnelRegistry, sample_nats, False), (newTunnelRegistry, sample_nats, True)] = Some (st', res)"
  by (rule open_returns [of newTunnelRegistry sample_nats True]) simp_all

text \<open>
  A tunnel that has dropped but is still registered is not retried: the write of the open
  frame fails with an error the loop takes for final, although another connector of the
  route may be reachable and the timeout has not passed.
\<close>

theorem dropped_tunnel_not_retried:
  "let st = upd_link 0 CloseLink sample_edge_state in
   map_option snd (openDataSession sample_codecs 0 sample_tcp ''s'' ''/''
     [(st, sample_nats, False), (sample_edge_state, sample_nats, False)]) = Some (Inl (OLink LWrite))"
  by code_simp

end
