(* ===== verification/Edge_Unary.thy ===== *)
theory Edge_Unary
  imports Edge_Data
begin

text \<open>
  Package \<^verbatim>\<open>internal/edge\<close>, \<^verbatim>\<open>edge.go\<close>: the public HTTP handler. \<open>serveUnary\<close> is one request from
  the reading of its body to its reply; what the outside decides (random bytes, the clock,
  NATS, whether the request's context has ended) is the record \<open>unary_env\<close>, and the result
  records the NATS requests made, the cancellations published and the outcome.
  \<open>serveStreamedResponse\<close> is a loop over the session's frames, with one step per receive of
  its \<^verbatim>\<open>select\<close>, as for the relays.

  The lemmas state the reply on every branch, what reaches NATS, and that a truncated stream is
  never presented to the client as a complete one.
\<close>

section \<open>Replies\<close>

text \<open>\<^verbatim>\<open>w.Header().Add\<close> for every value of a header block.\<close>

definition add_all :: "header \<Rightarrow> header \<Rightarrow> header" where
  "add_all dst h = foldl (\<lambda>d e. copyValues d (fst e) (snd e)) dst h"

definition writeResponse :: "unary_response \<Rightarrow> http_reply" where
  "writeResponse resp =
     \<lparr>hr_status = rs_Status resp, hr_header = add_all [] (FilterResponse (rs_Headers resp)),
      hr_body = rs_Body resp\<rparr>"

definition StatusText :: "int \<Rightarrow> string" where
  "StatusText code =
     (if code = 502 then ''Bad Gateway'' else if code = 503 then ''Service Unavailable''
      else if code = 504 then ''Gateway Timeout'' else '''')"

section \<open>The unary handler\<close>

record unary_env =
  ue_rand :: "bytes option"
  ue_now :: int
  ue_nats :: nats_request
  ue_ctx_err :: bool

datatype unary_outcome = Replied http_reply | StreamReply unary_response

record unary_run =
  ur_requests :: "(string \<times> bytes) list"
  ur_published :: "string list"
  ur_outcome :: unary_outcome

definition unary_envelope :: "string \<Rightarrow> int \<Rightarrow> http_request \<Rightarrow> edge_route \<Rightarrow> string \<Rightarrow> bytes \<Rightarrow> unary_request" where
  "unary_envelope rid deadline req matched suffix body =
     \<lparr>rq_Version = UnaryVersion, rq_RequestID = rid, rq_Route = r_Name (er_cfg matched),
      rq_DeadlineUnixMS = deadline, rq_Method = hq_Method req, rq_Scheme = requestScheme req,
      rq_Authority = hq_Host req, rq_Path = suffix,
      rq_Headers = FilterRequest (hq_Header req) (r_ForwardedHeaders (er_cfg matched)), rq_Body = body\<rparr>"

definition nats_status :: "bool \<Rightarrow> nats_error \<Rightarrow> int" where
  "nats_status ctxErr e =
     (if e = NatsNoResponders then 503
      else if e = NatsTimeout \<or> e = NatsDeadlineExceeded \<or> ctxErr then 504 else 502)"

definition serveUnary ::
  "unary_request marshal \<Rightarrow> unary_response unmarshal \<Rightarrow> unary_env \<Rightarrow> http_request \<Rightarrow> edge_route \<Rightarrow> string \<Rightarrow> unary_run" where
  "serveUnary m u env req matched suffix =
     (let reply = (\<lambda>rs ps rep. \<lparr>ur_requests = rs, ur_published = ps, ur_outcome = rep\<rparr>) in
      case readBounded (hq_Body req) (routeRequestLimit (er_cfg matched)) of
        Inl rep \<Rightarrow> reply [] [] (Replied rep)
      | Inr body \<Rightarrow>
          (case requestID (ue_rand env) of
             None \<Rightarrow> reply [] [] (Replied (http_Error ''failed to create request id'' 500))
           | Some rid \<Rightarrow>
               (let deadline = (ue_now env + routeTimeout (er_cfg matched)) div 1000000 in
                case EncodeRequest m (unary_envelope rid deadline req matched suffix body) of
                  Inl _ \<Rightarrow> reply [] [] (Replied (http_Error ''invalid request envelope'' 502))
                | Inr payload \<Rightarrow>
                    (let subject = UnarySubject (er_cfg matched); sent = [(subject, payload)] in
                     case ue_nats env subject payload of
                       Inl e \<Rightarrow>
                         (let status = nats_status (ue_ctx_err env) e in
                          reply sent (if ue_ctx_err env then [CancelSubject rid] else [])
                            (Replied (http_Error (StatusText status) status)))
                     | Inr data \<Rightarrow>
                         (case DecodeResponse u data of
                            Inl _ \<Rightarrow> reply sent [] (Replied (http_Error ''connector error'' 502))
                          | Inr resp \<Rightarrow>
                              if rs_RequestID resp \<noteq> rid \<or> rs_Error resp \<noteq> None then
                                reply sent [] (Replied (http_Error ''connector error'' 502))
                              else if rs_StreamSessionID resp \<noteq> [] then reply sent [] (StreamReply resp)
                              else reply sent [] (Replied (writeResponse resp)))))))"

section \<open>Dispatching a request\<close>

datatype edge_outcome = EdgeReply http_reply | EdgeWebSocket edge_route string | EdgeUnary edge_route string

definition health_reply :: http_reply where
  "health_reply =
     \<lparr>hr_status = 200, hr_header = [(''Content-Type'', [''text/plain; charset=utf-8''])],
      hr_body = ''ok'' @ [CHR 0x0A]\<rparr>"

definition ServeHTTP :: "edge_route list \<Rightarrow> edge_route list \<Rightarrow> http_request \<Rightarrow> edge_outcome" where
  "ServeHTTP ws http req =
     (if hq_Path req = ''/_airpc/healthz'' then EdgeReply health_reply
      else case matchRoute ws req of
          Some (matched, suffix) \<Rightarrow> EdgeWebSocket matched suffix
        | None \<Rightarrow>
            (case matchRoute http req of
               None \<Rightarrow> EdgeReply http_NotFound
             | Some (matched, suffix) \<Rightarrow> EdgeUnary matched suffix))"

section \<open>Streamed responses\<close>

datatype client_call = CwHeader int header | CwWrite bytes | CwFlush

text \<open>
  How the handler ended: it returned at the end of the body (\<open>StreamEnded\<close>), it returned because
  the client is gone (\<open>StreamGone\<close>), or it panicked with \<^verbatim>\<open>http.ErrAbortHandler\<close>.
\<close>

datatype stream_state = Streaming | StreamEnded | StreamGone | StreamAborted

record stream_reader =
  sr_addr :: nat
  sr_calls :: "client_call list"
  sr_state :: stream_state

datatype stream_event = SrCtx | SrDone | SrRecv "nat option"

text \<open>
  The start: the connector's link, the claim, the header of the response. \<open>None\<close> when the
  observed polls did not decide the claim.
\<close>

definition stream_start ::
  "edge_state \<Rightarrow> int \<Rightarrow> (link \<times> int) list \<Rightarrow> unary_response \<Rightarrow> (http_reply, link \<times> stream_reader) result option" where
  "stream_start st now obs resp =
     (case registry_get st (rs_ConnectorID resp) of
        None \<Rightarrow> Some (Inl (http_Error ''connector stream unavailable'' 502))
      | Some _ \<Rightarrow>
          (case claimStreamSession now (rs_StreamSessionID resp) obs of
             None \<Rightarrow> None
           | Some (ClaimedBy l a) \<Rightarrow>
               Some (Inr (l, \<lparr>sr_addr = a,
                              sr_calls = [CwHeader (rs_Status resp) (add_all [] (FilterResponse (rs_Headers resp)))],
                              sr_state = Streaming\<rparr>))
           | Some _ \<Rightarrow> Some (Inl (http_Error ''connector stream unavailable'' 502))))"

text \<open>Returning or panicking, the deferred \<^verbatim>\<open>session.Close\<close> runs.\<close>

definition stream_finish :: "frame marshal \<Rightarrow> stream_state \<Rightarrow> link \<Rightarrow> stream_reader \<Rightarrow> link \<times> stream_reader" where
  "stream_finish m s l r = (CloseSession m l (sr_addr r), r\<lparr>sr_state := s\<rparr>)"

definition stream_recv :: "frame marshal \<Rightarrow> nat option \<Rightarrow> link \<Rightarrow> stream_reader \<Rightarrow> (link \<times> stream_reader) option" where
  "stream_recv m werr l r =
     (case s_recv (sess l (sr_addr r)) of
        [] \<Rightarrow> None
      | f # _ \<Rightarrow>
          (let l1 = pop_recv (sr_addr r) l in
           if f_Type f = FrameData then
             (case werr of
                Some k \<Rightarrow>
                  Some (stream_finish m StreamGone l1 (r\<lparr>sr_calls := sr_calls r @ [CwWrite (take k (f_Payload f))]\<rparr>))
              | None \<Rightarrow>
                  Some (AckData m l1 (sr_addr r),
                        r\<lparr>sr_calls := sr_calls r @ [CwWrite (f_Payload f), CwFlush]\<rparr>))
           else if f_Type f = FrameEOF then Some (stream_finish m StreamEnded l1 r)
           else if f_Type f = FrameClose \<or> f_Type f = FrameError then
             Some (stream_finish m StreamAborted l1 r)
           else Some (l1, r)))"

definition serveStreamedResponse_step ::
  "frame marshal \<Rightarrow> link \<Rightarrow> stream_reader \<Rightarrow> stream_event \<Rightarrow> (link \<times> stream_reader) option" where
  "serveStreamedResponse_step m l r ev =
     (if sr_state r \<noteq> Streaming then None
      else case ev of
        SrCtx \<Rightarrow> Some (stream_finish m StreamGone l r)
      | SrDone \<Rightarrow> if s_done (sess l (sr_addr r)) then Some (stream_finish m StreamAborted l r) else None
      | SrRecv werr \<Rightarrow> stream_recv m werr l r)"

section \<open>The status that is counted\<close>

text \<open>
  \<^verbatim>\<open>statusRecorder\<close> stands between the handler and the client: it starts at 200, remembers the
  code of \<^verbatim>\<open>WriteHeader\<close> and passes every call on. When the handler returns or panics, the request is
  counted under the name of its route and this code.
\<close>

record statusRecorder =
  sc_calls :: "client_call list"
  sc_status :: int

fun recorder_call :: "client_call \<Rightarrow> statusRecorder \<Rightarrow> statusRecorder" where
  "recorder_call (CwHeader code h) r = r\<lparr>sc_status := code, sc_calls := sc_calls r @ [CwHeader code h]\<rparr>"
| "recorder_call c r = r\<lparr>sc_calls := sc_calls r @ [c]\<rparr>"

definition new_recorder :: statusRecorder where
  "new_recorder = \<lparr>sc_calls = [], sc_status = 200\<rparr>"

definition request_metric :: "edge_route \<Rightarrow> client_call list \<Rightarrow> string \<times> string" where
  "request_metric matched calls =
     (r_Name (er_cfg matched), itoa (sc_status (fold recorder_call calls new_recorder)))"

section \<open>Lemmas\<close>

lemma add_all_values:
  "header_values (add_all dst h) k = header_values dst k @ source_values h k"
proof (induction h arbitrary: dst)
  case (Cons e h)
  obtain n vs where e: "e = (n, vs)" by (cases e)
  have "add_all dst (e # h) = add_all (copyValues dst n vs) h" by (simp add: add_all_def e)
  then show ?case using Cons by (simp add: e source_values_Cons header_values_copy)
qed (simp add: add_all_def source_values_def)

lemma header_canonical_FilterResponse: "header_canonical (FilterResponse h)"
  using filter_response_keys [of "[]" h] filter_response_wf [of "[]" h]
  by (auto simp: header_canonical_def FilterResponse_def header_keys_def header_wf_def end_to_end_def)

lemma add_all_FilterResponse:
  assumes "CanonicalHeaderKey k = k"
  shows "header_values (add_all [] (FilterResponse h)) k = header_values (FilterResponse h) k"
  using add_all_values [of "[]" "FilterResponse h" k]
    source_values_canonical [OF header_canonical_FilterResponse assms] by simp

lemma routeRequestLimit_range:
  "r_MaxInlineRequestBytes r < max_int64 \<Longrightarrow> r_MaxRequestBodyBytes r < max_int64 \<Longrightarrow>
   0 \<le> routeRequestLimit r \<and> routeRequestLimit r < max_int64"
  by (auto simp: routeRequestLimit_def MaxInlineRequest_def defaultRequestLimit_def max_int64_def Let_def)

lemma serveUnary_cases:
  obtains (early) rep where "serveUnary m u env req matched suffix = \<lparr>ur_requests = [], ur_published = [], ur_outcome = Replied rep\<rparr>"
      "hr_status rep \<in> {400, 413, 500, 502}"
    | (sent) body rid payload where
      "readBounded (hq_Body req) (routeRequestLimit (er_cfg matched)) = Inr body" "requestID (ue_rand env) = Some rid"
      "EncodeRequest m (unary_envelope rid ((ue_now env + routeTimeout (er_cfg matched)) div 1000000) req matched suffix body) = Inr payload"
      "ur_requests (serveUnary m u env req matched suffix) = [(UnarySubject (er_cfg matched), payload)]"
      "ur_published (serveUnary m u env req matched suffix) =
         (case ue_nats env (UnarySubject (er_cfg matched)) payload of
            Inl _ \<Rightarrow> if ue_ctx_err env then [CancelSubject rid] else [] | Inr _ \<Rightarrow> [])"
      "ur_outcome (serveUnary m u env req matched suffix) =
         (case ue_nats env (UnarySubject (er_cfg matched)) payload of
            Inl e \<Rightarrow> Replied (http_Error (StatusText (nats_status (ue_ctx_err env) e)) (nats_status (ue_ctx_err env) e))
          | Inr data \<Rightarrow>
              (case DecodeResponse u data of
                 Inl _ \<Rightarrow> Replied (http_Error ''connector error'' 502)
               | Inr resp \<Rightarrow>
                   if rs_RequestID resp \<noteq> rid \<or> rs_Error resp \<noteq> None then Replied (http_Error ''connector error'' 502)
                   else if rs_StreamSessionID resp \<noteq> [] then StreamReply resp
                   else Replied (writeResponse resp)))"
proof (cases "readBounded (hq_Body req) (routeRequestLimit (er_cfg matched))")
  case (Inl rep)
  then have "hr_status rep \<in> {400, 413}"
    by (auto simp: readBounded_def http_Error_def split: option.splits if_splits)
  then show thesis using early [of rep] Inl by (auto simp: serveUnary_def)
next
  case (Inr body)
  note b = Inr
  show thesis
  proof (cases "requestID (ue_rand env)")
    case None
    then show thesis using early b by (simp add: serveUnary_def http_Error_def)
  next
    case (Some rid)
    show thesis
    proof (cases "EncodeRequest m (unary_envelope rid ((ue_now env + routeTimeout (er_cfg matched)) div 1000000) req matched suffix body)")
      case (Inl e)
      then show thesis using early b Some by (simp add: serveUnary_def http_Error_def)
    next
      case (Inr payload)
      show thesis
        by (rule sent [OF b Some Inr]) (simp_all add: serveUnary_def b Some Inr Let_def split: sum.splits)
    qed
  qed
qed

lemma stream_recv_cases:
  assumes "stream_recv m werr l r = Some (l', r')"
  obtains (data_ok) f fs where "s_recv (sess l (sr_addr r)) = f # fs" "f_Type f = FrameData" "werr = None"
      "l' = AckData m (pop_recv (sr_addr r) l) (sr_addr r)"
      "r' = r\<lparr>sr_calls := sr_calls r @ [CwWrite (f_Payload f), CwFlush]\<rparr>"
    | (data_fail) f fs k where "s_recv (sess l (sr_addr r)) = f # fs" "f_Type f = FrameData" "werr = Some k"
      "(l', r') = stream_finish m StreamGone (pop_recv (sr_addr r) l)
         (r\<lparr>sr_calls := sr_calls r @ [CwWrite (take k (f_Payload f))]\<rparr>)"
    | (ended) f fs where "s_recv (sess l (sr_addr r)) = f # fs" "f_Type f = FrameEOF"
      "(l', r') = stream_finish m StreamEnded (pop_recv (sr_addr r) l) r"
    | (aborted) f fs where "s_recv (sess l (sr_addr r)) = f # fs" "f_Type f = FrameClose \<or> f_Type f = FrameError"
      "(l', r') = stream_finish m StreamAborted (pop_recv (sr_addr r) l) r"
    | (other) f fs where "s_recv (sess l (sr_addr r)) = f # fs"
      "f_Type f \<notin> {FrameData, FrameEOF, FrameClose, FrameError}" "l' = pop_recv (sr_addr r) l" "r' = r"
proof (cases "s_recv (sess l (sr_addr r))")
  case Nil
  then show thesis using assms by (simp add: stream_recv_def)
next
  case (Cons f fs)
  note q = Cons
  consider "f_Type f = FrameData" | "f_Type f = FrameEOF" | "f_Type f = FrameClose \<or> f_Type f = FrameError"
    | "f_Type f \<notin> {FrameData, FrameEOF, FrameClose, FrameError}" by blast
  then show thesis
  proof cases
    case 1
    then show thesis
      using assms q data_ok [OF q 1] data_fail [OF q 1] by (cases werr) (simp_all add: stream_recv_def Let_def)
  next
    case 2
    then show thesis using assms q ended [OF q 2] by (simp add: stream_recv_def Let_def)
  next
    case 3
    then have "f_Type f \<noteq> FrameData" "f_Type f \<noteq> FrameEOF" by (auto simp: frame_type_defs)
    then show thesis using assms q 3 aborted [OF q 3] by (simp add: stream_recv_def Let_def)
  next
    case 4
    then have "l' = pop_recv (sr_addr r) l" "r' = r" using assms q by (auto simp: stream_recv_def Let_def)
    then show thesis by (rule other [OF q 4])
  qed
qed

text \<open>The recorder is transparent, and only a header changes the status.\<close>

lemma recorder_transparent: "sc_calls (fold recorder_call cs r) = sc_calls r @ cs"
proof (induction cs arbitrary: r)
  case (Cons c cs)
  then show ?case by (cases c) auto
qed simp

definition no_header :: "client_call list \<Rightarrow> bool" where
  "no_header cs \<longleftrightarrow> list_all (\<lambda>c. case c of CwHeader _ _ \<Rightarrow> False | _ \<Rightarrow> True) cs"

lemma recorder_status_kept: "no_header cs \<Longrightarrow> sc_status (fold recorder_call cs r) = sc_status r"
proof (induction cs arbitrary: r)
  case (Cons c cs)
  then show ?case by (cases c) (auto simp: no_header_def)
qed simp

text \<open>Whatever a streamed response does, it is counted under the status of its header.\<close>

definition header_first :: "int \<Rightarrow> stream_reader \<Rightarrow> bool" where
  "header_first code r \<longleftrightarrow> (\<exists>h cs. sr_calls r = CwHeader code h # cs \<and> no_header cs)"

lemma header_first_step:
  assumes "serveStreamedResponse_step m l r ev = Some (l', r')" "header_first code r"
  shows "header_first code r'"
  using assms
  by (auto simp: serveStreamedResponse_step_def stream_recv_def stream_finish_def header_first_def no_header_def Let_def
      split: if_splits stream_event.splits list.splits option.splits)

lemma stream_counted_as_sent:
  assumes "stream_start st now obs resp = Some (Inr (l, r))"
    and "(\<lambda>x y. \<exists>ev. serveStreamedResponse_step m (fst x) (snd x) ev = Some y)\<^sup>*\<^sup>* (l, r) (l', r')"
  shows "request_metric matched (sr_calls r') = (r_Name (er_cfg matched), itoa (rs_Status resp))"
proof -
  have "header_first (rs_Status resp) r"
    using assms(1)
    by (auto simp: stream_start_def header_first_def no_header_def split: option.splits claim_result.splits)
  with assms(2) have "header_first (rs_Status resp) (snd (l', r'))"
    by (induction rule: rtranclp_induct) (auto intro: header_first_step)
  then show ?thesis
    by (auto simp: header_first_def request_metric_def recorder_status_kept)
qed

section \<open>Properties\<close>

text \<open>
  C12. What reaches NATS. A request makes at most one NATS request, on its route's unary
  subject, and what the connector decodes from it is a valid envelope of this request:
  the matched route, the client's method, the suffix path, a body within the route's limit,
  and only allowlisted end-to-end headers.
\<close>

theorem serveUnary_sends_valid_envelope:
  assumes "codec_inverse m u'" "(subject, payload) \<in> set (ur_requests (serveUnary m u env req matched suffix))"
    and "header_canonical (hq_Header req)" "0 \<le> routeRequestLimit (er_cfg matched)"
  shows "subject = UnarySubject (er_cfg matched) \<and>
    length (ur_requests (serveUnary m u env req matched suffix)) = 1 \<and>
    (\<exists>r. DecodeRequest u' payload = Inr r \<and> unary_request_ok r \<and> rq_Route r = r_Name (er_cfg matched) \<and>
       rq_Method r = hq_Method req \<and> rq_Path r = suffix \<and>
       int (length (rq_Body r)) \<le> routeRequestLimit (er_cfg matched) \<and>
       (\<forall>k. header_values (rq_Headers r) k \<noteq> [] \<longrightarrow>
          \<not> isHopByHop k \<and> (\<exists>n \<in> set (r_ForwardedHeaders (er_cfg matched)). CanonicalHeaderKey (TrimSpace n) = k) \<and>
          header_values (rq_Headers r) k = header_values (hq_Header req) k))"
  using serveUnary_cases [of m u env req matched suffix]
proof cases
  case (early rep)
  then show ?thesis using assms(2) by simp
next
  case (sent body rid p)
  let ?r = "unary_envelope rid ((ue_now env + routeTimeout (er_cfg matched)) div 1000000) req matched suffix body"
  have p: "subject = UnarySubject (er_cfg matched)" "payload = p" using sent(4) assms(2) by simp_all
  have dec: "DecodeRequest u' p = Inr ?r" using unary_request_codec.round_trip [OF assms(1) sent(3)] .
  have ok: "unary_request_ok ?r"
    using sent(3) unary_request_codec.encode_ok_iff Request_Validate_iff by blast
  have body: "int (length body) \<le> routeRequestLimit (er_cfg matched)"
    using sent(1) by (auto simp: readBounded_def split: option.splits if_splits)
  have hdr: "header_values (FilterRequest (hq_Header req) (r_ForwardedHeaders (er_cfg matched))) k =
      (if k \<in> set (allowed_set (r_ForwardedHeaders (er_cfg matched))) \<and> \<not> isHopByHop k
       then source_values (hq_Header req) k else [])" for k
    by (simp add: FilterRequest_def filter_request_values)
  have "\<not> isHopByHop k \<and> (\<exists>n \<in> set (r_ForwardedHeaders (er_cfg matched)). CanonicalHeaderKey (TrimSpace n) = k) \<and>
      header_values (rq_Headers ?r) k = header_values (hq_Header req) k"
    if "header_values (rq_Headers ?r) k \<noteq> []" for k
  proof -
    have h: "k \<in> set (allowed_set (r_ForwardedHeaders (er_cfg matched)))" "\<not> isHopByHop k"
      using that hdr [of k] by (auto simp: unary_envelope_def split: if_splits)
    then have "CanonicalHeaderKey k = k" by (auto simp: allowed_set_iff)
    then show ?thesis
      using h hdr [of k] source_values_canonical [OF assms(3)] by (simp add: unary_envelope_def allowed_set_iff)
  qed
  then show ?thesis
    using p dec ok body sent(4) by (auto simp: unary_envelope_def)
qed

definition sample_request :: http_request where
  "sample_request =
     \<lparr>hq_Method = ''GET'', hq_Host = ''example.com'', hq_Path = ''/app/items'', hq_RawQuery = [],
      hq_Header = [(''Accept'', [''*/*''])], hq_TLS = False, hq_Body = \<lparr>hb_data = ''hi'', hb_fails = False\<rparr>\<rparr>"

definition sample_env :: unary_env where
  "sample_env =
     \<lparr>ue_rand = Some (replicate 16 CHR ''x''), ue_now = 0, ue_nats = (\<lambda>_ _. Inl NatsTimeout), ue_ctx_err = True\<rparr>"

definition sample_envelope :: unary_request where
  "sample_envelope =
     unary_envelope (hex_encode (replicate 16 CHR ''x'')) 30000 sample_request (new_edge_route sample_http) ''/items'' ''hi''"

definition sample_unary_marshal :: "unary_request marshal" where
  "sample_unary_marshal r = (if r = sample_envelope then Inr ''env'' else Inl ''unknown'')"

lemma sample_unary_codec: "codec_inverse sample_unary_marshal (\<lambda>_. Inr sample_envelope)"
  by (simp add: codec_inverse_def sample_unary_marshal_def)

lemma sample_request_canonical: "header_canonical (hq_Header sample_request)"
  unfolding header_canonical_def header_keys_def header_wf_def by code_simp

theorem serveUnary_sends_valid_envelope_witness:
  "\<exists>r. DecodeRequest (\<lambda>_. Inr sample_envelope) ''env'' = Inr r \<and> unary_request_ok r \<and> rq_Path r = ''/items''"
proof -
  let ?run = "serveUnary sample_unary_marshal (\<lambda>_. Inl ''bad'') sample_env sample_request (new_edge_route sample_http) ''/items''"
  have "ur_requests ?run = [(UnarySubject sample_http, ''env'')]" by code_simp
  then have "(UnarySubject sample_http, ''env'') \<in> set (ur_requests ?run)" by simp
  moreover have "0 \<le> routeRequestLimit (er_cfg (new_edge_route sample_http))" by code_simp
  ultimately show ?thesis
    using serveUnary_sends_valid_envelope [OF sample_unary_codec _ sample_request_canonical] by blast
qed

text \<open>
  A cancellation names the request it cancels: one is published exactly when the NATS
  request failed and the client is gone or the deadline has passed, and the id a connector
  reads from its subject is the id in the envelope that was sent.
\<close>

theorem cancellation_names_request:
  assumes "codec_inverse m u'" "length b = 16" "ue_rand env = Some b"
  shows "(ur_published (serveUnary m u env req matched suffix) \<noteq> [] \<longleftrightarrow>
      (\<exists>s p e. ur_requests (serveUnary m u env req matched suffix) = [(s, p)] \<and> ue_nats env s p = Inl e \<and> ue_ctx_err env)) \<and>
    (\<forall>c \<in> set (ur_published (serveUnary m u env req matched suffix)).
      \<exists>s p r. ur_requests (serveUnary m u env req matched suffix) = [(s, p)] \<and> DecodeRequest u' p = Inr r \<and>
        RequestIDFromCancelSubject c = Some (rq_RequestID r))"
  using serveUnary_cases [of m u env req matched suffix]
proof cases
  case (sent body rid p)
  have rid: "rid = hex_encode b" using sent(2) assms(3) by (simp add: requestID_def)
  have tok: "subject_token rid" "length rid \<le> 128"
    using hex_encode_subject [of b] length_hex_encode [of b] assms(2) by (auto simp: rid subject_token_def)
  have "CancelSubject rid \<noteq> rid" by (simp add: CancelSubject_def cancelSubjectPrefix_def)
  then have read: "RequestIDFromCancelSubject (CancelSubject rid) = Some rid"
    using tok by (simp add: RequestIDFromCancelSubject_def Let_def CancelSubject_TrimPrefix ValidateSubjectToken_iff)
  note dec = unary_request_codec.round_trip [OF assms(1) sent(3)]
  show ?thesis
    using sent(4,5) dec read by (auto simp: unary_envelope_def split: sum.splits if_splits)
qed simp

theorem cancellation_names_request_witness:
  "ur_published (serveUnary sample_unary_marshal (\<lambda>_. Inl ''bad'') sample_env sample_request (new_edge_route sample_http) ''/items'') \<noteq> []"
proof -
  let ?run = "serveUnary sample_unary_marshal (\<lambda>_. Inl ''bad'') sample_env sample_request (new_edge_route sample_http) ''/items''"
  have "ur_requests ?run = [(UnarySubject sample_http, ''env'')]" by code_simp
  moreover have "ue_nats sample_env (UnarySubject sample_http) ''env'' = Inl NatsTimeout" "ue_ctx_err sample_env"
    "ue_rand sample_env = Some (replicate 16 CHR ''x'')" by (simp_all add: sample_env_def)
  ultimately show ?thesis
    using cancellation_names_request [OF sample_unary_codec, of "replicate 16 CHR ''x''" sample_env] by simp
qed

text \<open>
  Replies are never mixed up, and failures are told apart. A backend response is passed on
  only if it answers this request's id and carries no error; otherwise the client gets 400 or
  413 for its body, 500 without an id, 503 when no connector listens, 504 when the deadline
  passed or the client left, and 502 for everything else.
\<close>

theorem serveUnary_reply_classified:
  "case ur_outcome (serveUnary m u env req matched suffix) of
     StreamReply resp \<Rightarrow>
       requestID (ue_rand env) = Some (rs_RequestID resp) \<and> unary_response_ok resp \<and> rs_Error resp = None \<and>
       rs_StreamSessionID resp \<noteq> []
   | Replied rep \<Rightarrow>
       (\<exists>resp. rep = writeResponse resp \<and> requestID (ue_rand env) = Some (rs_RequestID resp) \<and>
          unary_response_ok resp \<and> rs_Error resp = None) \<or>
       ur_requests (serveUnary m u env req matched suffix) = [] \<and> hr_status rep \<in> {400, 413, 500, 502} \<or>
       (\<exists>s p. ur_requests (serveUnary m u env req matched suffix) = [(s, p)] \<and>
          (case ue_nats env s p of
             Inl e \<Rightarrow> hr_status rep =
               (if e = NatsNoResponders then 503
                else if e = NatsTimeout \<or> e = NatsDeadlineExceeded \<or> ue_ctx_err env then 504 else 502)
           | Inr _ \<Rightarrow> hr_status rep = 502))"
  using serveUnary_cases [of m u env req matched suffix]
proof cases
  case (sent body rid p)
  show ?thesis
  proof (cases "ue_nats env (UnarySubject (er_cfg matched)) p")
    case (Inl e)
    then show ?thesis using sent by (simp add: nats_status_def http_Error_def)
  next
    case (Inr data)
    show ?thesis
    proof (cases "DecodeResponse u data")
      case (Inl e)
      then show ?thesis using sent Inr by (simp add: http_Error_def)
    next
      case (Inr resp)
      have "unary_response_ok resp"
        using unary_response_codec.decode_ok_iff Inr Response_Validate_iff by blast
      then show ?thesis
        using sent Inr \<open>ue_nats env _ p = Inr data\<close> by (auto simp: http_Error_def)
    qed
  qed
qed simp

text \<open>
  A truncated stream is never shown to the client as complete. While a streamed response
  is being relayed, a step ends it cleanly exactly at the end-of-body frame, gives up exactly
  when the client itself is gone, and aborts the client's connection exactly when the session has
  died or the connector closed it or reported an error; whenever it ends, the session has
  left the link's table.
\<close>

theorem stream_end_honest:
  assumes "serveStreamedResponse_step m l r ev = Some (l', r')" "link_wf l"
    and "sr_addr r < length (l_heap l)"
  shows "(sr_state r' = StreamEnded \<longleftrightarrow>
      (\<exists>werr f fs. ev = SrRecv werr \<and> s_recv (sess l (sr_addr r)) = f # fs \<and> f_Type f = FrameEOF)) \<and>
    (sr_state r' = StreamGone \<longleftrightarrow>
      ev = SrCtx \<or>
      (\<exists>k f fs. ev = SrRecv (Some k) \<and> s_recv (sess l (sr_addr r)) = f # fs \<and> f_Type f = FrameData)) \<and>
    (sr_state r' = StreamAborted \<longleftrightarrow>
      ev = SrDone \<or>
      (\<exists>werr f fs. ev = SrRecv werr \<and> s_recv (sess l (sr_addr r)) = f # fs \<and>
         (f_Type f = FrameClose \<or> f_Type f = FrameError))) \<and>
    (sr_state r' \<noteq> Streaming \<longrightarrow> Session l' (s_id (sess l (sr_addr r))) = None)"
proof -
  have run: "sr_state r = Streaming" using assms(1) by (auto simp: serveStreamedResponse_step_def split: if_splits)
  have closed: "Session (CloseSession m k (sr_addr r)) (s_id (sess l (sr_addr r))) = None"
    if "s_id (sess k (sr_addr r)) = s_id (sess l (sr_addr r))" for k
    using that by (simp add: CloseSession_def Let_def Session_remove)
  have pop: "s_id (sess (pop_recv (sr_addr r) l) (sr_addr r)) = s_id (sess l (sr_addr r))"
    using assms(3) by (simp add: pop_recv_def)
  show ?thesis
  proof (cases ev)
    case SrCtx
    then show ?thesis
      using assms(1) run closed by (auto simp: serveStreamedResponse_step_def stream_finish_def)
  next
    case SrDone
    then show ?thesis
      using assms(1) run closed
      by (auto simp: serveStreamedResponse_step_def stream_finish_def split: if_splits)
  next
    case (SrRecv werr)
    then have r: "stream_recv m werr l r = Some (l', r')"
      using assms(1) run by (simp add: serveStreamedResponse_step_def)
    show ?thesis
      using r
      by (cases rule: stream_recv_cases)
        (use SrRecv run closed [OF pop] in \<open>auto simp: stream_finish_def frame_type_defs\<close>)
  qed
qed

theorem stream_end_honest_witness:
  "\<exists>l' r'. serveStreamedResponse_step sample_marshal (ep_link sample_connector)
     \<lparr>sr_addr = 0, sr_calls = [], sr_state = Streaming\<rparr> SrCtx = Some (l', r') \<and> sr_state r' = StreamGone"
proof -
  let ?r = "\<lparr>sr_addr = 0, sr_calls = [], sr_state = Streaming\<rparr>" and ?l = "ep_link sample_connector"
  have s: "serveStreamedResponse_step sample_marshal ?l ?r SrCtx = Some (stream_finish sample_marshal StreamGone ?l ?r)"
    by (simp add: serveStreamedResponse_step_def)
  obtain l' r' where f: "stream_finish sample_marshal StreamGone ?l ?r = (l', r')" by fastforce
  have "link_wf ?l"
    using sample_established by (simp add: established_def end_ok_def Let_def)
  moreover have "sr_addr ?r < length (l_heap ?l)" by code_simp
  ultimately show ?thesis
    using stream_end_honest [OF s [unfolded f]] s f by simp
qed

end
