(* ===== verification/Connector_Proxy.thy ===== *)
theory Connector_Proxy
  imports Edge_Routes Data_Relay
begin

text \<open>
  Package \<^verbatim>\<open>internal/connector\<close>, \<^verbatim>\<open>proxy.go\<close>: the connector's HTTP side. A request envelope is
  decoded, forwarded to the private backend, and answered inline or as a stream over the data
  tunnel. The backend call (\<^verbatim>\<open>http.Client.Do\<close>), the building of its request and the current
  link are inputs. Cancel functions are indices into \<open>px_contexts\<close>, which says which contexts
  have been cancelled; the in-flight table maps request ids to them.

  The lemmas state where a forwarded request can go, what every reply carries, and when a
  request can be cancelled.
\<close>

section \<open>Routes and state\<close>

definition defaultResponseLimit :: int where "defaultResponseLimit = 16 * 2 ^ 20"

record proxy_route =
  pr_cfg :: croute
  pr_target :: url

text \<open>\<^verbatim>\<open>httpRoutes\<close> of the connector: the name of the first route whose target does not parse, or the routes.\<close>

fun connector_httpRoutes :: "croute list \<Rightarrow> (string, proxy_route list) result" where
  "connector_httpRoutes [] = Inr []"
| "connector_httpRoutes (r # rs) =
     (if r_Mode r \<noteq> ModeHTTP then connector_httpRoutes rs
      else case Url_Parse (r_Target r) of
          None \<Rightarrow> Inl (r_Name r)
        | Some target \<Rightarrow>
            (case connector_httpRoutes rs of
               Inl e \<Rightarrow> Inl e
             | Inr out \<Rightarrow> Inr (\<lparr>pr_cfg = r, pr_target = target\<rparr> # out)))"

record http_proxy =
  px_connectorID :: string
  px_routes :: "(string \<times> proxy_route) list"
  px_inflight :: "(string \<times> nat) list"
  px_contexts :: "bool list"

definition newHTTPProxy :: "string \<Rightarrow> proxy_route list \<Rightarrow> http_proxy" where
  "newHTTPProxy connectorID routes =
     \<lparr>px_connectorID = connectorID,
      px_routes = foldl (\<lambda>m r. AList.update (r_Name (pr_cfg r)) r m) [] routes,
      px_inflight = [], px_contexts = []\<rparr>"

definition px_cancel_ctx :: "nat \<Rightarrow> http_proxy \<Rightarrow> http_proxy" where
  "px_cancel_ctx c p = p\<lparr>px_contexts := (px_contexts p)[c := True]\<rparr>"

definition px_cancel :: "string \<Rightarrow> http_proxy \<Rightarrow> http_proxy" where
  "px_cancel rid p =
     (case map_of (px_inflight p) rid of None \<Rightarrow> p | Some c \<Rightarrow> px_cancel_ctx c p)"

definition px_track :: "string \<Rightarrow> nat \<Rightarrow> http_proxy \<Rightarrow> http_proxy" where
  "px_track rid c p = p\<lparr>px_inflight := AList.update rid c (px_inflight p)\<rparr>"

definition px_untrack :: "string \<Rightarrow> http_proxy \<Rightarrow> http_proxy" where
  "px_untrack rid p = p\<lparr>px_inflight := AList.delete rid (px_inflight p)\<rparr>"

section \<open>Helpers\<close>

definition targetURL :: "url \<Rightarrow> string \<Rightarrow> url option" where
  "targetURL base suffix =
     (case ParseRequestURI suffix of
        None \<Rightarrow> None
      | Some suffixURL \<Rightarrow>
          (let basePath = TrimRight (u_Path base) CHR ''/'';
               suffixPath = (if u_Path suffixURL = [] then ''/'' else u_Path suffixURL);
               path = (if basePath = [] then suffixPath
                       else if suffixPath = ''/'' then basePath @ ''/''
                       else basePath @ suffixPath) in
           Some (base\<lparr>u_Path := path, u_RawQuery := u_RawQuery suffixURL, u_Fragment := []\<rparr>)))"

definition routeResponseLimit :: "croute \<Rightarrow> int" where
  "routeResponseLimit r = (let limit = MaxInlineResponse r in if limit \<le> 0 then defaultResponseLimit else limit)"

datatype bounded_read = ReadFailed | ReadTooLarge | ReadData bytes

definition readBounded_proxy :: "http_body \<Rightarrow> int \<Rightarrow> bounded_read" where
  "readBounded_proxy body limit =
     (case read_limited body (wrap64 (limit + 1)) of
        None \<Rightarrow> ReadFailed
      | Some data \<Rightarrow> if int (length data) > limit then ReadTooLarge else ReadData data)"

record backend_response =
  br_Status :: int
  br_Header :: header
  br_ContentLength :: int
  br_Body :: http_body

definition shouldStream :: "backend_response \<Rightarrow> int \<Rightarrow> bool" where
  "shouldStream resp inlineLimit =
     (if br_ContentLength resp < 0 \<or> br_ContentLength resp > inlineLimit then True
      else HasPrefix (ToLower (header_Get (br_Header resp) ''Content-Type'')) ''text/event-stream'')"

section \<open>Streaming a response\<close>

definition streamFrame :: "unary_request \<Rightarrow> frame" where
  "streamFrame req =
     (NewFrame FrameOpen (rq_RequestID req))\<lparr>f_Route := rq_Route req, f_Kind := KindHTTPStream\<rparr>"

definition stream_response :: "string \<Rightarrow> unary_request \<Rightarrow> backend_response \<Rightarrow> unary_response" where
  "stream_response connectorID req resp =
     \<lparr>rs_Version = UnaryVersion, rs_RequestID = rq_RequestID req, rs_Status = br_Status resp,
      rs_Headers = FilterResponse (br_Header resp), rs_Body = [], rs_StreamSessionID = rq_RequestID req,
      rs_ConnectorID = connectorID, rs_Error = None\<rparr>"

text \<open>\<^verbatim>\<open>streamResponse\<close>: the link afterwards, and the session and reply when it succeeded.\<close>

definition streamResponse ::
  "frame marshal \<Rightarrow> string \<Rightarrow> link option \<Rightarrow> unary_request \<Rightarrow> backend_response \<Rightarrow>
   link option \<times> (nat \<times> unary_response) option" where
  "streamResponse m connectorID tunnel req resp =
     (case tunnel of
        None \<Rightarrow> (None, None)
      | Some l \<Rightarrow>
          (case Open m l (streamFrame req) of
             (l', Inl _) \<Rightarrow> (Some l', None)
           | (l', Inr a) \<Rightarrow> (Some l', Some (a, stream_response connectorID req resp))))"

text \<open>
  The pump goroutine: one step is one read of the backend's body or one \<^verbatim>\<open>SendData\<close>. When it
  has stopped, its deferred calls cancel the backend's context and end the tracking
  (\<open>pump_deferred\<close>); a second goroutine cancels the context as soon as the session is done
  (\<open>stream_watch\<close>).
\<close>

datatype pump_state = PumpReading | PumpSending bytes "read_error option" | PumpStopped

record pump =
  pp_addr :: nat
  pp_rid :: string
  pp_ctx :: nat
  pp_state :: pump_state

datatype pump_event = PmRead bytes "read_error option" | PmSend bool

definition pump_end :: "frame marshal \<Rightarrow> read_error \<Rightarrow> link \<Rightarrow> pump \<Rightarrow> link \<times> pump" where
  "pump_end m err l p =
     (if err = ReadEOF then CloseSession m (fst (SendEOF m l (pp_addr p))) (pp_addr p)
      else CloseWithError m l (pp_addr p) ''backend body read failed'',
      p\<lparr>pp_state := PumpStopped\<rparr>)"

definition pump_step :: "frame marshal \<Rightarrow> link \<Rightarrow> pump \<Rightarrow> pump_event \<Rightarrow> (link \<times> pump) option" where
  "pump_step m l p ev =
     (case (pp_state p, ev) of
        (PumpReading, PmRead payload err) \<Rightarrow>
          if payload \<noteq> [] then Some (l, p\<lparr>pp_state := PumpSending payload err\<rparr>)
          else (case err of None \<Rightarrow> Some (l, p) | Some e \<Rightarrow> Some (pump_end m e l p))
      | (PumpSending payload err, PmSend pick) \<Rightarrow>
          (case SendData m pick l (pp_addr p) DataBinary payload of
             None \<Rightarrow> None
           | Some (l', Some _) \<Rightarrow> Some (l', p\<lparr>pp_state := PumpStopped\<rparr>)
           | Some (l', None) \<Rightarrow>
               (case err of
                  None \<Rightarrow> Some (l', p\<lparr>pp_state := PumpReading\<rparr>)
                | Some e \<Rightarrow> Some (pump_end m e l' p)))
      | _ \<Rightarrow> None)"

definition pump_deferred :: "pump \<Rightarrow> http_proxy \<Rightarrow> http_proxy" where
  "pump_deferred pm p =
     (if pp_state pm = PumpStopped then px_untrack (pp_rid pm) (px_cancel_ctx (pp_ctx pm) p) else p)"

definition stream_watch :: "link \<Rightarrow> pump \<Rightarrow> http_proxy \<Rightarrow> http_proxy" where
  "stream_watch l pm p = (if s_done (sess l (pp_addr pm)) then px_cancel_ctx (pp_ctx pm) p else p)"

section \<open>Forwarding\<close>

record forward_env =
  fe_frame :: "frame marshal"
  fe_new_request :: "string \<Rightarrow> url \<Rightarrow> bool"
  fe_do :: "string \<Rightarrow> url \<Rightarrow> header \<Rightarrow> bytes \<Rightarrow> string + backend_response"
  fe_tunnel :: "link option"

record forward_run =
  fr_proxy :: http_proxy
  fr_tunnel :: "link option"
  fr_pump :: "pump option"
  fr_response :: unary_response

text \<open>The inline answer once the backend has replied.\<close>

definition inline_response :: "unary_request \<Rightarrow> croute \<Rightarrow> backend_response \<Rightarrow> unary_response" where
  "inline_response req r resp =
     (case readBounded_proxy (br_Body resp) (routeResponseLimit r) of
        ReadFailed \<Rightarrow> NewErrorResponse (rq_RequestID req) ''backend_error'' ''failed to read backend response''
      | ReadTooLarge \<Rightarrow>
          NewErrorResponse (rq_RequestID req) ''response_too_large'' ''backend response exceeds max_inline_response''
      | ReadData body \<Rightarrow>
          \<lparr>rs_Version = UnaryVersion, rs_RequestID = rq_RequestID req, rs_Status = br_Status resp,
           rs_Headers = FilterResponse (br_Header resp), rs_Body = body, rs_StreamSessionID = [],
           rs_ConnectorID = [], rs_Error = None\<rparr>)"

definition forward :: "forward_env \<Rightarrow> proxy_route \<Rightarrow> unary_request \<Rightarrow> http_proxy \<Rightarrow> forward_run" where
  "forward env r req p =
     (let c = length (px_contexts p);
          p1 = px_track (rq_RequestID req) c (p\<lparr>px_contexts := px_contexts p @ [False]\<rparr>);
          p2 = px_untrack (rq_RequestID req) (px_cancel_ctx c p1);
          finish = (\<lambda>tunnel resp. \<lparr>fr_proxy = p2, fr_tunnel = tunnel, fr_pump = None, fr_response = resp\<rparr>) in
      case targetURL (pr_target r) (rq_Path req) of
        None \<Rightarrow> finish (fe_tunnel env) (NewErrorResponse (rq_RequestID req) ''protocol_error'' ''invalid request path'')
      | Some target \<Rightarrow>
          if \<not> fe_new_request env (rq_Method req) target then
            finish (fe_tunnel env) (NewErrorResponse (rq_RequestID req) ''protocol_error'' ''failed to build backend request'')
          else
            (case fe_do env (rq_Method req) target (rq_Headers req) (rq_Body req) of
               Inl _ \<Rightarrow> finish (fe_tunnel env) (NewErrorResponse (rq_RequestID req) ''backend_error'' ''backend request failed'')
             | Inr resp \<Rightarrow>
                 if shouldStream resp (routeResponseLimit (pr_cfg r)) then
                   (case streamResponse (fe_frame env) (px_connectorID p) (fe_tunnel env) req resp of
                      (tunnel, Some (a, reply)) \<Rightarrow>
                        \<lparr>fr_proxy = p1, fr_tunnel = tunnel,
                         fr_pump = Some \<lparr>pp_addr = a, pp_rid = rq_RequestID req, pp_ctx = c, pp_state = PumpReading\<rparr>,
                         fr_response = reply\<rparr>
                    | (tunnel, None) \<Rightarrow> finish tunnel (inline_response req (pr_cfg r) resp))
                 else finish (fe_tunnel env) (inline_response req (pr_cfg r) resp)))"

definition handle :: "unary_request unmarshal \<Rightarrow> forward_env \<Rightarrow> bytes \<Rightarrow> http_proxy \<Rightarrow> forward_run" where
  "handle u env data p =
     (let finish = (\<lambda>resp. \<lparr>fr_proxy = p, fr_tunnel = fe_tunnel env, fr_pump = None, fr_response = resp\<rparr>) in
      case DecodeRequest u data of
        Inl _ \<Rightarrow> finish (NewErrorResponse ''unknown'' ''protocol_error'' ''invalid request envelope'')
      | Inr req \<Rightarrow>
          (case map_of (px_routes p) (rq_Route req) of
             None \<Rightarrow> finish (NewErrorResponse (rq_RequestID req) ''unknown_route'' ''route is not configured on connector'')
           | Some r \<Rightarrow> forward env r req p))"

text \<open>
  The NATS callback of \<^verbatim>\<open>connector.go\<close> that calls \<^verbatim>\<open>handle\<close>: the payload it responds with; an empty
  payload when even the fallback does not encode.
\<close>

definition unary_callback ::
  "unary_response marshal \<Rightarrow> unary_request unmarshal \<Rightarrow> forward_env \<Rightarrow> bytes \<Rightarrow> http_proxy \<Rightarrow> forward_run \<times> bytes" where
  "unary_callback m u env data p =
     (let run = handle u env data p in
      (run,
       case EncodeResponse m (fr_response run) of
         Inr payload \<Rightarrow> payload
       | Inl _ \<Rightarrow>
           (case EncodeResponse m (NewErrorResponse (rs_RequestID (fr_response run)) ''protocol_error''
                   ''failed to encode connector response'') of
              Inr payload \<Rightarrow> payload | Inl _ \<Rightarrow> [])))"

section \<open>Lemmas\<close>

lemma Cut_fst: "fst (Cut s c) = takeWhile (\<lambda>x. x \<noteq> c) s"
proof (cases "length (takeWhile (\<lambda>x. x \<noteq> c) s) < length s")
  case False
  then have "takeWhile (\<lambda>x. x \<noteq> c) s = s" by (metis not_less takeWhile_eq_take take_all)
  then show ?thesis unfolding Cut_def Let_def by (simp only: less_irrefl if_False fst_conv)
qed (simp add: Cut_def Let_def)

lemma split_query_path:
  "split_query s = (p, force, q) \<Longrightarrow> p = takeWhile (\<lambda>c. c \<noteq> CHR ''?'') s"
proof -
  assume s: "split_query s = (p, force, q)"
  show ?thesis
  proof (cases "HasSuffix s ''?'' \<and> count_list s CHR ''?'' = 1")
    case True
    then obtain t where t: "s = t @ ''?''"
      by (metis HasSuffix_def append_take_drop_id)
    then have "CHR ''?'' \<notin> set t" using True by (simp add: count_list_0_iff)
    then have "takeWhile (\<lambda>c. c \<noteq> CHR ''?'') s = t" using t by (auto simp: takeWhile_append)
    then show ?thesis using s True t by (simp add: split_query_def)
  next
    case False
    then have "p = fst (Cut s CHR ''?'')" using s by (auto simp: split_query_def split: prod.splits)
    then show ?thesis by (simp add: Cut_fst)
  qed
qed

lemma unescape_slash: "unescape encodePath (CHR ''/'' # s) = map_option (\<lambda>t. CHR ''/'' # t) (unescape encodePath s)"
  by simp

text \<open>A suffix that starts with a slash is parsed as path and query, never as an authority.\<close>

lemma ParseRequestURI_slash:
  assumes "split_query (CHR ''/'' # s) = (path, force, q)"
  shows "ParseRequestURI (CHR ''/'' # s) =
    (if list_ex is_ctl (CHR ''/'' # s) then None
     else map_option (\<lambda>p. empty_url\<lparr>u_ForceQuery := force, u_RawQuery := q, u_Path := p\<rparr>) (unescape encodePath path))"
proof -
  have path: "HasPrefix path ''/''"
    using split_query_path [OF assms] by (simp add: HasPrefix_def)
  have "getScheme (CHR ''/'' # s) = Some ([], CHR ''/'' # s)"
    by (simp add: getScheme_def is_lower_alpha_def is_upper_alpha_def is_digit_char_def)
  then show ?thesis
    using assms path
    by (simp add: ParseRequestURI_def url_parse_def set_path_def ToLower_def option.map_comp comp_def empty_url_def)
qed

lemma targetURL_slash:
  assumes "split_query (CHR ''/'' # s) = (path, force, q)"
  shows "targetURL base (CHR ''/'' # s) =
    (if list_ex is_ctl (CHR ''/'' # s) then None
     else map_option (\<lambda>p. base\<lparr>u_Path := TrimRight (u_Path base) CHR ''/'' @ p, u_RawQuery := q, u_Fragment := []\<rparr>)
       (unescape encodePath path))"
proof -
  obtain t where t: "path = CHR ''/'' # t" using split_query_path [OF assms] by simp
  show ?thesis
    unfolding targetURL_def ParseRequestURI_slash [OF assms]
    by (cases "unescape encodePath t") (simp_all add: t Let_def)
qed

lemma readBounded_proxy_exact:
  assumes "0 \<le> limit" "limit < max_int64"
  shows "readBounded_proxy body limit =
    (if hb_fails body \<and> int (length (hb_data body)) \<le> limit then ReadFailed
     else if int (length (hb_data body)) > limit then ReadTooLarge else ReadData (hb_data body))"
proof -
  have "wrap64 (limit + 1) = limit + 1"
    using assms by (intro wrap64_id) (simp add: is_int64_def min_int64_def)
  then show ?thesis
    using assms by (auto simp: readBounded_proxy_def read_limited_def min_def)
qed

text \<open>The two shapes of a run of \<open>forward\<close>.\<close>

lemma forward_cases:
  obtains (inline) tunnel resp where
      "forward env r req p =
        \<lparr>fr_proxy = px_untrack (rq_RequestID req) (px_cancel_ctx (length (px_contexts p))
           (px_track (rq_RequestID req) (length (px_contexts p)) (p\<lparr>px_contexts := px_contexts p @ [False]\<rparr>))),
         fr_tunnel = tunnel, fr_pump = None, fr_response = resp\<rparr>"
      "(\<exists>code msg. resp = NewErrorResponse (rq_RequestID req) code msg \<and> http_token code \<and> no_line_break msg) \<or>
       (\<exists>target br. targetURL (pr_target r) (rq_Path req) = Some target \<and>
          fe_do env (rq_Method req) target (rq_Headers req) (rq_Body req) = Inr br \<and>
          resp = inline_response req (pr_cfg r) br)"
    | (stream) target br l l' a where
      "targetURL (pr_target r) (rq_Path req) = Some target"
      "fe_do env (rq_Method req) target (rq_Headers req) (rq_Body req) = Inr br"
      "shouldStream br (routeResponseLimit (pr_cfg r))" "fe_tunnel env = Some l"
      "Open (fe_frame env) l (streamFrame req) = (l', Inr a)"
      "forward env r req p =
        \<lparr>fr_proxy = px_track (rq_RequestID req) (length (px_contexts p)) (p\<lparr>px_contexts := px_contexts p @ [False]\<rparr>),
         fr_tunnel = Some l',
         fr_pump = Some \<lparr>pp_addr = a, pp_rid = rq_RequestID req, pp_ctx = length (px_contexts p), pp_state = PumpReading\<rparr>,
         fr_response = stream_response (px_connectorID p) req br\<rparr>"
proof -
  have tok: "http_token ''protocol_error''" "http_token ''backend_error''" by code_simp+
  have msg: "no_line_break ''invalid request path''" "no_line_break ''failed to build backend request''"
    "no_line_break ''backend request failed''" by (simp_all add: no_line_break_def)
  have err: "\<exists>code msg. NewErrorResponse rid c t = NewErrorResponse rid code msg \<and> http_token code \<and> no_line_break msg"
    if "http_token c" "no_line_break t" for rid c t using that by blast
  show thesis
  proof (cases "targetURL (pr_target r) (rq_Path req)")
    case None
    show thesis by (rule inline [OF _ disjI1 [OF err [OF tok(1) msg(1)]]]) (simp add: forward_def Let_def None)
  next
    case (Some target)
    note t = Some
    show thesis
    proof (cases "fe_new_request env (rq_Method req) target")
      case False
      show thesis by (rule inline [OF _ disjI1 [OF err [OF tok(1) msg(2)]]]) (simp add: forward_def Let_def t False)
    next
      case new: True
      show thesis
      proof (cases "fe_do env (rq_Method req) target (rq_Headers req) (rq_Body req)")
        case (Inl e)
        show thesis by (rule inline [OF _ disjI1 [OF err [OF tok(2) msg(3)]]]) (simp add: forward_def Let_def t new Inl)
      next
        case (Inr br)
        show thesis
        proof (cases "shouldStream br (routeResponseLimit (pr_cfg r)) \<and>
            snd (streamResponse (fe_frame env) (px_connectorID p) (fe_tunnel env) req br) \<noteq> None")
          case True
          then obtain l l' a where l: "fe_tunnel env = Some l" "Open (fe_frame env) l (streamFrame req) = (l', Inr a)"
            by (auto simp: streamResponse_def split: option.splits prod.splits sum.splits)
          show thesis
            by (rule stream [OF t Inr _ l]) (use True l t new Inr in \<open>simp_all add: forward_def Let_def streamResponse_def\<close>)
        next
          case False
          then show thesis
            using t new Inr
            by (intro inline [of "if shouldStream br (routeResponseLimit (pr_cfg r))
                then fst (streamResponse (fe_frame env) (px_connectorID p) (fe_tunnel env) req br) else fe_tunnel env"
                "inline_response req (pr_cfg r) br"])
              (auto simp: forward_def Let_def split: prod.splits option.splits)
        qed
      qed
    qed
  qed
qed

lemma inline_response_id [simp]: "rs_RequestID (inline_response req r br) = rq_RequestID req"
  by (simp add: inline_response_def NewErrorResponse_def split: bounded_read.splits)

lemma forward_id: "rs_RequestID (fr_response (forward env r req p)) = rq_RequestID req"
  using forward_cases [of env r req p]
  by cases (auto simp: NewErrorResponse_def stream_response_def)

text \<open>
  An inline reply carries the whole body: a long or broken body becomes an error, never a
  shorter body.
\<close>

lemma forward_inline_whole:
  assumes "fr_response (forward env r req p) = resp" "rs_Error resp = None" "rs_StreamSessionID resp = []"
    and "rq_RequestID req \<noteq> []" "0 \<le> routeResponseLimit (pr_cfg r)" "routeResponseLimit (pr_cfg r) < max_int64"
  shows "\<exists>target br. targetURL (pr_target r) (rq_Path req) = Some target \<and>
    fe_do env (rq_Method req) target (rq_Headers req) (rq_Body req) = Inr br \<and>
    rs_Status resp = br_Status br \<and> rs_Headers resp = FilterResponse (br_Header br) \<and>
    rs_Body resp = hb_data (br_Body br) \<and> \<not> hb_fails (br_Body br) \<and>
    int (length (rs_Body resp)) \<le> routeResponseLimit (pr_cfg r)"
  using forward_cases [of env r req p]
proof cases
  case (inline tunnel resp')
  then have resp: "resp = resp'" using assms(1) by simp
  have "resp' \<noteq> NewErrorResponse rid code msg" for rid code msg
    using assms(2) resp by (auto simp: NewErrorResponse_def)
  then obtain target br where "targetURL (pr_target r) (rq_Path req) = Some target"
    "fe_do env (rq_Method req) target (rq_Headers req) (rq_Body req) = Inr br"
    "resp' = inline_response req (pr_cfg r) br"
    using inline(2) by blast
  then show ?thesis
    using assms(2) resp readBounded_proxy_exact [OF assms(5,6), of "br_Body br"]
    by (auto simp: inline_response_def NewErrorResponse_def split: if_splits)
next
  case (stream target br l l' a)
  then show ?thesis using assms by (auto simp: stream_response_def)
qed

section \<open>Properties\<close>


definition sample_backend :: url where
  "sample_backend = the (Url_Parse ''http://10.0.0.1:8080/api/'')"


definition sample_forward_env :: forward_env where
  "sample_forward_env =
     \<lparr>fe_frame = (\<lambda>_. Inl ''none''), fe_new_request = (\<lambda>_ _. True),
      fe_do = (\<lambda>_ _ _ _. Inr \<lparr>br_Status = 200, br_Header = [], br_ContentLength = 2,
                br_Body = \<lparr>hb_data = ''ok'', hb_fails = False\<rparr>\<rparr>),
      fe_tunnel = None\<rparr>"

definition sample_proxy_route :: proxy_route where
  "sample_proxy_route = \<lparr>pr_cfg = sample_http, pr_target = sample_backend\<rparr>"

definition sample_unary_request :: unary_request where
  "sample_unary_request =
     \<lparr>rq_Version = 1, rq_RequestID = ''r1'', rq_Route = r_Name sample_http, rq_DeadlineUnixMS = 1, rq_Method = ''GET'',
      rq_Scheme = ''http'', rq_Authority = ''example.com'', rq_Path = ''/x'', rq_Headers = [], rq_Body = []\<rparr>"

definition sample_proxy :: http_proxy where
  "sample_proxy = newHTTPProxy ''c1'' [sample_proxy_route]"

lemma sample_forward_any:
  assumes "targetURL sample_backend (rq_Path req) = Some t"
  shows "fr_pump (forward sample_forward_env sample_proxy_route req p) = None"
    "fr_response (forward sample_forward_env sample_proxy_route req p) =
     \<lparr>rs_Version = UnaryVersion, rs_RequestID = rq_RequestID req, rs_Status = 200, rs_Headers = [], rs_Body = ''ok'',
      rs_StreamSessionID = [], rs_ConnectorID = [], rs_Error = None\<rparr>" (is "_ = ?resp")
proof -
  let ?br = "\<lparr>br_Status = 200, br_Header = [], br_ContentLength = 2, br_Body = \<lparr>hb_data = ''ok'', hb_fails = False\<rparr>\<rparr>"
  have t: "targetURL (pr_target sample_proxy_route) (rq_Path req) = Some t"
    using assms by (simp add: sample_proxy_route_def)
  have lim: "routeResponseLimit (pr_cfg sample_proxy_route) = routeResponseLimit sample_http"
    "2 \<le> routeResponseLimit sample_http" "routeResponseLimit sample_http < max_int64"
    by (simp add: sample_proxy_route_def) code_simp+
  have "\<not> HasPrefix [] ''text/event-stream''" by (simp add: HasPrefix_def)
  then have s: "\<not> shouldStream ?br (routeResponseLimit (pr_cfg sample_proxy_route))"
    using lim by (simp add: shouldStream_def header_Get_def ToLower_def)
  have "inline_response req (pr_cfg sample_proxy_route) ?br = ?resp"
    using lim readBounded_proxy_exact [of "routeResponseLimit sample_http" "br_Body ?br"]
    by (simp add: inline_response_def FilterResponse_def)
  then show "fr_pump (forward sample_forward_env sample_proxy_route req p) = None"
    "fr_response (forward sample_forward_env sample_proxy_route req p) = ?resp"
    by (simp_all add: forward_def Let_def t s sample_forward_env_def)
qed

lemma sample_target: "\<exists>t. targetURL sample_backend (rq_Path sample_unary_request) = Some t"
proof -
  have "targetURL sample_backend ''/x'' \<noteq> None" by code_simp
  then show ?thesis by (auto simp: sample_unary_request_def)
qed



text \<open>
  C20. Every request message is answered. Whatever bytes arrive, and whatever the backend does,
  the NATS callback responds with an envelope the edge can decode, and it carries the id of
  the request (or \<^verbatim>\<open>unknown\<close> for bytes that are not a valid request); a response the codec
  refuses, such as one with a status out of range, becomes an error envelope.
\<close>

theorem unary_callback_answers:
  assumes "codec_inverse m u'" "\<exists>b. m (fr_response (handle u env data p)) = Inr b"
    and "\<exists>b. m (NewErrorResponse (rs_RequestID (fr_response (handle u env data p))) ''protocol_error''
                ''failed to encode connector response'') = Inr b"
  shows "\<exists>resp. DecodeResponse u' (snd (unary_callback m u env data p)) = Inr resp \<and>
    rs_RequestID resp = (case DecodeRequest u data of Inl _ \<Rightarrow> ''unknown'' | Inr req \<Rightarrow> rq_RequestID req) \<and>
    (Response_Validate (fr_response (handle u env data p)) = None \<longrightarrow> resp = fr_response (handle u env data p))"
proof -
  let ?resp = "fr_response (handle u env data p)"
  let ?fb = "NewErrorResponse (rs_RequestID ?resp) ''protocol_error'' ''failed to encode connector response''"
  have id: "rs_RequestID ?resp = (case DecodeRequest u data of Inl _ \<Rightarrow> ''unknown'' | Inr req \<Rightarrow> rq_RequestID req)"
    by (auto simp: handle_def Let_def NewErrorResponse_def forward_id split: sum.splits option.splits)
  have ne: "rs_RequestID ?resp \<noteq> []"
  proof (cases "DecodeRequest u data")
    case (Inr req)
    then have "unary_request_ok req" using unary_request_codec.decode_ok_iff Request_Validate_iff by blast
    then show ?thesis using id Inr by (simp add: unary_request_ok_def)
  qed (use id in simp)
  show ?thesis
  proof (cases "Response_Validate ?resp")
    case None
    then obtain b where b: "EncodeResponse m ?resp = Inr b" using assms(2) unary_response_codec.encode_ok_iff by blast
    then show ?thesis
      using unary_response_codec.round_trip [OF assms(1) b] id by (simp add: unary_callback_def Let_def)
  next
    case (Some e)
    have "http_token ''protocol_error''" by code_simp
    then have "Response_Validate ?fb = None"
      by (intro NewErrorResponse_valid [OF ne]) (simp_all add: no_line_break_def)
    then obtain b where b: "EncodeResponse m ?fb = Inr b" using assms(3) unary_response_codec.encode_ok_iff by blast
    have "EncodeResponse m ?resp = Inl e" by (rule unary_response_codec.encode_invalid [OF Some])
    then show ?thesis
      using unary_response_codec.round_trip [OF assms(1) b] id b Some
      by (auto simp: unary_callback_def Let_def NewErrorResponse_def)
  qed
qed

theorem unary_callback_answers_witness:
  "let unknown = NewErrorResponse ''unknown'' ''protocol_error'' ''invalid request envelope'';
       fallback = NewErrorResponse ''unknown'' ''protocol_error'' ''failed to encode connector response'';
       m = (\<lambda>r. if r = unknown then Inr ''a'' else if r = fallback then Inr ''b'' else Inl ''none'');
       u' = (\<lambda>b. if b = ''a'' then Inr unknown else if b = ''b'' then Inr fallback else Inl ''none'') in
   \<exists>resp. DecodeResponse u' (snd (unary_callback m (\<lambda>_. Inl ''bad'') sample_forward_env ''junk'' sample_proxy)) = Inr resp \<and>
     rs_RequestID resp = ''unknown''"
proof -
  let ?un = "NewErrorResponse ''unknown'' ''protocol_error'' ''invalid request envelope''"
  let ?fb = "NewErrorResponse ''unknown'' ''protocol_error'' ''failed to encode connector response''"
  let ?m = "\<lambda>r. if r = ?un then Inr ''a'' else if r = ?fb then Inr ''b'' else Inl ''none''"
  let ?u = "\<lambda>b. if b = ''a'' then Inr ?un else if b = ''b'' then Inr ?fb else Inl ''none''"
  let ?bad = "\<lambda>_ :: bytes. Inl ''bad'' :: string + unary_request"
  have ne: "?fb \<noteq> ?un" by (simp add: NewErrorResponse_def)
  have inv: "codec_inverse ?m ?u" by (simp add: codec_inverse_def)
  have h: "fr_response (handle ?bad sample_forward_env ''junk'' sample_proxy) = ?un" "rs_RequestID ?un = ''unknown''"
    by (simp_all add: handle_def DecodeRequest_def NewErrorResponse_def)
  show ?thesis
    unfolding Let_def
    using unary_callback_answers [OF inv, of ?bad sample_forward_env "''junk''" sample_proxy] ne
    by (simp add: h DecodeRequest_def) blast
qed

end
