(* ===== verification/Http_Stream.thy ===== *)
theory Http_Stream
  imports Edge_Unary Connector_Proxy
begin

text \<open>
  A streamed HTTP response from end to end: the connector's pump (\<^verbatim>\<open>streamResponse\<close> of
  \<^verbatim>\<open>internal/connector/proxy.go\<close>) at one end of a session and the edge's handler
  (\<^verbatim>\<open>serveStreamedResponse\<close> of \<^verbatim>\<open>internal/edge/edge.go\<close>) at the other. Both are clients of the
  session contract of \<open>Session_Pipe\<close>; the pump only sends and the handler only receives.
\<close>

section \<open>The pump keeps to the protocol\<close>

definition pump_input :: "pump_event \<Rightarrow> bytes" where
  "pump_input ev = (case ev of PmRead payload _ \<Rightarrow> payload | PmSend _ \<Rightarrow> [])"

definition pump_matches :: "link \<Rightarrow> pump \<Rightarrow> bytes \<Rightarrow> endpoint \<Rightarrow> bool" where
  "pump_matches l s inp e \<longleftrightarrow>
     ep_link e = l \<and> ep_addr e = pp_addr s \<and> ep_got e = [] \<and>
     ep_ctl e \<le> (if pp_state s = PumpStopped then 2 else 0) \<and>
     (\<exists>rest. inp = carried snd (ep_sent e) @ rest \<and>
        (case pp_state s of PumpReading \<Rightarrow> rest = [] | PumpSending p _ \<Rightarrow> rest = p | PumpStopped \<Rightarrow> True)) \<and>
     (Eof \<in> set (ep_sent e) \<longrightarrow> pp_state s = PumpStopped \<and> inp = carried snd (before_eof (ep_sent e)))"

lemma pump_end_protocol:
  assumes "(l', s') = pump_end m err l s" "ep_link e = l" "ep_addr e = pp_addr s" "ep_got e = []" "ep_ctl e = 0"
    and "inp = carried snd (ep_sent e)" "Eof \<notin> set (ep_sent e)"
  shows "\<exists>e'. (act m u sid)\<^sup>*\<^sup>* (e, e2) (e', e2) \<and> pump_matches l' s' inp e'"
proof (cases "err = ReadEOF")
  case True
  let ?e = "e\<lparr>ep_link := ctl_apply m (ep_link e) (ep_addr e) CallEOF,
    ep_sent := ep_sent e @ ctl_sent m (ep_link e) (ep_addr e) CallEOF, ep_ctl := ep_ctl e + 1\<rparr>"
  let ?f = "?e\<lparr>ep_link := ctl_apply m (ep_link ?e) (ep_addr ?e) CallClose,
    ep_sent := ep_sent ?e @ ctl_sent m (ep_link ?e) (ep_addr ?e) CallClose, ep_ctl := ep_ctl ?e + 1\<rparr>"
  have "act m u sid (e, e2) (?e, e2)" by (rule act_ctl) (simp add: assms(5) recvSlack_def)
  moreover have "act m u sid (?e, e2) (?f, e2)" by (rule act_ctl) (simp add: assms(5) recvSlack_def)
  moreover have "pump_matches l' s' inp ?f"
    using assms True
    by (auto simp: pump_end_def pump_matches_def ctl_sent_def before_eof_def takeWhile_append)
  ultimately show ?thesis by (meson converse_rtranclp_into_rtranclp rtranclp.rtrancl_refl)
next
  case False
  let ?c = "CallError ''backend body read failed''"
  let ?e = "e\<lparr>ep_link := ctl_apply m (ep_link e) (ep_addr e) ?c,
    ep_sent := ep_sent e @ ctl_sent m (ep_link e) (ep_addr e) ?c, ep_ctl := ep_ctl e + 1\<rparr>"
  have "act m u sid (e, e2) (?e, e2)" by (rule act_ctl) (simp add: assms(5) recvSlack_def)
  moreover have "pump_matches l' s' inp ?e"
    using assms False by (auto simp: pump_end_def pump_matches_def ctl_sent_def)
  ultimately show ?thesis by blast
qed

lemma pump_read_protocol:
  assumes "pump_step m l s ev = Some (l', s')" "pump_matches l s inp e" "pp_state s = PumpReading"
  shows "\<exists>e'. (act m u sid)\<^sup>*\<^sup>* (e, e2) (e', e2) \<and> pump_matches l' s' (inp @ pump_input ev) e'"
proof -
  obtain payload err where ev: "ev = PmRead payload err"
    using assms(1,3) by (cases ev) (auto simp: pump_step_def)
  have e: "ep_link e = l" "ep_addr e = pp_addr s" "ep_got e = []" "ep_ctl e = 0" "inp = carried snd (ep_sent e)"
    "Eof \<notin> set (ep_sent e)"
    using assms(2,3) by (auto simp: pump_matches_def)
  show ?thesis
  proof (cases "payload = [] \<and> err \<noteq> None")
    case True
    then obtain x where "err = Some x" by blast
    then have "(l', s') = pump_end m x l s" using True assms(1,3) ev by (simp add: pump_step_def)
    then show ?thesis using pump_end_protocol [OF _ e] True ev by (simp add: pump_input_def)
  next
    case False
    have "pump_matches l' s' (inp @ pump_input ev) e"
      using False assms(1,3) e ev
      by (auto simp: pump_step_def pump_matches_def pump_input_def split: if_splits option.splits)
    then show ?thesis by blast
  qed
qed

lemma pump_send_protocol:
  assumes "pump_step m l s ev = Some (l', s')" "pump_matches l s inp e" "pp_state s = PumpSending payload err"
  shows "\<exists>e'. (act m u sid)\<^sup>*\<^sup>* (e, e2) (e', e2) \<and> pump_matches l' s' (inp @ pump_input ev) e'"
proof -
  obtain pick where ev: "ev = PmSend pick"
    using assms(1,3) by (cases ev) (auto simp: pump_step_def)
  have e: "ep_link e = l" "ep_addr e = pp_addr s" "ep_got e = []" "ep_ctl e = 0"
    "inp = carried snd (ep_sent e) @ payload" "Eof \<notin> set (ep_sent e)"
    using assms(2,3) by (auto simp: pump_matches_def)
  obtain k x where s: "SendData m pick l (pp_addr s) DataBinary payload = Some (k, x)"
    using assms(1,3) ev by (auto simp: pump_step_def split: option.splits)
  let ?e = "e\<lparr>ep_link := k, ep_sent := ep_sent e @ (if x = None then [Data (DataBinary, payload)] else []),
      ep_fail := (ep_fail e \<or> x \<noteq> None \<and> x \<noteq> Some LSessionClosed)\<rparr>"
  have a: "act m u sid (e, e2) (?e, e2)" using s e by (intro act_send) simp
  show ?thesis
  proof (cases "x = None \<and> err \<noteq> None")
    case True
    then obtain y where "err = Some y" by blast
    then have "(l', s') = pump_end m y k s" using True assms(1,3) ev s by (simp add: pump_step_def)
    then have "\<exists>e'. (act m u sid)\<^sup>*\<^sup>* (?e, e2) (e', e2) \<and> pump_matches l' s' inp e'"
      by (rule pump_end_protocol) (use e True in simp_all)
    then show ?thesis using act_first [OF a] ev by (simp add: pump_input_def)
  next
    case False
    have "pump_matches l' s' (inp @ pump_input ev) ?e"
      using False assms(1,3) e ev s
      by (auto simp: pump_step_def pump_matches_def pump_input_def split: option.splits)
    then show ?thesis using a by blast
  qed
qed

lemma pump_protocol:
  assumes "pump_step m l s ev = Some (l', s')" "pump_matches l s inp e"
  shows "\<exists>e'. (act m u sid)\<^sup>*\<^sup>* (e, e2) (e', e2) \<and> pump_matches l' s' (inp @ pump_input ev) e'"
proof (cases "pp_state s")
  case PumpReading
  then show ?thesis by (rule pump_read_protocol [OF assms])
next
  case (PumpSending payload err)
  then show ?thesis by (rule pump_send_protocol [OF assms])
next
  case PumpStopped
  then show ?thesis using assms(1) by (simp add: pump_step_def)
qed

definition pump_out :: "pump \<Rightarrow> bytes" where
  "pump_out s = []"

definition pump_drained :: "pump \<Rightarrow> bool" where
  "pump_drained s \<longleftrightarrow> pp_state s = PumpReading"

interpretation pump_client:
  session_client pump_step pump_input snd pump_matches pump_out pp_addr "\<lambda>_. True" pump_drained "\<lambda>_. False"
proof
  show "\<exists>e'. (act m u sid)\<^sup>*\<^sup>* (e, e2) (e', e2) \<and> pump_matches l' s' (inp @ pump_input ev) e'"
    if "pump_step m l s ev = Some (l', s')" "pump_matches l s inp e" for m l s ev l' s' inp e u sid e2
    using pump_protocol [OF that] .
qed (auto simp: pump_matches_def pump_drained_def pump_out_def)

section \<open>The handler keeps to the protocol\<close>

fun client_body :: "client_call list \<Rightarrow> bytes" where
  "client_body [] = []"
| "client_body (CwWrite b # cs) = b @ client_body cs"
| "client_body (_ # cs) = client_body cs"

lemma client_body_append [simp]: "client_body (xs @ ys) = client_body xs @ client_body ys"
  by (induction xs rule: client_body.induct) auto

definition reader_out :: "stream_reader \<Rightarrow> bytes" where
  "reader_out r = client_body (sr_calls r)"

definition reader_alive :: "stream_reader \<Rightarrow> bool" where
  "reader_alive r \<longleftrightarrow> sr_state r \<noteq> StreamGone"

definition reader_eof :: "stream_reader \<Rightarrow> bool" where
  "reader_eof r \<longleftrightarrow> sr_state r = StreamEnded"

definition reader_matches :: "link \<Rightarrow> stream_reader \<Rightarrow> bytes \<Rightarrow> endpoint \<Rightarrow> bool" where
  "reader_matches l r inp e \<longleftrightarrow>
     ep_link e = l \<and> ep_addr e = sr_addr r \<and> ep_ctl e \<le> (if sr_state r = Streaming then 0 else 1) \<and>
     inp = [] \<and> carried snd (ep_sent e) = [] \<and> Eof \<notin> set (ep_sent e) \<and>
     (\<exists>rest. carried snd (ep_got e) = reader_out r @ rest \<and> (reader_alive r \<longrightarrow> rest = [])) \<and>
     (reader_eof r \<longrightarrow> Eof \<in> set (ep_got e) \<and>
        (\<exists>more. reader_out r = carried snd (before_eof (ep_got e)) @ more))"

lemma reader_finish_protocol:
  assumes "(l', r') = stream_finish m st l r" "st \<noteq> Streaming"
    and "ep_link e = l" "ep_addr e = sr_addr r" "ep_ctl e = 0" "carried snd (ep_sent e) = []" "Eof \<notin> set (ep_sent e)"
    and "\<exists>rest. carried snd (ep_got e) = reader_out r @ rest \<and> (st \<noteq> StreamGone \<longrightarrow> rest = [])"
    and "st = StreamEnded \<longrightarrow> Eof \<in> set (ep_got e)"
  shows "\<exists>e'. (act m u sid)\<^sup>*\<^sup>* (e, e2) (e', e2) \<and> reader_matches l' r' [] e'"
proof -
  let ?e = "e\<lparr>ep_link := ctl_apply m (ep_link e) (ep_addr e) CallClose,
    ep_sent := ep_sent e @ ctl_sent m (ep_link e) (ep_addr e) CallClose, ep_ctl := ep_ctl e + 1\<rparr>"
  have "act m u sid (e, e2) (?e, e2)" by (rule act_ctl) (simp add: assms(5) recvSlack_def)
  moreover have "reader_matches l' r' [] ?e"
    using assms before_eof_prefix [of snd "ep_got e"]
    by (auto simp: stream_finish_def reader_matches_def ctl_sent_def reader_out_def reader_alive_def reader_eof_def)
  ultimately show ?thesis by blast
qed

lemma reader_recv_protocol:
  assumes "stream_recv m werr l r = Some (l', r')" "reader_matches l r inp e" "sr_state r = Streaming"
  shows "\<exists>e'. (act m u sid)\<^sup>*\<^sup>* (e, e2) (e', e2) \<and> reader_matches l' r' inp e'"
proof -
  have e: "ep_link e = l" "ep_addr e = sr_addr r" "ep_ctl e = 0" "carried snd (ep_sent e) = []"
    "Eof \<notin> set (ep_sent e)" "inp = []" "carried snd (ep_got e) = reader_out r"
    using assms(2,3) by (auto simp: reader_matches_def reader_alive_def)
  have es: "ep_sess e = sess l (sr_addr r)" using e by (simp add: ep_sess_def)
  let ?l = "pop_recv (sr_addr r) l"
  have pop: "act m u sid (e, e2) (e\<lparr>ep_link := ?l, ep_got := ep_got e @ got_item f\<rparr>, e2)"
    if "s_recv (sess l (sr_addr r)) = f # fs" "f_Type f \<noteq> FrameData" for f fs
    using act_take [of e f fs ?l m u sid e2] that es e(1,2) by simp
  have none: "carried snd (got_item f) = []" if "f_Type f \<noteq> FrameData" for f
    using that by (simp add: got_item_def frame_item_def)
  have fin: ?thesis if q: "s_recv (sess l (sr_addr r)) = f # fs" "f_Type f \<noteq> FrameData"
    and f: "(l', r') = stream_finish m st ?l r" "st \<noteq> Streaming" "st = StreamEnded \<longrightarrow> f_Type f = FrameEOF" for f fs st
  proof -
    have "\<exists>e'. (act m u sid)\<^sup>*\<^sup>* (e\<lparr>ep_link := ?l, ep_got := ep_got e @ got_item f\<rparr>, e2) (e', e2) \<and>
        reader_matches l' r' [] e'"
      by (rule reader_finish_protocol [OF f(1,2)]) (use e f(3) none [OF q(2)] in auto)
    then show ?thesis using act_first [OF pop [OF q]] e(6) by blast
  qed
  show ?thesis
    using assms(1)
  proof (cases rule: stream_recv_cases)
    case (data_ok f fs)
    let ?e = "e\<lparr>ep_link := AckData m ?l (sr_addr r), ep_got := ep_got e @ got_item f,
        ep_fail := (ep_fail e \<or> ack_lost m ?l (sr_addr r))\<rparr>"
    have "act m u sid (e, e2) (?e, e2)" using act_take [of e f fs ?l m u sid e2] data_ok es e by simp
    moreover have "reader_matches l' r' inp ?e"
      using data_ok e assms(3) by (simp add: reader_matches_def reader_out_def reader_alive_def reader_eof_def)
    ultimately show ?thesis by blast
  next
    case (data_fail f fs k)
    let ?e = "e\<lparr>ep_link := ?l, ep_got := ep_got e @ got_item f, ep_fail := True\<rparr>"
    have a: "act m u sid (e, e2) (?e, e2)" using act_abandon [of e f fs m u sid e2] data_fail es e by simp
    have "\<exists>rest. f_Payload f = take k (f_Payload f) @ rest" by (metis append_take_drop_id)
    then have "\<exists>e'. (act m u sid)\<^sup>*\<^sup>* (?e, e2) (e', e2) \<and> reader_matches l' r' [] e'"
      by (intro reader_finish_protocol [OF data_fail(4)]) (use e data_fail(2) in \<open>auto simp: reader_out_def\<close>)
    then show ?thesis using act_first [OF a] e(6) by blast
  next
    case (ended f fs)
    then show ?thesis using fin [OF ended(1) _ ended(3)] by simp
  next
    case (aborted f fs)
    then show ?thesis using fin [OF aborted(1) _ aborted(3)] by auto
  next
    case (other f fs)
    have "reader_matches l' r' inp (e\<lparr>ep_link := ?l, ep_got := ep_got e @ got_item f\<rparr>)"
      using other e assms(3) none [of f] by (simp add: reader_matches_def reader_alive_def reader_eof_def)
    then show ?thesis using pop [OF other(1)] other(2) by auto
  qed
qed

lemma reader_protocol:
  assumes "serveStreamedResponse_step m l r ev = Some (l', r')" "reader_matches l r inp e"
  shows "\<exists>e'. (act m u sid)\<^sup>*\<^sup>* (e, e2) (e', e2) \<and> reader_matches l' r' (inp @ []) e'"
proof -
  have run: "sr_state r = Streaming" using assms(1) by (auto simp: serveStreamedResponse_step_def split: if_splits)
  have e: "ep_link e = l" "ep_addr e = sr_addr r" "ep_ctl e = 0" "carried snd (ep_sent e) = []"
    "Eof \<notin> set (ep_sent e)" "inp = []" "carried snd (ep_got e) = reader_out r"
    using assms(2) run by (auto simp: reader_matches_def reader_alive_def)
  have fin: ?thesis if "(l', r') = stream_finish m st l r" "st \<noteq> Streaming" "st \<noteq> StreamEnded" for st
    using reader_finish_protocol [OF that(1,2) e(1-5)] e that(3) by simp
  show ?thesis
  proof (cases ev)
    case SrCtx
    then have "(l', r') = stream_finish m StreamGone l r" using assms(1) run by (simp add: serveStreamedResponse_step_def)
    then show ?thesis by (rule fin) simp_all
  next
    case SrDone
    then have "(l', r') = stream_finish m StreamAborted l r"
      using assms(1) run by (simp add: serveStreamedResponse_step_def split: if_splits)
    then show ?thesis by (rule fin) simp_all
  next
    case (SrRecv werr)
    then show ?thesis
      using reader_recv_protocol [OF _ assms(2) run] assms(1) run by (simp add: serveStreamedResponse_step_def)
  qed
qed

definition reader_input :: "stream_event \<Rightarrow> bytes" where
  "reader_input ev = []"

interpretation stream_client:
  session_client serveStreamedResponse_step reader_input snd reader_matches reader_out sr_addr reader_alive "\<lambda>_. True" reader_eof
proof
  show "\<exists>e'. (act m u sid)\<^sup>*\<^sup>* (e, e2) (e', e2) \<and> reader_matches l' s' (inp @ reader_input ev) e'"
    if "serveStreamedResponse_step m l s ev = Some (l', s')" "reader_matches l s inp e" for m l s ev l' s' inp e u sid e2
    using reader_protocol [OF that] by (simp add: reader_input_def)
qed (auto simp: reader_matches_def)

interpretation stream_pair:
  session_pair pump_step pump_input snd pump_matches pump_out pp_addr "\<lambda>_. True" pump_drained "\<lambda>_. False"
    serveStreamedResponse_step reader_input reader_matches reader_out sr_addr reader_alive "\<lambda>_. True" reader_eof
  by unfold_locales

section \<open>Streams begin\<close>

type_synonym pump_party = "(pump, char) party"
type_synonym reader_party = "(stream_reader, char) party"

definition stream_begin :: "frame unmarshal \<Rightarrow> string \<Rightarrow> pump_party \<times> reader_party \<Rightarrow> bool" where
  "stream_begin u sid s \<longleftrightarrow>
     (\<exists>c. system_inv u sid c \<and>
        pump_matches (pa_link (fst s)) (pa_state (fst s)) (pa_in (fst s)) (fst c) \<and>
        reader_matches (pa_link (snd s)) (pa_state (snd s)) (pa_in (snd s)) (snd c))"

abbreviation http_stream_step ::
  "frame marshal \<Rightarrow> frame unmarshal \<Rightarrow> string \<Rightarrow> pump_party \<times> reader_party \<Rightarrow> pump_party \<times> reader_party \<Rightarrow> bool" where
  "http_stream_step \<equiv> pair_step pump_step pump_input serveStreamedResponse_step reader_input"

lemma stream_begin_pair:
  assumes "stream_begin u sid s"
  obtains c where "system_inv u sid c" "stream_pair.pair_matches s c"
  using assms by (cases s) (auto simp: stream_begin_def stream_pair.pair_matches_def)

text \<open>
  The handler may claim the session at any time after the edge has accepted it: the pump may
  have been running, and frames may have arrived.
\<close>

lemma stream_begin_claimed:
  assumes "system_inv u sid (e, e2)" "pump_matches l pm inp e"
    and "ep_sent e2 = []" "ep_got e2 = []" "ep_ctl e2 = 0"
    and "TryClaim (ep_link e2) (ep_addr e2) = (ok, k)"
  shows "stream_begin u sid
    (\<lparr>pa_link = l, pa_state = pm, pa_in = inp\<rparr>,
     \<lparr>pa_link = k, pa_state = \<lparr>sr_addr = ep_addr e2, sr_calls = [CwHeader st h], sr_state = Streaming\<rparr>, pa_in = []\<rparr>)"
proof -
  let ?e2 = "e2\<lparr>ep_link := snd (TryClaim (ep_link e2) (ep_addr e2))\<rparr>"
  have "system_inv u sid (?e2, e)" using assms(1) system_inv_swap claim_inv by metis
  then have "system_inv u sid (e, ?e2)" using system_inv_swap by metis
  moreover have "reader_matches k \<lparr>sr_addr = ep_addr e2, sr_calls = [CwHeader st h], sr_state = Streaming\<rparr> [] ?e2"
    using assms(3-6) by (simp add: reader_matches_def reader_out_def reader_alive_def reader_eof_def)
  ultimately show ?thesis
    using assms(2) unfolding stream_begin_def by (intro exI [of _ "(e, ?e2)"]) simp
qed

lemma pump_matches_new:
  "pump_matches l \<lparr>pp_addr = a, pp_rid = rid, pp_ctx = c, pp_state = PumpReading\<rparr> [] (new_endpoint l a)"
  by (simp add: pump_matches_def new_endpoint_def)

section \<open>Properties\<close>

text \<open>
  C7. A streamed response is delivered whole or visibly broken. In every run of the
  connector's pump, the tunnel and the edge's handler, what the client has been sent is a
  prefix of what the pump has read from the backend's body; and when the handler returns
  normally, the pump has read the body to its end and the client has been sent all of it.
\<close>

theorem streamed_response_complete:
  assumes "codec_inverse m u" "stream_begin u sid s0" "(http_stream_step m u sid)\<^sup>*\<^sup>* s0 (x, y)"
  shows "(\<exists>rest. pa_in x = client_body (sr_calls (pa_state y)) @ rest) \<and>
    (sr_state (pa_state y) = StreamEnded \<longrightarrow>
       client_body (sr_calls (pa_state y)) = pa_in x \<and> pp_state (pa_state x) = PumpStopped)"
proof -
  obtain c where c: "system_inv u sid c" "stream_pair.pair_matches s0 c"
    using stream_begin_pair [OF assms(2)] by blast
  have stop: "pp_state (pa_state x) = PumpStopped" if ended: "sr_state (pa_state y) = StreamEnded"
  proof -
    obtain e e2 where x: "pump_matches (pa_link x) (pa_state x) (pa_in x) e"
      and y: "reader_matches (pa_link y) (pa_state y) (pa_in y) e2" and o: "in_order u sid e e2"
      using stream_pair.run_flow [OF assms(1) c assms(3)] by metis
    have "Eof \<in> set (ep_got e2)" using y ended by (simp add: reader_matches_def reader_eof_def)
    then have "Eof \<in> set (ep_sent e)" using o by (auto simp: in_order_def)
    then show ?thesis using x by (simp add: pump_matches_def)
  qed
  then show ?thesis
    using stream_pair.transparent [OF assms(1) c assms(3)] stream_pair.eof_complete [OF assms(1) c assms(3)]
    by (simp add: reader_out_def reader_eof_def)
qed

text \<open>A sample stream: the connector opened the session, the edge accepted and claimed it.\<close>

definition sample_stream :: "pump_party \<times> reader_party" where
  "sample_stream =
     (\<lparr>pa_link = ep_link sample_edge, pa_state = \<lparr>pp_addr = 0, pp_rid = ''s'', pp_ctx = 0, pp_state = PumpReading\<rparr>, pa_in = []\<rparr>,
      \<lparr>pa_link = snd (TryClaim (ep_link sample_connector) 0),
       pa_state = \<lparr>sr_addr = 0, sr_calls = [CwHeader 200 []], sr_state = Streaming\<rparr>, pa_in = []\<rparr>)"

lemma sample_stream_begin: "stream_begin u ''s'' sample_stream"
proof -
  have a: "ep_addr sample_connector = 0" "ep_addr sample_edge = 0" by code_simp+
  have n: "sample_edge = new_endpoint (ep_link sample_edge) 0" "sample_connector = new_endpoint (ep_link sample_connector) 0"
    by (simp_all add: sample_edge_def sample_connector_def new_endpoint_def)
  have h: "ep_sent sample_connector = []" "ep_got sample_connector = []" "ep_ctl sample_connector = 0" by code_simp+
  obtain ok k where t: "TryClaim (ep_link sample_connector) 0 = (ok, k)" by fastforce
  have "pump_matches (ep_link sample_edge) \<lparr>pp_addr = 0, pp_rid = ''s'', pp_ctx = 0, pp_state = PumpReading\<rparr> [] sample_edge"
    using pump_matches_new [of "ep_link sample_edge" 0] n(1) by metis
  then have "stream_begin u ''s''
    (\<lparr>pa_link = ep_link sample_edge, pa_state = \<lparr>pp_addr = 0, pp_rid = ''s'', pp_ctx = 0, pp_state = PumpReading\<rparr>, pa_in = []\<rparr>,
     \<lparr>pa_link = k, pa_state = \<lparr>sr_addr = ep_addr sample_connector, sr_calls = [CwHeader 200 []], sr_state = Streaming\<rparr>, pa_in = []\<rparr>)"
    using t by (intro stream_begin_claimed [OF established_inv [OF sample_established] _ h]) (simp_all add: a)
  then show ?thesis using t by (simp add: sample_stream_def a)
qed

definition sample_stream_run :: "pump_party \<times> reader_party" where
  "sample_stream_run =
     run_moves pump_step pump_input serveStreamedResponse_step reader_input sample_marshal sample_unmarshal
       [First (PmRead ''hi'' (Some ReadEOF)), First (PmSend True), ToSecond, Second (SrRecv None), ToSecond,
        Second (SrRecv None)] sample_stream"

theorem streamed_response_complete_witness:
  "sr_state (pa_state (snd sample_stream_run)) = StreamEnded \<and>
   client_body (sr_calls (pa_state (snd sample_stream_run))) = ''hi''"
proof -
  let ?x = "fst sample_stream_run" and ?y = "snd sample_stream_run"
  have r: "(http_stream_step sample_marshal sample_unmarshal ''s'')\<^sup>*\<^sup>* sample_stream (?x, ?y)"
    unfolding sample_stream_run_def prod.collapse by (rule run_moves_reach)
  have "sr_state (pa_state ?y) = StreamEnded" "pa_in ?x = ''hi''" by code_simp+
  then show ?thesis using streamed_response_complete [OF sample_codec sample_stream_begin r] by simp
qed

text \<open>
  Streaming never breaks flow control: in every run of the pump and the handler, the next
  data or control frame that arrives for a session still in its table finds room, at both
  ends.
\<close>

theorem stream_never_violates_flow_control:
  assumes "codec_inverse m u" "stream_begin u sid s0" "(http_stream_step m u sid)\<^sup>*\<^sup>* s0 (x, y)"
  shows "(Session (pa_link y) sid = Some (sr_addr (pa_state y)) \<longrightarrow>
      room_for_next m u sid pick (pa_link x) (pa_link y) (sr_addr (pa_state y))) \<and>
    (Session (pa_link x) sid = Some (pp_addr (pa_state x)) \<longrightarrow>
      room_for_next m u sid pick (pa_link y) (pa_link x) (pp_addr (pa_state x)))"
proof -
  obtain c where c: "system_inv u sid c" "stream_pair.pair_matches s0 c"
    using stream_begin_pair [OF assms(2)] by blast
  show ?thesis using stream_pair.no_violation [OF assms(1) c assms(3)] .
qed

theorem stream_never_violates_flow_control_witness:
  "room_for_next sample_marshal sample_unmarshal ''s'' True
     (pa_link (fst sample_stream)) (pa_link (snd sample_stream)) 0"
proof -
  have "Session (pa_link (snd sample_stream)) ''s'' = Some 0" "sr_addr (pa_state (snd sample_stream)) = 0" by code_simp+
  then show ?thesis
    using stream_never_violates_flow_control [OF sample_codec sample_stream_begin,
        of "fst sample_stream" "snd sample_stream" True] by simp
qed

end
