(* ===== verification/WebSocket_Pipe.thy ===== *)
theory WebSocket_Pipe
  imports Data_Relay
begin

text \<open>
  Two WebSocket relays (\<^verbatim>\<open>RelayWebSocket\<close> of \<^verbatim>\<open>internal/datatunnel/relay.go\<close>, modelled in
  \<open>Data_Relay\<close>) at the two ends of a session: the second client of the session contract.
  Messages, unlike the bytes of a TCP connection, keep their boundaries and their type.
\<close>

section \<open>The life of a WebSocket relay\<close>

definition ws_ok :: "ws_call relay \<Rightarrow> bool" where
  "ws_ok r \<longleftrightarrow>
     (ry_result r \<noteq> None \<longrightarrow> ry_reader r = Stopped) \<and>
     (if ry_returned r then \<exists>cs. ry_log r = cs @ [WsClosed] \<and> WsClosed \<notin> set cs
      else WsClosed \<notin> set (ry_log r))"

lemma ws_ok_new [simp]: "ws_ok (new_relay a t now)"
  by (simp add: ws_ok_def new_relay_def)

lemma ws_cases:
  assumes "RelayWebSocket_step m l r ev = Some (l', r')"
  obtains (read) res where "ev = RwRead res" "ws_read res r = Some r'" "l' = l"
    | (send) pick now where "ev = RwSend pick now" "reader_send m pick now l r = Some (l', r')"
    | (ctx) "ev = RwCtx" "\<not> ry_returned r" "(l', r') = finish_relay m WsClosed l r"
    | (done_) "ev = RwDone" "\<not> ry_returned r" "s_done (sess l (ry_addr r))"
        "(l', r') = finish_relay m WsClosed l r"
    | (result) "ev = RwResult" "\<not> ry_returned r" "ws_result m l r = Some (l', r')"
    | (recv) wok now where "ev = RwRecv wok now" "\<not> ry_returned r" "ws_recv m wok now l r = Some (l', r')"
    | (idle) now where "ev = RwIdle now" "\<not> ry_returned r" "relay_idle m WsClosed now l r = Some (l', r')"
  using assms by (cases ev) (auto simp: RelayWebSocket_step_def split: if_splits)

lemma ws_recv_cases:
  assumes "ws_recv m wok now l r = Some (l', r')"
  obtains (data_ok) f fs where "s_recv (sess l (ry_addr r)) = f # fs" "f_Type f = FrameData" "wok"
      "l' = AckData m (pop_recv (ry_addr r) l) (ry_addr r)"
      "r' = r\<lparr>ry_log := ry_log r @ [WsWrote (f_DataKind f = DataText) (f_Payload f)],
        ry_idle := touch now (ry_idle r)\<rparr>"
    | (data_fail) f fs where "s_recv (sess l (ry_addr r)) = f # fs" "f_Type f = FrameData" "\<not> wok"
      "(l', r') = finish_relay m WsClosed (pop_recv (ry_addr r) l) r"
    | (closing) f fs where "s_recv (sess l (ry_addr r)) = f # fs" "f_Type f = FrameClose"
      "(l', r') = finish_relay m WsClosed (pop_recv (ry_addr r) l)
         (if f_CloseCode f \<noteq> 0
          then r\<lparr>ry_log := ry_log r @ [WsCloseMessage (f_CloseCode f) (f_Payload f)]\<rparr> else r)"
    | (ending) f fs where "s_recv (sess l (ry_addr r)) = f # fs" "f_Type f = FrameEOF \<or> f_Type f = FrameError"
      "(l', r') = finish_relay m WsClosed (pop_recv (ry_addr r) l) r"
    | (other) f fs where "s_recv (sess l (ry_addr r)) = f # fs"
      "f_Type f \<notin> {FrameData, FrameEOF, FrameClose, FrameError}"
      "l' = pop_recv (ry_addr r) l" "r' = r"
proof (cases "s_recv (sess l (ry_addr r))")
  case Nil
  then show thesis using assms by (simp add: ws_recv_def)
next
  case (Cons f fs)
  note q = Cons
  consider "f_Type f = FrameData" | "f_Type f = FrameClose" | "f_Type f = FrameEOF \<or> f_Type f = FrameError"
    | "f_Type f \<notin> {FrameData, FrameEOF, FrameClose, FrameError}" by blast
  then show thesis
  proof cases
    case 1
    then show thesis
      using assms q data_ok [OF q 1] data_fail [OF q 1]
      by (cases wok) (simp_all add: ws_recv_def Let_def)
  next
    case 2
    then have "f_Type f \<noteq> FrameData" by (auto simp: frame_type_defs)
    then show thesis using assms q 2 closing [OF q 2] by (simp add: ws_recv_def Let_def)
  next
    case 3
    then have "f_Type f \<noteq> FrameData" "f_Type f \<noteq> FrameClose" by (auto simp: frame_type_defs)
    then show thesis using assms q 3 ending [OF q 3] by (simp add: ws_recv_def Let_def)
  next
    case 4
    then have "l' = pop_recv (ry_addr r) l" "r' = r"
      using assms q by (auto simp: ws_recv_def Let_def)
    then show thesis by (rule other [OF q 4])
  qed
qed

lemma ws_step_ok:
  assumes "RelayWebSocket_step m l r ev = Some (l', r')" "ws_ok r"
  shows "ws_ok r'"
  using assms(1)
proof (cases rule: ws_cases)
  case (read res)
  then show ?thesis using assms(2) by (auto simp: ws_read_def ws_ok_def split: if_splits sum.splits prod.splits)
next
  case (send pick now)
  then show ?thesis
    using assms(2) by (auto simp: reader_send_def Let_def ws_ok_def split: reader.splits option.splits)
next
  case result
  then show ?thesis
    using assms(2) by (auto simp: ws_result_def Let_def ws_ok_def finish_relay_def split: option.splits read_error.splits)
next
  case (recv wok now)
  show ?thesis
    using recv(3) by (cases rule: ws_recv_cases) (use assms(2) recv(2) in \<open>auto simp: finish_eq ws_ok_def\<close>)
next
  case (idle now)
  show ?thesis
    using idle(3) by (cases rule: relay_idle_cases) (use assms(2) idle(2) in \<open>auto simp: finish_eq ws_ok_def\<close>)
qed (use assms(2) in \<open>simp_all add: ws_ok_def finish_eq\<close>)

section \<open>A WebSocket relay keeps to the protocol\<close>

text \<open>A message: whether it is text, and its payload.\<close>

type_synonym ws_message = "bool \<times> bytes"

definition chunk_message :: "chunk \<Rightarrow> ws_message list" where
  "chunk_message c = [(fst c = DataText, snd c)]"

definition messages_of :: "chunk item list \<Rightarrow> ws_message list" where
  "messages_of xs = carried chunk_message xs"

lemma messages_of_simps [simp]:
  "messages_of [] = []" "messages_of (Data c # xs) = (fst c = DataText, snd c) # messages_of xs"
  "messages_of (Eof # xs) = messages_of xs" "messages_of (Fin # xs) = messages_of xs"
  "messages_of (xs @ ys) = messages_of xs @ messages_of ys"
  by (simp_all add: messages_of_def chunk_message_def)

lemma messages_of_other: "f_Type f \<noteq> FrameData \<Longrightarrow> messages_of (got_item f) = []"
  by (simp add: got_item_def frame_item_def)

fun ws_written :: "ws_call list \<Rightarrow> ws_message list" where
  "ws_written [] = []"
| "ws_written (WsWrote t b # cs) = (t, b) # ws_written cs"
| "ws_written (_ # cs) = ws_written cs"

lemma ws_written_append [simp]: "ws_written (xs @ ys) = ws_written xs @ ws_written ys"
  by (induction xs rule: ws_written.induct) auto

definition ws_out :: "ws_call relay \<Rightarrow> ws_message list" where
  "ws_out r = ws_written (ry_log r)"

definition ws_input :: "ws_event \<Rightarrow> ws_message list" where
  "ws_input ev =
     (case ev of
        RwRead (Inr (t, payload)) \<Rightarrow> if t = WsOtherType then [] else [(t = WsText, payload)]
      | _ \<Rightarrow> [])"

definition ws_sent_matches :: "ws_call relay \<Rightarrow> ws_message list \<Rightarrow> endpoint \<Rightarrow> bool" where
  "ws_sent_matches r inp e \<longleftrightarrow>
     (\<exists>rest. inp = messages_of (ep_sent e) @ rest \<and>
        (case ry_reader r of
           Reading \<Rightarrow> rest = [] | Sending k p _ \<Rightarrow> rest = [(k = DataText, p)] | Stopped \<Rightarrow> True)) \<and>
     Eof \<notin> set (ep_sent e)"

definition ws_got_matches :: "ws_call relay \<Rightarrow> endpoint \<Rightarrow> bool" where
  "ws_got_matches r e \<longleftrightarrow>
     (\<exists>rest. messages_of (ep_got e) = ws_out r @ rest \<and> (\<not> ry_returned r \<longrightarrow> rest = []))"

definition ws_matches :: "link \<Rightarrow> ws_call relay \<Rightarrow> ws_message list \<Rightarrow> endpoint \<Rightarrow> bool" where
  "ws_matches l r inp e \<longleftrightarrow>
     ws_ok r \<and> ep_link e = l \<and> ep_addr e = ry_addr r \<and> ep_ctl e \<le> (if ry_returned r then 2 else 0) \<and>
     ws_sent_matches r inp e \<and> ws_got_matches r e"

lemmas ws_matches_defs = ws_matches_def ws_sent_matches_def ws_got_matches_def ws_out_def

lemma ws_sim_finish:
  assumes fin: "(l', r') = finish_relay m WsClosed l r" and r: "\<not> ry_returned r" "ws_ok r'"
    and e: "ep_link e = l" "ep_addr e = ry_addr r" "ep_ctl e \<le> 1" "ws_sent_matches r inp e"
    and got: "\<exists>rest. messages_of (ep_got e) = ws_out r @ rest"
  shows "\<exists>e'. (act m u sid)\<^sup>*\<^sup>* (e, e2) (e', e2) \<and> ws_matches l' r' inp e'"
proof -
  let ?e = "e\<lparr>ep_link := ctl_apply m (ep_link e) (ep_addr e) CallClose,
    ep_sent := ep_sent e @ ctl_sent m (ep_link e) (ep_addr e) CallClose, ep_ctl := ep_ctl e + 1\<rparr>"
  have "ep_ctl e < recvSlack" using e(3) by (simp add: recvSlack_def)
  then have "act m u sid (e, e2) (?e, e2)" by (rule act_ctl)
  moreover have "ws_matches l' r' inp ?e"
    using fin r e got by (simp add: ws_matches_defs finish_relay_def ctl_sent_def)
  ultimately show ?thesis by blast
qed

lemma ws_sim_send:
  assumes step: "reader_send m pick now l r = Some (l', r')" and ok: "ws_ok r'" and c: "ws_matches l r inp e"
  shows "\<exists>e'. (act m u sid)\<^sup>*\<^sup>* (e, e2) (e', e2) \<and> ws_matches l' r' inp e'"
proof -
  obtain k p err where rd: "ry_reader r = Sending k p err"
    using step by (auto simp: reader_send_def split: reader.splits)
  obtain x where s: "SendData m pick l (ry_addr r) k p = Some (l', x)"
    using step by (auto simp: reader_send_def rd Let_def split: option.splits)
  let ?e = "e\<lparr>ep_link := l', ep_sent := ep_sent e @ (if x = None then [Data (k, p)] else []),
      ep_fail := (ep_fail e \<or> x \<noteq> None \<and> x \<noteq> Some LSessionClosed)\<rparr>"
  have "act m u sid (e, e2) (?e, e2)"
    using s c by (intro act_send) (simp add: ws_matches_def)
  moreover have "ws_matches l' r' inp ?e"
    using step s c ok rd
    by (auto simp: ws_matches_defs reader_send_def Let_def split: option.splits)
  ultimately show ?thesis by blast
qed

lemma ws_sim_result:
  assumes step: "ws_result m l r = Some (l', r')" and r: "\<not> ry_returned r" and ok: "ws_ok r'"
    and c: "ws_matches l r inp e"
  shows "\<exists>e'. (act m u sid)\<^sup>*\<^sup>* (e, e2) (e', e2) \<and> ws_matches l' r' inp e'"
proof -
  let ?r = "r\<lparr>ry_result := None\<rparr>"
  have e: "ep_link e = l" "ep_addr e = ry_addr ?r" "ep_ctl e = 0" "ws_sent_matches ?r inp e"
    "\<exists>rest. messages_of (ep_got e) = ws_out ?r @ rest" "\<not> ry_returned ?r"
    using c r by (auto simp: ws_matches_defs)
  obtain err where err: "ry_result r = Some err" using step by (auto simp: ws_result_def split: option.splits)
  show ?thesis
  proof (cases "\<exists>code msg. err = ReadClose code msg")
    case True
    then obtain code msg where "err = ReadClose code msg" by blast
    then have fin: "(l', r') = finish_relay m WsClosed (CloseWithCode m l (ry_addr r) code msg) ?r"
      using step err by (simp add: ws_result_def Let_def)
    let ?e = "e\<lparr>ep_link := ctl_apply m (ep_link e) (ep_addr e) (CallCode code msg),
      ep_sent := ep_sent e @ ctl_sent m (ep_link e) (ep_addr e) (CallCode code msg), ep_ctl := ep_ctl e + 1\<rparr>"
    have a: "act m u sid (e, e2) (?e, e2)" using e by (intro act_ctl) (simp add: recvSlack_def)
    have "\<exists>e'. (act m u sid)\<^sup>*\<^sup>* (?e, e2) (e', e2) \<and> ws_matches l' r' inp e'"
      by (rule ws_sim_finish [OF fin e(6) ok]) (use e in \<open>auto simp: ws_sent_matches_def ctl_sent_def\<close>)
    then show ?thesis by (rule act_first [OF a])
  next
    case False
    then have fin: "(l', r') = finish_relay m WsClosed l ?r"
      using step err by (auto simp: ws_result_def Let_def split: read_error.splits)
    show ?thesis by (rule ws_sim_finish [OF fin e(6) ok]) (use e in auto)
  qed
qed

lemma ws_sim_recv:
  assumes step: "ws_recv m wok now l r = Some (l', r')" and r: "\<not> ry_returned r" and ok: "ws_ok r'"
    and c: "ws_matches l r inp e"
  shows "\<exists>e'. (act m u sid)\<^sup>*\<^sup>* (e, e2) (e', e2) \<and> ws_matches l' r' inp e'"
proof -
  let ?l = "pop_recv (ry_addr r) l"
  have el: "ep_link e = l" "ep_addr e = ry_addr r" "ep_sess e = sess l (ry_addr r)" "ep_ctl e = 0"
    using c r by (simp_all add: ws_matches_def ep_sess_def)
  have pop: "act m u sid (e, e2) (e\<lparr>ep_link := ?l, ep_got := ep_got e @ got_item f\<rparr>, e2)"
    if q: "s_recv (sess l (ry_addr r)) = f # fs" and t: "f_Type f \<noteq> FrameData" for f fs
    using act_take [of e f fs ?l m u sid e2] q t el by simp
  have fin: "\<exists>e'. (act m u sid)\<^sup>*\<^sup>* (e, e2) (e', e2) \<and> ws_matches l' r' inp e'"
    if q: "s_recv (sess l (ry_addr r)) = f # fs" "f_Type f \<noteq> FrameData"
      and f: "(l', r') = finish_relay m WsClosed ?l r1" and r1: "ry_addr r1 = ry_addr r" "ry_returned r1 = ry_returned r"
      "ry_reader r1 = ry_reader r" "ws_out r1 = ws_out r" for f fs r1
  proof -
    have "\<exists>e'. (act m u sid)\<^sup>*\<^sup>* (e\<lparr>ep_link := ?l, ep_got := ep_got e @ got_item f\<rparr>, e2) (e', e2) \<and>
        ws_matches l' r' inp e'"
      by (rule ws_sim_finish [OF f _ ok])
        (use c r el r1 messages_of_other [OF q(2)] in \<open>auto simp: ws_matches_def ws_sent_matches_def ws_got_matches_def\<close>)
    then show ?thesis by (rule act_first [OF pop [OF q]])
  qed
  show ?thesis
    using step
  proof (cases rule: ws_recv_cases)
    case (data_ok f fs)
    let ?e = "e\<lparr>ep_link := AckData m ?l (ry_addr r), ep_got := ep_got e @ got_item f,
        ep_fail := (ep_fail e \<or> ack_lost m ?l (ry_addr r))\<rparr>"
    have "act m u sid (e, e2) (?e, e2)"
      using act_take [of e f fs ?l m u sid e2] data_ok el by simp
    moreover have "ws_matches l' r' inp ?e"
      using data_ok c ok r by (simp add: ws_matches_defs)
    ultimately show ?thesis by blast
  next
    case (data_fail f fs)
    let ?e = "e\<lparr>ep_link := ?l, ep_got := ep_got e @ got_item f, ep_fail := True\<rparr>"
    have a: "act m u sid (e, e2) (?e, e2)"
      using act_abandon [of e f fs m u sid e2] data_fail el by simp
    have "\<exists>e'. (act m u sid)\<^sup>*\<^sup>* (?e, e2) (e', e2) \<and> ws_matches l' r' inp e'"
      by (rule ws_sim_finish [OF data_fail(4) _ ok])
        (use c r el in \<open>auto simp: ws_matches_defs\<close>)
    then show ?thesis by (rule act_first [OF a])
  next
    case (closing f fs)
    have "f_Type f \<noteq> FrameData" using closing(2) by simp
    then show ?thesis by (rule fin [OF closing(1) _ closing(3)]) (simp_all add: ws_out_def)
  next
    case (ending f fs)
    have "f_Type f \<noteq> FrameData" using ending(2) by auto
    then show ?thesis by (rule fin [OF ending(1) _ ending(3)]) simp_all
  next
    case (other f fs)
    have "ws_matches l' r' inp (e\<lparr>ep_link := ?l, ep_got := ep_got e @ got_item f\<rparr>)"
      using c other ok messages_of_other [of f] by (simp add: ws_matches_defs)
    then show ?thesis using pop [OF other(1)] other(2) by auto
  qed
qed

lemma ws_protocol:
  assumes "RelayWebSocket_step m l r ev = Some (l', r')" "ws_matches l r inp e"
  shows "\<exists>e'. (act m u sid)\<^sup>*\<^sup>* (e, e2) (e', e2) \<and> ws_matches l' r' (inp @ ws_input ev) e'"
proof -
  have ok: "ws_ok r'" using ws_step_ok [OF assms(1)] assms(2) by (simp add: ws_matches_def)
  have fin: ?thesis if "\<not> ry_returned r" "(l', r') = finish_relay m WsClosed l r1" "ws_input ev = []"
    "ry_addr r1 = ry_addr r" "ry_returned r1 = ry_returned r" "ry_reader r1 = ry_reader r" "ws_out r1 = ws_out r" for r1
    using ws_sim_finish [OF that(2) _ ok, of e inp u sid e2] that assms(2)
    by (auto simp: ws_matches_def ws_sent_matches_def ws_got_matches_def)
  show ?thesis
    using assms(1)
  proof (cases rule: ws_cases)
    case (read res)
    have "ws_matches l' r' (inp @ ws_input ev) e"
      using read assms(2) ok
      by (auto simp: ws_read_def ws_matches_defs ws_input_def DataText_def DataBinary_def
          split: if_splits sum.splits prod.splits intro: ws_type.exhaust)
    then show ?thesis by blast
  next
    case (send pick now)
    then show ?thesis using ws_sim_send [OF send(2) ok assms(2)] by (simp add: ws_input_def)
  next
    case result
    then show ?thesis using ws_sim_result [OF result(3,2) ok assms(2)] by (simp add: ws_input_def)
  next
    case (recv wok now)
    then show ?thesis using ws_sim_recv [OF recv(3,2) ok assms(2)] by (simp add: ws_input_def)
  next
    case (idle now)
    show ?thesis
      using idle(3)
    proof (cases rule: relay_idle_cases)
      case expire
      then show ?thesis using fin idle(1,2) by (auto simp: ws_input_def ws_out_def)
    next
      case rearm
      then have "ws_matches l' r' inp e" using assms(2) ok by (simp add: ws_matches_defs)
      then show ?thesis using idle(1) by (auto simp: ws_input_def)
    qed
  qed (use fin in \<open>auto simp: ws_input_def\<close>)
qed

text \<open>A WebSocket relay neither sends nor passes on EOF.\<close>

definition ws_saw_eof :: "ws_call relay \<Rightarrow> bool" where
  "ws_saw_eof r \<longleftrightarrow> False"

interpretation ws_client:
  session_client RelayWebSocket_step ws_input chunk_message ws_matches ws_out ry_addr relay_alive relay_drained ws_saw_eof
proof
  show "\<exists>rest. inp = carried chunk_message (ep_sent e) @ rest \<and> (relay_drained s \<longrightarrow> rest = [])"
    if "ws_matches l s inp e" for l s inp e
    using that by (auto simp: ws_matches_def ws_sent_matches_def messages_of_def relay_drained_def)
  show "\<exists>rest. carried chunk_message (ep_got e) = ws_out s @ rest \<and> (relay_alive s \<longrightarrow> rest = [])"
    if "ws_matches l s inp e" for l s inp e
    using that by (auto simp: ws_matches_def ws_got_matches_def messages_of_def relay_alive_def)
qed (use ws_protocol in \<open>auto simp: ws_matches_defs ws_saw_eof_def\<close>)

interpretation ws_pair:
  session_pair RelayWebSocket_step ws_input chunk_message ws_matches ws_out ry_addr relay_alive relay_drained ws_saw_eof
    RelayWebSocket_step ws_input ws_matches ws_out ry_addr relay_alive relay_drained ws_saw_eof
  by unfold_locales

type_synonym ws_party = "(ws_call relay, ws_message) party"

definition ws_start :: "frame unmarshal \<Rightarrow> string \<Rightarrow> ws_party \<times> ws_party \<Rightarrow> bool" where
  "ws_start u sid s \<longleftrightarrow>
     (\<exists>c. established u sid c \<and>
        ws_matches (pa_link (fst s)) (pa_state (fst s)) (pa_in (fst s)) (fst c) \<and>
        ws_matches (pa_link (snd s)) (pa_state (snd s)) (pa_in (snd s)) (snd c))"

abbreviation ws_pipe_step ::
  "frame marshal \<Rightarrow> frame unmarshal \<Rightarrow> string \<Rightarrow> ws_party \<times> ws_party \<Rightarrow> ws_party \<times> ws_party \<Rightarrow> bool" where
  "ws_pipe_step \<equiv> pair_step RelayWebSocket_step ws_input RelayWebSocket_step ws_input"

lemma ws_start_pair:
  assumes "ws_start u sid s"
  obtains c where "system_inv u sid c" "ws_pair.pair_matches s c"
  using assms by (cases s) (auto simp: ws_start_def ws_pair.pair_matches_def intro: established_inv)

section \<open>Properties\<close>

text \<open>
  C10. A WebSocket through the tunnel carries messages: in every run of two WebSocket relays and
  the tunnel between their links, the messages written to the socket at one end are a prefix
  of the text and binary messages read from the socket at the other end, with their types,
  boundaries and order; while the writing relay and its session are alive, once wire, queue
  and reader are drained they are all of them.
\<close>

theorem ws_pipe_transparent:
  assumes "codec_inverse m u" "ws_start u sid s0" "(ws_pipe_step m u sid)\<^sup>*\<^sup>* s0 s"
    and "s = (x, y) \<or> s = (y, x)"
  shows "(\<exists>rest. pa_in x = ws_written (ry_log (pa_state y)) @ rest) \<and>
    (\<not> ry_returned (pa_state y) \<and> Session (pa_link y) sid = Some (ry_addr (pa_state y)) \<and>
     quiet u sid (pa_link x) (pa_link y) (ry_addr (pa_state y)) \<and> ry_reader (pa_state x) = Reading \<longrightarrow>
     pa_in x = ws_written (ry_log (pa_state y)))"
proof -
  obtain c where c: "system_inv u sid c" "ws_pair.pair_matches s0 c"
    using ws_start_pair [OF assms(2)] by blast
  show ?thesis
    using assms(4) ws_pair.transparent [OF assms(1) c, of x y] ws_pair.transparent_back [OF assms(1) c, of y x] assms(3)
    by (auto simp: ws_out_def relay_alive_def relay_drained_def)
qed

definition sample_ws :: "ws_party \<times> ws_party" where
  "sample_ws =
     (\<lparr>pa_link = ep_link sample_edge, pa_state = new_relay 0 0 0, pa_in = []\<rparr>,
      \<lparr>pa_link = ep_link sample_connector, pa_state = new_relay 0 0 0, pa_in = []\<rparr>)"

lemma sample_ws_start: "ws_start u ''s'' sample_ws"
proof -
  have "ws_matches l (new_relay a 0 0) [] (new_endpoint l a)" for l a
    by (simp add: ws_matches_defs) (simp add: new_relay_def new_endpoint_def)
  moreover have "ep_link (new_endpoint l a) = l" for l a by (simp add: new_endpoint_def)
  ultimately show ?thesis
    using sample_established [of u] unfolding ws_start_def sample_edge_def sample_connector_def sample_ws_def
    by fastforce
qed

theorem ws_pipe_transparent_witness:
  "\<exists>l r. RelayWebSocket_step sample_marshal (pa_link (fst sample_ws)) (pa_state (fst sample_ws))
         (RwRead (Inr (WsText, ''hi''))) = Some (l, r) \<and>
     (\<exists>rest. [(True, ''hi'')] = ws_written (ry_log (pa_state (snd sample_ws))) @ rest)"
proof -
  let ?x = "fst sample_ws" and ?y = "snd sample_ws" and ?ev = "RwRead (Inr (WsText, ''hi''))"
  let ?r = "(pa_state ?x)\<lparr>ry_reader := Sending DataText ''hi'' None\<rparr>"
  let ?x' = "?x\<lparr>pa_link := pa_link ?x, pa_state := ?r, pa_in := pa_in ?x @ ws_input ?ev\<rparr>"
  have step: "RelayWebSocket_step sample_marshal (pa_link ?x) (pa_state ?x) ?ev = Some (pa_link ?x, ?r)"
    by (simp add: RelayWebSocket_step_def ws_read_def sample_ws_def new_relay_def)
  have "ws_pipe_step sample_marshal sample_unmarshal ''s'' (?x, ?y) (?x', ?y)"
    using step by (intro pair_left party_own)
  then have "(ws_pipe_step sample_marshal sample_unmarshal ''s'')\<^sup>*\<^sup>* sample_ws (?x', ?y)" by simp
  then have "\<exists>rest. pa_in ?x' = ws_written (ry_log (pa_state ?y)) @ rest"
    using ws_pipe_transparent [OF sample_codec sample_ws_start] by blast
  moreover have "pa_in ?x' = [(True, ''hi'')]" by (simp add: sample_ws_def ws_input_def)
  ultimately show ?thesis using step by auto
qed

text \<open>
  C38. A close is relayed with its status code and text. When a WebSocket ended with a close
  error, the relay ends and has written a close frame with the code and the text before anything
  else; the relay that receives this frame sends a close message with the same code and text, as its
  last call before it closes its WebSocket. The codes are all from 1000 to 4999, the ones among them
  that a program must not send, like 1006 for a connection that was cut, included.
\<close>

theorem ws_close_relayed:
  fixes l k :: link and r q :: "ws_call relay" and code :: int and message :: string
  defines "f \<equiv> (NewFrame FrameClose (s_id (sess l (ry_addr r))))\<lparr>f_CloseCode := code, f_Payload := message\<rparr>"
  assumes "codec_inverse m u" "m f = Inr d" "1000 \<le> code" "code \<le> 4999"
    and reader: "ry_result r = Some (ReadClose code message)" "\<not> ry_returned r" "\<not> l_broken l"
      "validToken (s_id (sess l (ry_addr r)))"
    and peer: "Session k (s_id (sess l (ry_addr r))) = Some (ry_addr q)" "ry_addr q < length (l_heap k)"
      "s_recv (sess k (ry_addr q)) = []" "\<not> s_done (sess k (ry_addr q))" "\<not> ry_returned q"
  shows "\<exists>l' r' rest. RelayWebSocket_step m l r RwResult = Some (l', r') \<and> ry_returned r' \<and>
      l_out l' = l_out l @ d # rest \<and>
    (\<exists>k' q'. RelayWebSocket_step m (Run_turn m u h pick k (BinaryMessage d)) q (RwRecv wok now) = Some (k', q') \<and>
       ry_returned q' \<and> ry_log q' = ry_log q @ [WsCloseMessage code message, WsClosed])"
proof -
  have f: "f_Type f = FrameClose" "f_SessionID f = s_id (sess l (ry_addr r))" "f_CloseCode f = code" "f_Payload f = message"
    "f_Version f = Version"
    by (simp_all add: f_def NewFrame_def)
  have valid: "Frame_Validate f = None"
    using f assms(4,5) reader(4) by (simp add: Frame_Validate_def frame_type_defs)
  have enc: "EncodeFrame m f = Inr d" using valid assms(3) by (simp add: EncodeFrame_def)
  then have dec: "DecodeFrame u d = Inr f" by (rule frame_codec.round_trip [OF assms(2)])
  have "l_out (CloseWithCode m l (ry_addr r) code message) = l_out l @ [d]"
    using enc reader(3) by (simp add: CloseWithCode_def Let_def WriteFrame_def f_def)
  moreover have closed_out: "\<exists>rest. l_out (CloseSession m l0 a) = l_out l0 @ rest" for l0 a
    by (auto simp: CloseSession_def Let_def WriteFrame_def split: sum.splits)
  ultimately have sent: "\<exists>l' r' rest. RelayWebSocket_step m l r RwResult = Some (l', r') \<and> ry_returned r' \<and>
      l_out l' = l_out l @ d # rest"
    using reader(1,2) closed_out [of "CloseWithCode m l (ry_addr r) code message" "ry_addr r"]
    by (auto simp: RelayWebSocket_step_def ws_result_def finish_relay_def)
  let ?k = "upd_sess (ry_addr q) (\<lambda>s. s\<lparr>s_recv := [f]\<rparr>) k"
  have "Run_turn m u h pick k (BinaryMessage d) = ?k"
    using dec f peer
    by (simp add: Run_turn_def dispatch_def chan_try_send_def chan_room_def sendWindow_def recvSlack_def frame_type_defs Let_def)
  moreover have "s_recv (sess ?k (ry_addr q)) = [f]" using peer(2) by simp
  ultimately show ?thesis
    using sent peer(5) f assms(4) by (auto simp: RelayWebSocket_step_def ws_recv_def finish_relay_def frame_type_defs Let_def)
qed

theorem ws_close_relayed_witness:
  fixes r0 :: "ws_call relay"
  defines "r0 \<equiv> new_relay 0 0 0"
  shows "let f = (NewFrame FrameClose ''s'')\<lparr>f_CloseCode := 1006, f_Payload := ''unexpected EOF''\<rparr>; m = one_marshal f in
    \<exists>l' r' k' q'.
      RelayWebSocket_step m (ep_link sample_edge) (r0\<lparr>ry_result := Some (ReadClose 1006 ''unexpected EOF'')\<rparr>) RwResult = Some (l', r') \<and>
      RelayWebSocket_step m (Run_turn m (one_unmarshal f) None True (ep_link sample_connector) (BinaryMessage ''x'')) r0
        (RwRecv True 0) = Some (k', q') \<and>
      ry_log q' = [WsCloseMessage 1006 ''unexpected EOF'', WsClosed]"
proof -
  let ?f = "(NewFrame FrameClose ''s'')\<lparr>f_CloseCode := 1006, f_Payload := ''unexpected EOF''\<rparr>"
  let ?r = "r0\<lparr>ry_result := Some (ReadClose 1006 ''unexpected EOF'')\<rparr>"
  have r: "ry_addr r0 = 0" "\<not> ry_returned r0" "ry_log r0 = []" by (simp_all add: r0_def new_relay_def)
  have l: "s_id (sess (ep_link sample_edge) 0) = ''s''" "\<not> l_broken (ep_link sample_edge)" "validToken ''s''"
    by code_simp+
  have k: "Session (ep_link sample_connector) ''s'' = Some 0" "0 < length (l_heap (ep_link sample_connector))"
    "s_recv (sess (ep_link sample_connector) 0) = []" "\<not> s_done (sess (ep_link sample_connector) 0)" by code_simp+
  have "one_marshal ?f ?f = Inr ''x''" by (simp add: one_marshal_def)
  then show ?thesis
    using ws_close_relayed [where l = "ep_link sample_edge" and k = "ep_link sample_connector" and r = ?r and q = r0
        and code = 1006 and message = "''unexpected EOF''" and d = "''x''" and h = None and pick = True
        and wok = True and now = 0, OF one_codec [of ?f]] r l k
    by (simp add: Let_def) blast
qed

end
