(* ===== verification/Grpc_Observer.thy ===== *)
theory Grpc_Observer
  imports Airpc_Config "HOL-Library.AList"
begin

text \<open>
  Package \<^verbatim>\<open>internal/grpcobs\<close> and the connection wrapper \<^verbatim>\<open>observedConn\<close> of \<^verbatim>\<open>internal/edge/data.go\<close>: a
  passive observer of the bytes relayed on gRPC routes.

  The HTTP/2 framer is outside the repository. What it hands to the observer is the input:
  frames, with the value of their \<^verbatim>\<open>:path\<close> pseudo header. Recorded metrics are a list. A feed is
  the channel between the relay and a parser; a call that would block is \<open>None\<close>.

  The lemmas state that a parser sees a prefix of the relayed bytes, that the relay is not
  affected, and what is recorded.
\<close>

section \<open>Feeds\<close>

definition feedQueueSize :: nat where "feedQueueSize = 256"

record feed =
  fd_ch :: "bytes list"
  fd_dead :: bool

definition newFeed :: feed where
  "newFeed = \<lparr>fd_ch = [], fd_dead = False\<rparr>"

definition put :: "bytes \<Rightarrow> feed \<Rightarrow> feed" where
  "put p f =
     (if fd_dead f then f
      else case chan_try_send feedQueueSize p (fd_ch f) of
          Some q \<Rightarrow> f\<lparr>fd_ch := q\<rparr>
        | None \<Rightarrow> f\<lparr>fd_dead := True\<rparr>)"

text \<open>
  \<^verbatim>\<open>feedReader.Read\<close> into a buffer of \<open>n\<close> bytes: the bytes read (\<open>None\<close> at the end of the feed), the
  rest of the chunk and the queue.
\<close>

fun feed_Read :: "nat \<Rightarrow> bool \<Rightarrow> bytes \<Rightarrow> bytes list \<Rightarrow> (bytes option \<times> bytes \<times> bytes list) option" where
  "feed_Read n closed (c # rest) q = Some (Some (take n (c # rest)), drop n (c # rest), q)"
| "feed_Read n closed [] (chunk # q) = feed_Read n closed chunk q"
| "feed_Read n closed [] [] = (if closed then Some (None, [], []) else None)"

section \<open>The observer\<close>

text \<open>The regular expression \<^verbatim>\<open>methodPattern\<close>.\<close>

definition service_char :: "char \<Rightarrow> bool" where
  "service_char c \<longleftrightarrow> is_alnum c \<or> c = CHR ''_'' \<or> c = CHR ''.''"

definition method_char :: "char \<Rightarrow> bool" where
  "method_char c \<longleftrightarrow> is_alnum c \<or> c = CHR ''_''"

definition methodPattern :: "string \<Rightarrow> bool" where
  "methodPattern s =
     (case s of
        [] \<Rightarrow> False
      | c # rest \<Rightarrow>
          c = CHR ''/'' \<and>
          (let service = takeWhile service_char rest in
           1 \<le> length service \<and> length service \<le> 200 \<and>
           (case drop (length service) rest of
              [] \<Rightarrow> False
            | d # method \<Rightarrow> d = CHR ''/'' \<and> 1 \<le> length method \<and> length method \<le> 100 \<and> list_all method_char method)))"

record rpcStart =
  rp_method :: string
  rp_start :: int

record rpc_metric =
  rm_route :: string
  rm_method :: string
  rm_code :: string
  rm_duration :: int

record observer =
  ob_route :: string
  ob_done :: bool
  ob_client :: feed
  ob_backend :: feed
  ob_started :: "(nat \<times> rpcStart) list"
  ob_metrics :: "rpc_metric list"

definition new_observer :: "string \<Rightarrow> observer" where
  "new_observer route =
     \<lparr>ob_route = route, ob_done = False, ob_client = newFeed, ob_backend = newFeed, ob_started = [], ob_metrics = []\<rparr>"

definition ClientBytes :: "bytes \<Rightarrow> observer \<Rightarrow> observer" where
  "ClientBytes p ob = ob\<lparr>ob_client := put p (ob_client ob)\<rparr>"

definition BackendBytes :: "bytes \<Rightarrow> observer \<Rightarrow> observer" where
  "BackendBytes p ob = ob\<lparr>ob_backend := put p (ob_backend ob)\<rparr>"

definition observer_Close :: "observer \<Rightarrow> observer" where
  "observer_Close ob = ob\<lparr>ob_done := True\<rparr>"

definition statusCode :: "string \<Rightarrow> string" where
  "statusCode value =
     (case ParseInt64 value of
        Inr n \<Rightarrow> if 0 \<le> n \<and> n \<le> 16 then value else ''invalid''
      | Inl _ \<Rightarrow> ''invalid'')"

definition observer_finish :: "int \<Rightarrow> nat \<Rightarrow> string \<Rightarrow> observer \<Rightarrow> observer" where
  "observer_finish now streamID code ob =
     (let ob' = ob\<lparr>ob_started := AList.delete streamID (ob_started ob)\<rparr> in
      case map_of (ob_started ob) streamID of
        None \<Rightarrow> ob'
      | Some rpc \<Rightarrow>
          ob'\<lparr>ob_metrics := ob_metrics ob @
            [\<lparr>rm_route = ob_route ob, rm_method = rp_method rpc, rm_code = code, rm_duration = now - rp_start rpc\<rparr>]\<rparr>)"

text \<open>The frames of the framer: a header block with its stream, path and fields; a reset; any other.\<close>

datatype h2_frame = MetaHeaders nat string "(string \<times> string) list" | RSTStream nat | OtherFrame

text \<open>
  The turns of the two parsing loops on a frame read at a time. \<^verbatim>\<open>parseClient\<close> has first compared
  the 24 bytes of the client preface, a constant of the framer's package.
\<close>

definition client_preface_ok :: "bytes \<Rightarrow> bytes option \<Rightarrow> bool" where
  "client_preface_ok preface got = (case got of None \<Rightarrow> False | Some b \<Rightarrow> b = preface)"

definition method_label :: "string \<Rightarrow> string" where
  "method_label path = (if methodPattern path then path else ''other'')"

definition parseClient_turn :: "int \<Rightarrow> h2_frame \<Rightarrow> observer \<Rightarrow> observer" where
  "parseClient_turn now f ob =
     (case f of
        MetaHeaders sid path hdrs \<Rightarrow>
          ob\<lparr>ob_started := AList.update sid \<lparr>rp_method = method_label path, rp_start = now\<rparr> (ob_started ob)\<rparr>
      | _ \<Rightarrow> ob)"

fun grpc_status :: "(string \<times> string) list \<Rightarrow> string option" where
  "grpc_status [] = None"
| "grpc_status ((name, val) # hdrs) = (if name = ''grpc-status'' then Some val else grpc_status hdrs)"

definition parseBackend_turn :: "int \<Rightarrow> h2_frame \<Rightarrow> observer \<Rightarrow> observer" where
  "parseBackend_turn now f ob =
     (case f of
        MetaHeaders sid path hdrs \<Rightarrow>
          (case grpc_status hdrs of None \<Rightarrow> ob | Some v \<Rightarrow> observer_finish now sid (statusCode v) ob)
      | RSTStream sid \<Rightarrow> observer_finish now sid ''canceled'' ob
      | OtherFrame \<Rightarrow> ob)"

text \<open>
  The two parsing goroutines: the frames the framer reads until it fails, each with the time of its
  turn. The client's stream must begin with the connection preface, read in full.
\<close>

definition parseClient :: "bytes \<Rightarrow> bytes option \<Rightarrow> (int \<times> h2_frame) list \<Rightarrow> observer \<Rightarrow> observer" where
  "parseClient preface got frames ob =
     (if \<not> client_preface_ok preface got then ob
      else foldl (\<lambda>ob (now, f). parseClient_turn now f ob) ob frames)"

definition parseBackend :: "(int \<times> h2_frame) list \<Rightarrow> observer \<Rightarrow> observer" where
  "parseBackend frames ob = foldl (\<lambda>ob (now, f). parseBackend_turn now f ob) ob frames"

section \<open>The observed connection\<close>

text \<open>
  \<^verbatim>\<open>observedConn\<close>: what the wrapped connection's call returned is the input; the counters are
  numbers of bytes.
\<close>

record observed_conn =
  oc_in :: nat
  oc_out :: nat
  oc_observer :: "observer option"

definition observeConn :: "croute \<Rightarrow> observed_conn" where
  "observeConn r =
     \<lparr>oc_in = 0, oc_out = 0, oc_observer = (if r_Mode r = ModeGRPC then Some (new_observer (r_Name r)) else None)\<rparr>"

definition observed_Read :: "bytes \<times> 'e option \<Rightarrow> observed_conn \<Rightarrow> observed_conn \<times> bytes \<times> 'e option" where
  "observed_Read res c =
     (let (p, err) = res in
      (if p \<noteq> [] then c\<lparr>oc_in := oc_in c + length p, oc_observer := map_option (ClientBytes p) (oc_observer c)\<rparr> else c,
       p, err))"

text \<open>The wrapped \<^verbatim>\<open>Write\<close> of \<open>p\<close> returned \<open>n\<close> and \<open>err\<close>.\<close>

definition observed_Write :: "bytes \<Rightarrow> nat \<times> 'e option \<Rightarrow> observed_conn \<Rightarrow> observed_conn \<times> nat \<times> 'e option" where
  "observed_Write p res c =
     (let (n, err) = res in
      (if n > 0 then c\<lparr>oc_out := oc_out c + n, oc_observer := map_option (BackendBytes (take n p)) (oc_observer c)\<rparr> else c,
       n, err))"

text \<open>\<open>inner\<close> is what the wrapped \<^verbatim>\<open>CloseWrite\<close> returned, \<open>None\<close> where the wrapped type has no such method.\<close>

definition observed_CloseWrite :: "'e option option \<Rightarrow> observed_conn \<Rightarrow> observed_conn \<times> 'e option" where
  "observed_CloseWrite inner c = (c, case inner of Some err \<Rightarrow> err | None \<Rightarrow> None)"

definition observed_finish :: "observed_conn \<Rightarrow> observed_conn" where
  "observed_finish c = c\<lparr>oc_observer := map_option observer_Close (oc_observer c)\<rparr>"

section \<open>A feed between the relay and a parser\<close>

record tap =
  tp_feed :: feed
  tp_rest :: bytes
  tp_seen :: bytes
  tp_read :: bytes

definition new_tap :: tap where
  "new_tap = \<lparr>tp_feed = newFeed, tp_rest = [], tp_seen = [], tp_read = []\<rparr>"

inductive tap_step :: "tap \<Rightarrow> tap \<Rightarrow> bool" where
  tap_put: "tap_step t (t\<lparr>tp_feed := put p (tp_feed t), tp_seen := tp_seen t @ p\<rparr>)"
| tap_read: "feed_Read n closed (tp_rest t) (fd_ch (tp_feed t)) = Some (r, rest, q) \<Longrightarrow>
    tap_step t (t\<lparr>tp_feed := (tp_feed t)\<lparr>fd_ch := q\<rparr>, tp_rest := rest,
      tp_read := tp_read t @ (case r of None \<Rightarrow> [] | Some b \<Rightarrow> b)\<rparr>)"

definition tap_ok :: "tap \<Rightarrow> bool" where
  "tap_ok t \<longleftrightarrow>
     length (fd_ch (tp_feed t)) \<le> feedQueueSize \<and>
     (\<exists>lost. tp_seen t = tp_read t @ tp_rest t @ concat (fd_ch (tp_feed t)) @ lost \<and>
        (\<not> fd_dead (tp_feed t) \<longrightarrow> lost = []))"

text \<open>A read neither loses nor invents bytes.\<close>

lemma feed_Read_conserves:
  "feed_Read n closed rest q = Some (r, rest', q') \<Longrightarrow>
   rest @ concat q = (case r of None \<Rightarrow> [] | Some b \<Rightarrow> b) @ rest' @ concat q' \<and> length q' \<le> length q"
proof (induction n closed rest q rule: feed_Read.induct)
  case (1 n closed c rest q)
  then have "r = Some (take n (c # rest))" "rest' = drop n (c # rest)" "q' = q" by auto
  then show ?case by (simp only: option.case append_assoc [symmetric] append_take_drop_id) simp
qed (auto split: if_splits)

lemma put_cases:
  obtains (kept) "put p f = f\<lparr>fd_ch := fd_ch f @ [p]\<rparr>" "\<not> fd_dead f" "length (fd_ch f) < feedQueueSize"
    | (lost) "fd_ch (put p f) = fd_ch f" "fd_dead (put p f)"
  by (cases "fd_dead f"; cases "length (fd_ch f) < feedQueueSize")
    (auto simp: put_def chan_try_send_def chan_room_def)

lemma tap_step_ok: "tap_step t t' \<Longrightarrow> tap_ok t \<Longrightarrow> tap_ok t'"
proof (induction rule: tap_step.induct)
  case (tap_put t p)
  then obtain lost where l: "tp_seen t = tp_read t @ tp_rest t @ concat (fd_ch (tp_feed t)) @ lost"
    "\<not> fd_dead (tp_feed t) \<longrightarrow> lost = []" "length (fd_ch (tp_feed t)) \<le> feedQueueSize"
    by (auto simp: tap_ok_def)
  show ?case
    using put_cases [of p "tp_feed t"] by cases (use l in \<open>auto simp: tap_ok_def\<close>)
next
  case (tap_read n closed t r rest q)
  then obtain lost where l: "tp_seen t = tp_read t @ (tp_rest t @ concat (fd_ch (tp_feed t))) @ lost"
    "\<not> fd_dead (tp_feed t) \<longrightarrow> lost = []" "length (fd_ch (tp_feed t)) \<le> feedQueueSize"
    by (auto simp: tap_ok_def)
  show ?case
    unfolding tap_ok_def using l feed_Read_conserves [OF tap_read(1)] by auto
qed

lemma tap_run_ok: "tap_step\<^sup>*\<^sup>* new_tap t \<Longrightarrow> tap_ok t"
  by (induction rule: rtranclp_induct) (auto simp: tap_step_ok, simp add: tap_ok_def new_tap_def newFeed_def)

text \<open>Once the observer is closed, a read returns, and reports the end exactly when nothing is left.\<close>

lemma feed_Read_closed:
  "\<exists>r rest' q'. feed_Read n True rest q = Some (r, rest', q') \<and> (r = None \<longleftrightarrow> rest @ concat q = [])"
  by (induction n True rest q rule: feed_Read.induct) auto

section \<open>Recorded metrics\<close>

datatype turn = ClientTurn int h2_frame | BackendTurn int h2_frame

fun observer_turn :: "observer \<Rightarrow> turn \<Rightarrow> observer" where
  "observer_turn ob (ClientTurn now f) = parseClient_turn now f ob"
| "observer_turn ob (BackendTurn now f) = parseBackend_turn now f ob"

text \<open>The loops are sequences of turns; run side by side they interleave.\<close>

lemma parse_loops:
  "parseClient preface (Some preface) frames ob = foldl observer_turn ob (map (\<lambda>(now, f). ClientTurn now f) frames)"
  "parseBackend frames ob = foldl observer_turn ob (map (\<lambda>(now, f). BackendTurn now f) frames)"
  unfolding parseClient_def parseBackend_def client_preface_ok_def
  by (induction frames arbitrary: ob) auto

fun turn_time :: "turn \<Rightarrow> int" where
  "turn_time (ClientTurn now f) = now"
| "turn_time (BackendTurn now f) = now"

fun starts_rpc :: "turn \<Rightarrow> bool" where
  "starts_rpc (ClientTurn now (MetaHeaders _ _ _)) = True"
| "starts_rpc _ = False"

text \<open>The labels the metrics are meant to have.\<close>

definition method_allowed :: "string \<Rightarrow> bool" where
  "method_allowed m \<longleftrightarrow> m = ''other'' \<or> methodPattern m"

definition code_allowed :: "string \<Rightarrow> bool" where
  "code_allowed c \<longleftrightarrow> c = ''canceled'' \<or> c = ''invalid'' \<or> (\<exists>n. ParseInt64 c = Inr n \<and> 0 \<le> n \<and> n \<le> 16)"

definition observer_ok :: "string \<Rightarrow> int \<Rightarrow> nat \<Rightarrow> observer \<Rightarrow> bool" where
  "observer_ok route now n ob \<longleftrightarrow>
     ob_route ob = route \<and> distinct (map fst (ob_started ob)) \<and>
     length (ob_metrics ob) + length (ob_started ob) \<le> n \<and>
     (\<forall>(sid, rpc) \<in> set (ob_started ob). method_allowed (rp_method rpc) \<and> rp_start rpc \<le> now) \<and>
     (\<forall>m \<in> set (ob_metrics ob). rm_route m = route \<and> method_allowed (rm_method m) \<and> code_allowed (rm_code m) \<and>
        0 \<le> rm_duration m)"

lemma statusCode_allowed: "code_allowed (statusCode v)"
  by (auto simp: statusCode_def code_allowed_def split: sum.splits)

lemma observer_ok_later: "observer_ok route now n ob \<Longrightarrow> now \<le> now' \<Longrightarrow> n \<le> n' \<Longrightarrow> observer_ok route now' n' ob"
  by (fastforce simp: observer_ok_def)

lemma finish_ok:
  assumes "observer_ok route now n ob" "code_allowed code"
  shows "observer_ok route now n (observer_finish now sid code ob)"
proof (cases "map_of (ob_started ob) sid")
  case None
  then have "AList.delete sid (ob_started ob) = ob_started ob"
    by (simp add: delete_idem map_of_eq_None_iff)
  then show ?thesis using None assms(1) by (simp add: observer_finish_def)
next
  case (Some rpc)
  then have r: "(sid, rpc) \<in> set (ob_started ob)" by (rule map_of_SomeD)
  have "length (AList.delete sid (ob_started ob)) < length (ob_started ob)"
    unfolding AList.delete_eq by (rule length_filter_less [OF r]) simp
  moreover have "set (AList.delete sid (ob_started ob)) \<subseteq> set (ob_started ob)"
    by (auto simp: AList.delete_eq)
  moreover have "distinct (map fst (AList.delete sid (ob_started ob)))"
    using assms(1) by (simp add: distinct_delete observer_ok_def)
  ultimately show ?thesis
    using Some assms r by (fastforce simp: observer_ok_def observer_finish_def Let_def)
qed

lemma start_ok:
  assumes "observer_ok route now n ob"
  shows "observer_ok route now (Suc n) (parseClient_turn now (MetaHeaders sid path hdrs) ob)"
proof -
  have "length (AList.update sid r xs) \<le> Suc (length xs)" for r and xs :: "(nat \<times> rpcStart) list"
    by (induction xs) auto
  note len = this [of _ "ob_started ob"]
  have dis: "distinct (map fst (AList.update sid r (ob_started ob)))" for r
    using assms by (simp add: distinct_update observer_ok_def)
  have "set (AList.update sid r xs) \<subseteq> insert (sid, r) (set xs)" for r and xs :: "(nat \<times> rpcStart) list"
    by (induction xs) auto
  note sub = this [of _ "ob_started ob"]
  let ?rpc = "\<lparr>rp_method = method_label path, rp_start = now\<rparr>"
  have m: "method_allowed (method_label path)" by (simp add: method_allowed_def method_label_def)
  have started: "method_allowed (rp_method rpc) \<and> rp_start rpc \<le> now"
    if "(k, rpc) \<in> set (AList.update sid ?rpc (ob_started ob))" for k rpc
    using that sub [of ?rpc] assms m by (fastforce simp: observer_ok_def)
  show ?thesis
    using assms len [of ?rpc] dis [of ?rpc] started by (auto simp: observer_ok_def parseClient_turn_def)
qed

lemma observer_turn_ok:
  assumes "observer_ok route now n ob" "now \<le> turn_time t"
  shows "observer_ok route (turn_time t) (n + (if starts_rpc t then 1 else 0)) (observer_turn ob t)"
proof -
  have later: "observer_ok route (turn_time t) n ob" using observer_ok_later [OF assms] by simp
  show ?thesis
  proof (cases t)
    case (ClientTurn time f)
    then show ?thesis using later start_ok by (cases f) (auto simp: parseClient_turn_def)
  next
    case (BackendTurn time f)
    have "code_allowed ''canceled''" by (simp add: code_allowed_def)
    then show ?thesis
      using BackendTurn later finish_ok statusCode_allowed
      by (cases f) (auto simp: parseBackend_turn_def split: option.splits)
  qed
qed

lemma observer_run_ok:
  assumes "sorted (map turn_time ts)" "\<forall>t \<in> set ts. now \<le> turn_time t" "observer_ok route now n ob"
  shows "observer_ok route (fold (\<lambda>t _. turn_time t) ts now) (n + length (filter starts_rpc ts)) (foldl observer_turn ob ts)"
  using assms
proof (induction ts arbitrary: now n ob)
  case (Cons t ts)
  have "observer_ok route (turn_time t) (n + (if starts_rpc t then 1 else 0)) (observer_turn ob t)"
    using Cons.prems by (intro observer_turn_ok) auto
  then have "observer_ok route (fold (\<lambda>t _. turn_time t) ts (turn_time t))
      (n + (if starts_rpc t then 1 else 0) + length (filter starts_rpc ts)) (foldl observer_turn (observer_turn ob t) ts)"
    using Cons.prems by (intro Cons.IH) auto
  then show ?case by (cases "starts_rpc t") simp_all
qed simp

section \<open>Properties\<close>

text \<open>
  C31. The parsers see the truth or go dark. Whatever the relay hands to a feed and however the
  parser reads, the bytes parsed are a prefix of the bytes relayed, with no gap and no
  reordering; nothing is missing while the feed is alive and drained; the queue never holds
  more than 256 chunks; and once the observer is closed every read returns, with the end
  exactly when all queued bytes have been read, so the parser's goroutine ends.
\<close>

theorem observer_sees_prefix:
  assumes "tap_step\<^sup>*\<^sup>* new_tap t"
  shows "(\<exists>more. tp_seen t = tp_read t @ more) \<and>
    (\<not> fd_dead (tp_feed t) \<and> tp_rest t = [] \<and> fd_ch (tp_feed t) = [] \<longrightarrow> tp_read t = tp_seen t) \<and>
    length (fd_ch (tp_feed t)) \<le> 256 \<and>
    (\<exists>r rest q. feed_Read n True (tp_rest t) (fd_ch (tp_feed t)) = Some (r, rest, q) \<and>
       (r = None \<longleftrightarrow> tp_rest t @ concat (fd_ch (tp_feed t)) = []))"
proof -
  have "feedQueueSize = 256" by (simp add: feedQueueSize_def)
  then show ?thesis using tap_run_ok [OF assms] feed_Read_closed unfolding tap_ok_def by fastforce
qed

theorem observer_sees_prefix_witness:
  "\<exists>t. tap_step\<^sup>*\<^sup>* new_tap t \<and> tp_seen t = ''PRI'' \<and> tp_read t = ''PR'' \<and>
     (\<exists>more. tp_seen t = tp_read t @ more)"
proof -
  let ?t1 = "new_tap\<lparr>tp_feed := put ''PRI'' (tp_feed new_tap), tp_seen := tp_seen new_tap @ ''PRI''\<rparr>"
  have "feed_Read 2 False (tp_rest ?t1) (fd_ch (tp_feed ?t1)) = Some (Some ''PR'', ''I'', [])" by code_simp
  from tap_read [OF this] obtain t where s: "tap_step ?t1 t" and f: "tp_seen t = tp_seen ?t1" "tp_read t = ''PR''"
    by (simp add: new_tap_def)
  have "tap_step new_tap ?t1" by (rule tap_put)
  then have t: "tap_step\<^sup>*\<^sup>* new_tap t" "tp_seen t = ''PRI''" "tp_read t = ''PR''"
    using s f by (auto simp: new_tap_def)
  then show ?thesis using observer_sees_prefix [OF t(1)] by blast
qed

text \<open>
  C32. RPC metrics are sound. Whatever frames the parsers hand to the observer, in any order,
  each RPC is recorded at most once per request header block, with the route's name, a method
  that matches the pattern or \<^verbatim>\<open>other\<close>, a code that is \<^verbatim>\<open>canceled\<close>, \<^verbatim>\<open>invalid\<close> or reads as a number
  from 0 to 16, and a duration that is not negative.
\<close>

theorem rpc_metrics_sound:
  fixes route :: string and ts :: "turn list"
  assumes "sorted (map turn_time ts)"
  defines "ob \<equiv> foldl observer_turn (new_observer route) ts"
  shows "length (ob_metrics ob) + length (ob_started ob) \<le> length (filter starts_rpc ts) \<and>
    (\<forall>m \<in> set (ob_metrics ob). rm_route m = route \<and> (rm_method m = ''other'' \<or> methodPattern (rm_method m)) \<and>
       (rm_code m \<in> {''canceled'', ''invalid''} \<or> (\<exists>n. ParseInt64 (rm_code m) = Inr n \<and> n \<in> {0..16})) \<and>
       0 \<le> rm_duration m)"
proof -
  let ?now = "case ts of [] \<Rightarrow> 0 | t # _ \<Rightarrow> turn_time t"
  have "\<forall>t \<in> set ts. ?now \<le> turn_time t" using assms(1) by (cases ts) auto
  moreover have "observer_ok route ?now 0 (new_observer route)" by (simp add: observer_ok_def new_observer_def)
  ultimately have "observer_ok route (fold (\<lambda>t _. turn_time t) ts ?now) (0 + length (filter starts_rpc ts)) ob"
    unfolding ob_def using observer_run_ok assms(1) by blast
  then show ?thesis by (auto simp: observer_ok_def method_allowed_def code_allowed_def)
qed

theorem rpc_metrics_sound_witness:
  "ob_metrics (foldl observer_turn (new_observer ''api'')
     [ClientTurn 5 (MetaHeaders 1 ''/pkg.Svc/Get'' []), BackendTurn 9 (MetaHeaders 1 [] [(''grpc-status'', ''0'')]),
      BackendTurn 9 (RSTStream 1)]) \<noteq> [] \<and>
   length (ob_metrics (foldl observer_turn (new_observer ''api'')
     [ClientTurn 5 (MetaHeaders 1 ''/pkg.Svc/Get'' []), BackendTurn 9 (MetaHeaders 1 [] [(''grpc-status'', ''0'')]),
      BackendTurn 9 (RSTStream 1)])) \<le> 1"
  (is "ob_metrics (foldl observer_turn _ ?ts) \<noteq> [] \<and> _")
proof -
  have "ob_metrics (foldl observer_turn (new_observer ''api'') ?ts) \<noteq> []" by code_simp
  moreover have "sorted (map turn_time ?ts)" by simp
  ultimately show ?thesis using rpc_metrics_sound [of ?ts "''api''"] by simp
qed

text \<open>
  The values of the code label are not bounded: a status with leading zeros is passed on as
  it came, so a backend can make as many label values as it likes, although the method label
  is restricted to a pattern to bound the number of values.
\<close>

theorem statusCode_label_unbounded: "infinite (range statusCode)"
proof -
  have v: "decimal_value 0 (replicate n CHR ''0'' @ ''5'') = 5" for n
    by (induction n) (simp_all add: digit_value_def)
  have eq: "statusCode (replicate n CHR ''0'' @ ''5'') = replicate n CHR ''0'' @ ''5''" for n
    by (cases n) (simp_all add: statusCode_def ParseInt64_def Let_def HasPrefix_def v [of "Suc _", simplified] v
        is_digit_char_def less_eq_char_def max_int64_def list_all_iff digit_value_def)
  have "range (\<lambda>n. replicate n CHR ''0'' @ ''5'') \<subseteq> range statusCode"
    by (intro image_subsetI) (subst eq [symmetric], rule rangeI)
  moreover have "inj (\<lambda>n. replicate n CHR ''0'' @ ''5'')" by (rule injI) simp
  then have "infinite (range (\<lambda>n. replicate n CHR ''0'' @ ''5''))" by (simp add: finite_image_iff)
  ultimately show ?thesis by (rule infinite_super)
qed

end
