(* ===== verification/Duration_Text.thy ===== *)
theory Duration_Text
  imports Airpc_Config
begin

text \<open>
  \<^verbatim>\<open>Duration.UnmarshalYAML\<close> of \<^verbatim>\<open>internal/config/config.go\<close>, with \<^verbatim>\<open>time.ParseDuration\<close> of the standard
  library (Go 1.22). A duration is its count of nanoseconds. The fraction of a segment is
  computed in \<^verbatim>\<open>float64\<close>: two operations rounded to the nearest, ties to even, and a truncation.
  The lemmas show that a text made of whole numbers with units reads as their sum, and that
  every duration read is an \<^verbatim>\<open>int64\<close>.
\<close>

section \<open>The part of float64 arithmetic that durations use\<close>

text \<open>
  A positive \<^verbatim>\<open>float64\<close> is a fraction \<open>(p, q)\<close>. \<open>float64_round\<close> rounds an exact quotient to 53
  significant bits, ties to even; the values here are far from the limits of the exponent.
\<close>

fun bit_length :: "nat \<Rightarrow> nat" where
  "bit_length n = (if n = 0 then 0 else Suc (bit_length (n div 2)))"

declare bit_length.simps [simp del]

definition div_half_even :: "nat \<Rightarrow> nat \<Rightarrow> nat" where
  "div_half_even p q =
     (let d = p div q; r = p mod q in
      if q < 2 * r \<or> (2 * r = q \<and> odd d) then Suc d else d)"

definition float64_round :: "nat \<times> nat \<Rightarrow> nat \<times> nat" where
  "float64_round x =
     (let (p, q) = x;
          e0 = int (bit_length p) - int (bit_length q) - 53;
          e = (if p * 2 ^ nat (- e0) < 2 ^ 53 * (q * 2 ^ nat e0) then e0 else e0 + 1) in
      if p = 0 then (0, 1)
      else (div_half_even (p * 2 ^ nat (- e)) (q * 2 ^ nat e) * 2 ^ nat e, 2 ^ nat (- e)))"

definition float64_mult :: "nat \<times> nat \<Rightarrow> nat \<times> nat \<Rightarrow> nat \<times> nat" where
  "float64_mult x y = float64_round (fst x * fst y, snd x * snd y)"

text \<open>The conversion \<^verbatim>\<open>uint64(x)\<close> of a value in range: truncation.\<close>

definition uint64_of_float :: "nat \<times> nat \<Rightarrow> nat" where
  "uint64_of_float x = fst x div snd x"

section \<open>time.ParseDuration\<close>

definition two63 :: nat where
  "two63 = 9223372036854775808"

datatype duration_error =
    DInvalid | DMissingUnit | DUnknownUnit string
  | DNotScalar | DParse string duration_error

definition digit_nat :: "char \<Rightarrow> nat" where
  "digit_nat c = of_char c - 48"

fun leadingInt :: "nat \<Rightarrow> string \<Rightarrow> duration_error + nat \<times> string" where
  "leadingInt x [] = Inr (x, [])"
| "leadingInt x (c # s) =
     (if \<not> is_digit_char c then Inr (x, c # s)
      else if two63 div 10 < x then Inl DInvalid
      else let y = x * 10 + digit_nat c in
        if two63 < y then Inl DInvalid else leadingInt y s)"

text \<open>
  After the decimal point: digits beyond what 63 bits hold are read and dropped. The scale is a
  power of ten of at most 19 digits, which \<^verbatim>\<open>float64\<close> represents exactly.
\<close>

fun leadingFraction :: "bool \<Rightarrow> nat \<Rightarrow> nat \<Rightarrow> string \<Rightarrow> nat \<times> nat \<times> string" where
  "leadingFraction overflow x scale [] = (x, scale, [])"
| "leadingFraction overflow x scale (c # s) =
     (if \<not> is_digit_char c then (x, scale, c # s)
      else if overflow then leadingFraction True x scale s
      else if (two63 - 1) div 10 < x then leadingFraction True x scale s
      else let y = x * 10 + digit_nat c in
        if two63 < y then leadingFraction True x scale s
        else leadingFraction False y (scale * 10) s)"

definition durationUnits :: "(string \<times> nat) list" where
  "durationUnits = [
     (''ns'', 1), (''us'', 1000),
     ([CHR 0xC2, CHR 0xB5, CHR ''s''], 1000),
     ([CHR 0xCE, CHR 0xBC, CHR ''s''], 1000),
     (''ms'', 1000000), (''s'', 1000000000), (''m'', 60000000000), (''h'', 3600000000000)]"

definition unit_char :: "char \<Rightarrow> bool" where
  "unit_char c \<longleftrightarrow> c \<noteq> CHR ''.'' \<and> \<not> is_digit_char c"

text \<open>The body of the loop before \<^verbatim>\<open>d += v\<close>: one segment, its value and the rest of the text.\<close>

definition segment_value :: "nat \<Rightarrow> nat \<Rightarrow> nat \<Rightarrow> string \<Rightarrow> duration_error + nat \<times> string" where
  "segment_value v f scale s =
     (let u = takeWhile unit_char s; rest = dropWhile unit_char s in
      if u = [] then Inl DMissingUnit
      else case map_of durationUnits u of
          None \<Rightarrow> Inl (DUnknownUnit u)
        | Some unit \<Rightarrow>
            if two63 div unit < v then Inl DInvalid
            else
              let w = v * unit;
                  w2 = (if 0 < f
                        then w + uint64_of_float
                               (float64_mult (float64_round (f, 1)) (float64_round (unit, scale)))
                        else w) in
              if 0 < f \<and> two63 < w2 then Inl DInvalid else Inr (w2, rest))"

definition next_segment :: "string \<Rightarrow> duration_error + nat \<times> string" where
  "next_segment s =
     (if \<not> (hd s = CHR ''.'' \<or> is_digit_char (hd s)) then Inl DInvalid
      else case leadingInt 0 s of
          Inl e \<Rightarrow> Inl e
        | Inr (v, s1) \<Rightarrow>
            let pre = (length s \<noteq> length s1);
                point = HasPrefix s1 ''.'';
                (f, scale, s2) = (if point then leadingFraction False 0 1 (tl s1) else (0, 1, s1));
                post = (point \<and> length (tl s1) \<noteq> length s2) in
            if \<not> pre \<and> \<not> post then Inl DInvalid else segment_value v f scale s2)"

lemma leadingInt_shorter: "leadingInt x s = Inr (v, r) \<Longrightarrow> length r \<le> length s"
  by (induction x s rule: leadingInt.induct) (fastforce simp: Let_def split: if_splits)+

lemma leadingFraction_shorter: "length (snd (snd (leadingFraction b x c s))) \<le> length s"
  by (induction s arbitrary: b x c) (auto simp: Let_def intro: le_SucI)

lemma segment_value_shorter: "segment_value v f c s = Inr (w, r) \<Longrightarrow> length r < length s"
  using length_dropWhile_le [of unit_char s]
  by (cases s) (auto simp: segment_value_def Let_def le_imp_less_Suc length_dropWhile_le
      split: if_splits option.splits)

lemma next_segment_shorter:
  assumes "next_segment s = Inr (v, r)"
  shows "length r < length s"
proof -
  obtain v1 s1 where l: "leadingInt 0 s = Inr (v1, s1)"
    using assms by (auto simp: next_segment_def split: if_splits sum.splits)
  have s1: "length s1 \<le> length s" by (rule leadingInt_shorter [OF l])
  have "length (snd (snd (leadingFraction False 0 1 (tl s1)))) \<le> length s1"
    using leadingFraction_shorter [of False 0 1 "tl s1"] by simp
  with s1 assms l show ?thesis
    by (auto simp: next_segment_def Let_def split: if_splits prod.splits
        dest!: segment_value_shorter)
qed

text \<open>The loop; the sum is an \<^verbatim>\<open>uint64\<close> and wraps around.\<close>

function duration_loop :: "nat \<Rightarrow> string \<Rightarrow> duration_error + nat" where
  "duration_loop d s =
     (if s = [] then Inr d
      else case next_segment s of
          Inl e \<Rightarrow> Inl e
        | Inr (v, rest) \<Rightarrow>
            let d2 = (d + v) mod 2 ^ 64 in
            if two63 < d2 then Inl DInvalid else duration_loop d2 rest)"
  by pat_completeness auto

termination duration_loop
  by (relation "measure (length \<circ> snd)") (auto dest: next_segment_shorter)

declare duration_loop.simps [simp del]

definition ParseDuration :: "string \<Rightarrow> duration_error + int" where
  "ParseDuration orig =
     (let neg = HasPrefix orig ''-'';
          s = (if HasPrefix orig ''-'' \<or> HasPrefix orig ''+'' then tl orig else orig) in
      if s = ''0'' then Inr 0
      else if s = [] then Inl DInvalid
      else case duration_loop 0 s of
          Inl e \<Rightarrow> Inl e
        | Inr d \<Rightarrow>
            if neg then Inr (wrap64 (- wrap64 (int d)))
            else if two63 - 1 < d then Inl DInvalid
            else Inr (wrap64 (int d)))"

definition Duration_UnmarshalYAML :: "int \<Rightarrow> yaml_node \<Rightarrow> duration_error + int" where
  "Duration_UnmarshalYAML d node =
     (if \<not> y_scalar node then Inl DNotScalar
      else if y_value node = [] then Inr d
      else case ParseDuration (y_value node) of
          Inl e \<Rightarrow> Inl (DParse (y_value node) e)
        | Inr duration \<Rightarrow> Inr duration)"

section \<open>Whole numbers with units\<close>

lemma decimal_value_grows: "list_all is_digit_char ds \<Longrightarrow> 0 \<le> acc \<Longrightarrow> acc \<le> decimal_value acc ds"
proof (induction ds arbitrary: acc)
  case (Cons c ds)
  then have "0 \<le> digit_value c"
    by (simp add: digit_value_def is_digit_char_def less_eq_char_def)
  with Cons.IH [of "acc * 10 + digit_value c"] Cons.prems show ?case by simp
qed simp

lemma digit_nat_value: "is_digit_char c \<Longrightarrow> int (digit_nat c) = digit_value c"
  by (simp add: digit_nat_def digit_value_def is_digit_char_def less_eq_char_def)

definition starts_unit :: "string \<Rightarrow> bool" where
  "starts_unit r \<longleftrightarrow> r = [] \<or> \<not> is_digit_char (hd r)"

lemma leadingInt_digits:
  assumes "list_all is_digit_char ds" "decimal_value (int x) ds \<le> int two63" "starts_unit r"
  shows "leadingInt x (ds @ r) = Inr (nat (decimal_value (int x) ds), r)"
  using assms(1,2)
proof (induction ds arbitrary: x)
  case Nil
  then show ?case using assms(3) by (cases r) (auto simp: starts_unit_def)
next
  case (Cons c ds)
  let ?y = "x * 10 + digit_nat c"
  have y: "int x * 10 + digit_value c = int ?y"
    using Cons.prems digit_nat_value [of c] by simp
  then have le: "int ?y \<le> int two63"
    using Cons.prems decimal_value_grows [of ds "int ?y"] by simp
  then have "\<not> two63 < ?y" "\<not> two63 div 10 < x" by (auto simp: two63_def)
  with Cons y show ?case by (simp add: Let_def)
qed

lemma leadingInt_itoa:
  "n \<le> two63 \<Longrightarrow> starts_unit r \<Longrightarrow> leadingInt 0 (itoa_nat n @ r) = Inr (n, r)"
  using leadingInt_digits [of "itoa_nat n" 0 r] itoa_nat_digits [of n] decimal_value_itoa [of n]
  by simp

lemma durationUnits_facts:
  assumes "(u, k) \<in> set durationUnits"
  shows "map_of durationUnits u = Some k" "u \<noteq> []" "list_all unit_char u" "0 < k"
    "\<not> is_digit_char (hd u)" "hd u \<noteq> CHR ''.''"
  using assms
  by (auto simp: durationUnits_def unit_char_def is_digit_char_def less_eq_char_def)

definition starts_segment :: "string \<Rightarrow> bool" where
  "starts_segment r \<longleftrightarrow> r = [] \<or> \<not> unit_char (hd r)"

lemma unit_split:
  assumes "list_all unit_char u" "starts_segment r"
  shows "takeWhile unit_char (u @ r) = u" "dropWhile unit_char (u @ r) = r"
  using assms by (cases r; auto simp: starts_segment_def list_all_iff)+

section \<open>Fractions\<close>

lemma less_bit_length: "n < 2 ^ bit_length n"
proof (induction n rule: bit_length.induct)
  case (1 n)
  then show ?case by (cases "n = 0") (subst bit_length.simps; force)+
qed

lemma bit_length_le: "n < 2 ^ k \<Longrightarrow> bit_length n \<le> k"
proof (induction n arbitrary: k rule: bit_length.induct)
  case (1 n)
  show ?case
  proof (cases "n = 0")
    case True
    then show ?thesis by (simp add: bit_length.simps)
  next
    case False
    with 1(2) obtain j where k: "k = Suc j" by (cases k) auto
    with 1 False show ?thesis by (subst bit_length.simps) auto
  qed
qed

lemma div_half_even_exact [simp]: "0 < q \<Longrightarrow> div_half_even (m * q) q = m"
  by (simp add: div_half_even_def)

text \<open>A quotient that is a whole number below \<open>2 ^ 53\<close> is not changed by rounding.\<close>

lemma float64_round_exact:
  assumes "m < 2 ^ 53" "0 < q"
  shows "\<exists>b. 0 < b \<and> float64_round (m * q, q) = (m * b, b)"
proof (cases "m = 0")
  case True
  then show ?thesis by (simp add: float64_round_def Let_def)
next
  case False
  define e0 where "e0 = int (bit_length (m * q)) - int (bit_length q) - 53"
  define e where "e = (if m * q * 2 ^ nat (- e0) < 2 ^ 53 * (q * 2 ^ nat e0) then e0 else e0 + 1)"
  have lt: "m * q < 2 ^ 53 * q" using assms by simp
  also have "\<dots> < 2 ^ 53 * 2 ^ bit_length q" using less_bit_length [of q] by simp
  finally have "bit_length (m * q) \<le> 53 + bit_length q"
    by (intro bit_length_le) (simp add: power_add)
  then have e0: "e0 \<le> 0" by (simp add: e0_def)
  have "e \<le> 0"
  proof (cases "e0 = 0")
    case True
    then show ?thesis using lt by (simp add: e_def)
  next
    case False
    then show ?thesis using e0 by (simp add: e_def)
  qed
  then have "div_half_even (m * q * 2 ^ nat (- e)) (q * 2 ^ nat e) * 2 ^ nat e = m * 2 ^ nat (- e)"
    using assms(2) div_half_even_exact [of q "m * 2 ^ nat (- e)"] by (simp add: ac_simps)
  moreover have "float64_round (m * q, q) =
      (if m * q = 0 then (0, 1)
       else (div_half_even (m * q * 2 ^ nat (- e)) (q * 2 ^ nat e) * 2 ^ nat e, 2 ^ nat (- e)))"
    by (simp only: float64_round_def Let_def prod.case e_def e0_def)
  ultimately have "float64_round (m * q, q) = (m * 2 ^ nat (- e), 2 ^ nat (- e))"
    using False assms(2) by simp
  then show ?thesis by (intro exI [of _ "2 ^ nat (- e)"]) simp
qed

lemma fraction_exact:
  assumes "f < 2 ^ 53" "0 < scale" "u < 2 ^ 53" "f * u < 2 ^ 53"
  shows "uint64_of_float (float64_mult (float64_round (f, 1)) (float64_round (u * scale, scale))) = f * u"
proof -
  obtain a where a: "0 < a" "float64_round (f, 1) = (f * a, a)"
    using float64_round_exact [OF assms(1), of 1] by auto
  obtain b where b: "0 < b" "float64_round (u * scale, scale) = (u * b, b)"
    using float64_round_exact [OF assms(3,2)] by auto
  obtain c where "0 < c" "float64_round (f * u * (a * b), a * b) = (f * u * c, c)"
    using float64_round_exact [OF assms(4), of "a * b"] a(1) b(1) by auto
  moreover have "f * a * (u * b) = f * u * (a * b)" by (simp add: ac_simps)
  ultimately show ?thesis by (simp only: float64_mult_def uint64_of_float_def a b fst_conv snd_conv) simp
qed

lemma digit_nat_less: "is_digit_char c \<Longrightarrow> digit_nat c < 10"
  by (auto simp: digit_nat_def is_digit_char_def less_eq_char_def)

text \<open>Up to 18 digits after the point are read as they are.\<close>

lemma leadingFraction_digits:
  assumes "list_all is_digit_char ds" "x < 10 ^ j" "j + length ds \<le> 18" "starts_unit r"
  shows "leadingFraction False x c (ds @ r) = (nat (decimal_value (int x) ds), c * 10 ^ length ds, r) \<and>
    nat (decimal_value (int x) ds) < 10 ^ (j + length ds)"
  using assms(1,2,3)
proof (induction ds arbitrary: x c j)
  case Nil
  then show ?case using assms(4) by (cases r) (auto simp: starts_unit_def)
next
  case (Cons d ds)
  let ?y = "x * 10 + digit_nat d"
  have y: "int x * 10 + digit_value d = int ?y"
    using Cons.prems digit_nat_value [of d] by simp
  have "x < 10 ^ 17"
    using Cons.prems power_increasing [of j 17 "10 :: nat"] by simp
  then have small: "\<not> two63 < ?y" "\<not> (two63 - 1) div 10 < x"
    using Cons.prems digit_nat_less [of d] by (auto simp: two63_def)
  have "?y < 10 ^ Suc j" using Cons.prems digit_nat_less [of d] by simp
  then have "leadingFraction False ?y (c * 10) (ds @ r) =
      (nat (decimal_value (int ?y) ds), c * 10 * 10 ^ length ds, r) \<and>
      nat (decimal_value (int ?y) ds) < 10 ^ (Suc j + length ds)"
    using Cons.prems by (intro Cons.IH) auto
  with small Cons.prems y show ?case by (simp add: Let_def)
qed

section \<open>Texts of durations\<close>

text \<open>
  A segment: a whole number, the digits after the point (no point when there are none), and a
  unit with its length.
\<close>

record segment =
  sg_whole :: nat
  sg_digits :: string
  sg_unit :: string
  sg_length :: nat

definition segment_text :: "segment \<Rightarrow> string" where
  "segment_text g =
     itoa_nat (sg_whole g) @ (if sg_digits g = [] then [] else CHR ''.'' # sg_digits g) @ sg_unit g"

definition segment_nanos :: "segment \<Rightarrow> nat" where
  "segment_nanos g =
     sg_whole g * sg_length g +
     nat (decimal_value 0 (sg_digits g)) * (sg_length g div 10 ^ length (sg_digits g))"

text \<open>The unit exists, and the digits go no further than whole nanoseconds.\<close>

definition segment_ok :: "segment \<Rightarrow> bool" where
  "segment_ok g \<longleftrightarrow>
     (sg_unit g, sg_length g) \<in> set durationUnits \<and> list_all is_digit_char (sg_digits g) \<and>
     10 ^ length (sg_digits g) dvd sg_length g"

lemma durationUnits_bound: "(u, k) \<in> set durationUnits \<Longrightarrow> k < 10 ^ 13"
  by (auto simp: durationUnits_def)

lemma segment_fraction:
  assumes "segment_ok g" "sg_digits g \<noteq> []" "starts_unit r"
  defines "f \<equiv> nat (decimal_value 0 (sg_digits g))" and "scale \<equiv> 10 ^ length (sg_digits g)"
  shows "leadingFraction False 0 1 (sg_digits g @ r) = (f, scale, r)"
    "uint64_of_float (float64_mult (float64_round (f, 1)) (float64_round (sg_length g, scale))) =
     f * (sg_length g div scale)"
proof -
  let ?n = "length (sg_digits g)"
  have k: "sg_length g < 10 ^ 13" "0 < sg_length g" "scale dvd sg_length g"
    using assms durationUnits_bound durationUnits_facts(4) by (auto simp: segment_ok_def)
  have scale: "0 < scale" "scale \<le> sg_length g" using k by (auto simp: scale_def dest: dvd_imp_le)
  have "(10 :: nat) ^ ?n < 10 ^ 13" using scale(2) k(1) unfolding scale_def by linarith
  then have n: "?n < 13" by (rule power_less_imp_less_exp [rotated]) simp
  have read: "leadingFraction False 0 1 (sg_digits g @ r) = (f, scale, r) \<and> f < 10 ^ (0 + ?n)"
    using leadingFraction_digits [of "sg_digits g" 0 0 r 1] assms n
    by (simp add: segment_ok_def f_def scale_def)
  then show "leadingFraction False 0 1 (sg_digits g @ r) = (f, scale, r)" by simp
  have f: "f < scale" using read by (simp add: scale_def)
  let ?u = "sg_length g div scale"
  have u: "sg_length g = ?u * scale" "?u \<le> sg_length g" using k(3) by simp_all
  have "f * ?u \<le> scale * ?u" using f by simp
  also have "\<dots> = sg_length g" using k(3) by simp
  finally have "f * ?u \<le> sg_length g" .
  moreover have "sg_length g < 2 ^ 53" using k(1) by simp
  ultimately have "f * ?u < 2 ^ 53" "?u < 2 ^ 53" "f < 2 ^ 53"
    using u(2) f scale(2) by linarith+
  then show "uint64_of_float (float64_mult (float64_round (f, 1)) (float64_round (sg_length g, scale))) =
      f * ?u"
    using fraction_exact [of f scale ?u] scale(1) u(1) by simp
qed

lemma next_segment_text:
  assumes ok: "segment_ok g" "segment_nanos g \<le> two63" and r: "starts_segment r"
  shows "next_segment (segment_text g @ r) = Inr (segment_nanos g, r)"
proof -
  let ?n = "sg_whole g" and ?k = "sg_length g" and ?ds = "sg_digits g"
  let ?r = "(if ?ds = [] then [] else CHR ''.'' # ?ds) @ sg_unit g @ r"
  have unit: "(sg_unit g, ?k) \<in> set durationUnits" using ok by (simp add: segment_ok_def)
  note u = durationUnits_facts [OF unit]
  have "?n * ?k \<le> two63" using ok(2) by (simp add: segment_nanos_def)
  then have n: "?n \<le> two63 div ?k" using u(4) by (simp add: less_eq_div_iff_mult_less_eq)
  have ur: "starts_unit (sg_unit g @ r)" using u by (simp add: starts_unit_def)
  then have "starts_unit ?r" by (auto simp: starts_unit_def is_digit_char_def less_eq_char_def)
  moreover have "?n \<le> two63" using n div_le_dividend le_trans by blast
  ultimately have l: "leadingInt 0 (itoa_nat ?n @ ?r) = Inr (?n, ?r)"
    by (rule leadingInt_itoa [rotated])
  have d: "is_digit_char (hd (itoa_nat ?n @ ?r))"
    using itoa_nat_digits [of ?n] itoa_nat_not_Nil [of ?n] by (cases "itoa_nat ?n") auto
  have pre: "itoa_nat ?n \<noteq> []" by (rule itoa_nat_not_Nil)
  show ?thesis
  proof (cases "?ds = []")
    case True
    moreover have "\<not> HasPrefix (sg_unit g @ r) ''.''"
      using u by (cases "sg_unit g") (auto simp: HasPrefix_def)
    ultimately show ?thesis
      using l d u n unit_split [OF u(3) r] pre
      by (simp add: next_segment_def segment_value_def segment_text_def segment_nanos_def Let_def)
  next
    case False
    note f = segment_fraction [OF ok(1) False ur]
    have p: "HasPrefix (CHR ''.'' # t) ''.''" for t by (simp add: HasPrefix_def)
    have "segment_value ?n (nat (decimal_value 0 ?ds)) (10 ^ length ?ds) (sg_unit g @ r) =
        Inr (segment_nanos g, r)"
      using ok(2) u n unit_split [OF u(3) r] f(2)
      by (auto simp: segment_value_def segment_nanos_def Let_def)
    then show ?thesis
      using l d f(1) pre False p by (simp add: next_segment_def segment_text_def)
  qed
qed

definition duration_text :: "segment list \<Rightarrow> string" where
  "duration_text segs = concat (map segment_text segs)"

definition duration_nanos :: "segment list \<Rightarrow> nat" where
  "duration_nanos segs = sum_list (map segment_nanos segs)"

lemma duration_text_starts:
  assumes "segs \<noteq> []"
  shows "is_digit_char (hd (duration_text segs))" "duration_text segs \<noteq> []"
proof -
  obtain g rest where s: "segs = g # rest" using assms by (cases segs) auto
  show "is_digit_char (hd (duration_text segs))" "duration_text segs \<noteq> []"
    using itoa_nat_digits [of "sg_whole g"] itoa_nat_not_Nil [of "sg_whole g"]
    by (cases "itoa_nat (sg_whole g)"; simp add: s duration_text_def segment_text_def)+
qed

lemma duration_text_starts_segment: "starts_segment (duration_text segs)"
  using duration_text_starts [of segs]
  by (cases segs) (auto simp: duration_text_def starts_segment_def unit_char_def)

lemma duration_loop_text:
  assumes "list_all segment_ok segs" "d + duration_nanos segs \<le> two63"
  shows "duration_loop d (duration_text segs) = Inr (d + duration_nanos segs)"
  using assms
proof (induction segs arbitrary: d)
  case Nil
  then show ?case by (simp add: duration_text_def duration_nanos_def duration_loop.simps)
next
  case (Cons g segs)
  have sum: "duration_nanos (g # segs) = segment_nanos g + duration_nanos segs"
    and whole: "duration_text (g # segs) = segment_text g @ duration_text segs"
    by (simp_all add: duration_nanos_def duration_text_def)
  have "next_segment (segment_text g @ duration_text segs) = Inr (segment_nanos g, duration_text segs)"
    using Cons.prems sum by (intro next_segment_text duration_text_starts_segment) auto
  moreover have "(d + segment_nanos g) mod 2 ^ 64 = d + segment_nanos g" "\<not> two63 < d + segment_nanos g"
    using Cons.prems(2) sum by (auto simp: two63_def)
  moreover have "duration_loop (d + segment_nanos g) (duration_text segs) =
      Inr (d + segment_nanos g + duration_nanos segs)"
    using Cons.prems sum by (intro Cons.IH) auto
  moreover have "segment_text g \<noteq> []" by (simp add: segment_text_def itoa_nat_not_Nil)
  ultimately show ?case by (subst duration_loop.simps) (simp add: whole sum Let_def add_ac)
qed

lemma duration_text_unsigned:
  assumes "segs \<noteq> []" "list_all segment_ok segs"
  shows "\<not> HasPrefix (duration_text segs) ''-''" "\<not> HasPrefix (duration_text segs) ''+''"
    "duration_text segs \<noteq> ''0''"
proof -
  obtain g rest where s: "segs = g # rest" using assms by (cases segs) auto
  have "sg_unit g \<noteq> []" using assms durationUnits_facts(2) by (auto simp: s segment_ok_def)
  then have "1 < length (duration_text segs)"
    using itoa_nat_not_Nil [of "sg_whole g"]
    by (cases "itoa_nat (sg_whole g)") (auto simp: s duration_text_def segment_text_def)
  then show "duration_text segs \<noteq> ''0''" by auto
  show "\<not> HasPrefix (duration_text segs) ''-''" "\<not> HasPrefix (duration_text segs) ''+''"
    using duration_text_starts [OF assms(1)]
    by (cases "duration_text segs"; auto simp: HasPrefix_def is_digit_char_def less_eq_char_def)+
qed

lemma bare_number_refused:
  assumes "0 < n" "n \<le> two63"
  shows "ParseDuration (itoa_nat n) = Inl DMissingUnit"
proof -
  obtain c cs where i: "itoa_nat n = c # cs" using itoa_nat_not_Nil [of n] by (cases "itoa_nat n") auto
  then have c: "is_digit_char c" using itoa_nat_digits [of n] by simp
  have l: "leadingInt 0 (itoa_nat n) = Inr (n, [])"
    using leadingInt_itoa [of n "[]"] assms(2) by (simp add: starts_unit_def)
  have "itoa_nat n \<noteq> ''0''"
    using decimal_value_itoa [of n] assms(1) by (auto simp: digit_value_def)
  moreover have "duration_loop 0 (itoa_nat n) = Inl DMissingUnit"
    using l c i by (subst duration_loop.simps)
      (simp add: next_segment_def segment_value_def HasPrefix_def Let_def)
  moreover have "\<not> HasPrefix (itoa_nat n) ''-''" "\<not> HasPrefix (itoa_nat n) ''+''"
    using c i by (auto simp: HasPrefix_def is_digit_char_def less_eq_char_def)
  ultimately show ?thesis by (simp add: ParseDuration_def i Let_def)
qed

text \<open>
  C34. A duration of the configuration reads as what it says. A text of one or more
  segments, each a decimal number with a unit whose digits go no further than whole
  nanoseconds, is the exact sum of the segments in nanoseconds although fractions are computed in
  floating point, and with a minus sign its negation; an empty text keeps the value that
  was set before; a plain number other than zero is refused for want of a unit.
\<close>

theorem duration_reads_exactly:
  assumes "segs \<noteq> []" "list_all segment_ok segs" "int (duration_nanos segs) \<le> max_int64"
    and "0 < n" "n \<le> two63"
  shows "Duration_UnmarshalYAML d \<lparr>y_scalar = True, y_value = duration_text segs\<rparr> =
      Inr (int (duration_nanos segs)) \<and>
    Duration_UnmarshalYAML d \<lparr>y_scalar = True, y_value = ''-'' @ duration_text segs\<rparr> =
      Inr (- int (duration_nanos segs)) \<and>
    Duration_UnmarshalYAML d \<lparr>y_scalar = True, y_value = []\<rparr> = Inr d \<and>
    Duration_UnmarshalYAML d \<lparr>y_scalar = True, y_value = itoa_nat n\<rparr> =
      Inl (DParse (itoa_nat n) DMissingUnit)"
proof -
  have le: "duration_nanos segs < two63" using assms(3) by (simp add: max_int64_def two63_def)
  then have loop: "duration_loop 0 (duration_text segs) = Inr (duration_nanos segs)"
    using duration_loop_text [OF assms(2), of 0] by simp
  have "is_int64 (int (duration_nanos segs))" "is_int64 (- int (duration_nanos segs))"
    using assms(3) by (simp_all add: is_int64_def max_int64_def min_int64_def)
  moreover have "HasPrefix (CHR ''-'' # t) ''-''" for t by (simp add: HasPrefix_def)
  ultimately have "ParseDuration (duration_text segs) = Inr (int (duration_nanos segs))"
    "ParseDuration (CHR ''-'' # duration_text segs) = Inr (- int (duration_nanos segs))"
    using loop le duration_text_unsigned [OF assms(1,2)] duration_text_starts(2) [OF assms(1)]
    by (simp_all add: ParseDuration_def Let_def)
  then show ?thesis
    using duration_text_starts(2) [OF assms(1)] bare_number_refused [OF assms(4,5)] itoa_nat_not_Nil
    by (simp add: Duration_UnmarshalYAML_def)
qed

theorem duration_reads_exactly_witness:
  "Duration_UnmarshalYAML 0 \<lparr>y_scalar = True, y_value = ''1h2.5s''\<rparr> = Inr 3602500000000 \<and>
   Duration_UnmarshalYAML 0 \<lparr>y_scalar = True, y_value = ''30''\<rparr> = Inl (DParse ''30'' DMissingUnit)"
proof -
  let ?g = "[\<lparr>sg_whole = 1, sg_digits = [], sg_unit = ''h'', sg_length = 3600000000000\<rparr>,
    \<lparr>sg_whole = 2, sg_digits = ''5'', sg_unit = ''s'', sg_length = 1000000000\<rparr>]"
  have num: "itoa_nat 1 = ''1''" "itoa_nat 2 = ''2''" "itoa_nat 30 = ''30''"
    by code_simp+
  have "list_all segment_ok ?g"
    by (simp add: segment_ok_def durationUnits_def is_digit_char_def less_eq_char_def)
  moreover have "duration_nanos ?g = 3602500000000"
    by (simp add: duration_nanos_def segment_nanos_def digit_value_def)
  moreover have "duration_text ?g = ''1h2.5s''"
    using num by (simp add: duration_text_def segment_text_def)
  ultimately show ?thesis
    using duration_reads_exactly [of ?g 30 0] num(3) by (simp add: max_int64_def two63_def)
qed

end
