(* ===== verification/Tls_Material.thy ===== *)
theory Tls_Material
  imports Airpc_Config
begin

text \<open>
  Package \<^verbatim>\<open>internal/config\<close>, \<^verbatim>\<open>tls.go\<close>: the TLS configurations of the edge's listeners and of the
  connector's dial. Loading a key pair, reading a file and parsing certificates are functions
  of the environment; a \<^verbatim>\<open>tls.Config\<close> is the record of the fields the program sets, a pool the PEM
  file it was made from.

  The lemmas state which peers have to present certificates.
\<close>

section \<open>Environment and configurations\<close>

record tls_env =
  te_LoadX509KeyPair :: "string \<Rightarrow> string \<Rightarrow> string + string"
  te_ReadFile :: "string \<Rightarrow> string + bytes"
  te_AppendCertsFromPEM :: "bytes \<Rightarrow> bool"

datatype client_auth = NoClientCert | RequireAndVerifyClientCert

definition VersionTLS12 :: int where "VersionTLS12 = 0x0303"

record tls_config =
  tl_Certificates :: "string list"
  tl_MinVersion :: int
  tl_ClientCAs :: "bytes option"
  tl_ClientAuth :: client_auth
  tl_RootCAs :: "bytes option"
  tl_ServerName :: string

datatype tls_error =
    TlsKeyPair string | TlsClientCA tls_error | TlsConnectorCA tls_error | TlsConnectorKeyPair string
  | TlsReadFile string | TlsNoCertificates string

section \<open>Operations\<close>

definition loadCertPool :: "tls_env \<Rightarrow> string \<Rightarrow> (tls_error, bytes) result" where
  "loadCertPool env path =
     (case te_ReadFile env path of
        Inl e \<Rightarrow> Inl (TlsReadFile e)
      | Inr pem \<Rightarrow> if \<not> te_AppendCertsFromPEM env pem then Inl (TlsNoCertificates path) else Inr pem)"

definition ServerTLS :: "tls_env \<Rightarrow> tls_server_config \<Rightarrow> (tls_error, tls_config) result" where
  "ServerTLS env t =
     (case te_LoadX509KeyPair env (ts_CertFile t) (ts_KeyFile t) of
        Inl e \<Rightarrow> Inl (TlsKeyPair e)
      | Inr cert \<Rightarrow>
          Inr \<lparr>tl_Certificates = [cert], tl_MinVersion = VersionTLS12, tl_ClientCAs = None,
               tl_ClientAuth = NoClientCert, tl_RootCAs = None, tl_ServerName = []\<rparr>)"

definition DataTLS :: "tls_env \<Rightarrow> tls_server_config \<Rightarrow> (tls_error, tls_config) result" where
  "DataTLS env t =
     (case ServerTLS env t of
        Inl e \<Rightarrow> Inl e
      | Inr cfg \<Rightarrow>
          if ts_ClientCAFile t = [] then Inr cfg
          else (case loadCertPool env (ts_ClientCAFile t) of
              Inl e \<Rightarrow> Inl (TlsClientCA e)
            | Inr pool \<Rightarrow> Inr (cfg\<lparr>tl_ClientCAs := Some pool, tl_ClientAuth := RequireAndVerifyClientCert\<rparr>)))"

definition ClientTLS :: "tls_env \<Rightarrow> tls_client_config \<Rightarrow> (tls_error, tls_config) result" where
  "ClientTLS env t =
     (let cfg = \<lparr>tl_Certificates = [], tl_MinVersion = VersionTLS12, tl_ClientCAs = None, tl_ClientAuth = NoClientCert,
                 tl_RootCAs = None, tl_ServerName = tc_ServerName t\<rparr>;
          withCA = (if tc_CAFile t \<noteq> [] then
              (case loadCertPool env (tc_CAFile t) of
                 Inl e \<Rightarrow> Inl (TlsConnectorCA e) | Inr pool \<Rightarrow> Inr (cfg\<lparr>tl_RootCAs := Some pool\<rparr>))
            else Inr cfg) in
      case withCA of
        Inl e \<Rightarrow> Inl e
      | Inr cfg' \<Rightarrow>
          if tc_CertFile t \<noteq> [] then
            (case te_LoadX509KeyPair env (tc_CertFile t) (tc_KeyFile t) of
               Inl e \<Rightarrow> Inl (TlsConnectorKeyPair e) | Inr cert \<Rightarrow> Inr (cfg'\<lparr>tl_Certificates := [cert]\<rparr>))
          else Inr cfg')"

section \<open>Properties\<close>

text \<open>
  C26. Who has to show a certificate. Every configuration requires TLS 1.2 or later. The public
  listeners present the configured key pair and never ask clients for certificates. The data
  listener presents the same key pair, and requires and verifies client certificates, against
  the certificates of \<^verbatim>\<open>client_ca_file\<close>, exactly when that file is configured; an unreadable
  file, or one without certificates, is an error and never an open listener. The connector
  trusts exactly the configured authority and presents exactly the configured certificate.
\<close>

theorem tls_policy:
  "(\<forall>c. ServerTLS env s = Inr c \<longrightarrow>
      te_LoadX509KeyPair env (ts_CertFile s) (ts_KeyFile s) = Inr (hd (tl_Certificates c)) \<and>
      tl_MinVersion c = VersionTLS12 \<and> tl_ClientAuth c = NoClientCert) \<and>
   (\<forall>c. DataTLS env s = Inr c \<longrightarrow>
      (\<exists>p. ServerTLS env s = Inr p \<and> tl_Certificates c = tl_Certificates p) \<and> tl_MinVersion c = VersionTLS12 \<and>
      (tl_ClientAuth c = RequireAndVerifyClientCert \<longleftrightarrow> ts_ClientCAFile s \<noteq> []) \<and>
      (ts_ClientCAFile s \<noteq> [] \<longrightarrow>
         (\<exists>pem. te_ReadFile env (ts_ClientCAFile s) = Inr pem \<and> te_AppendCertsFromPEM env pem \<and> tl_ClientCAs c = Some pem))) \<and>
   (\<forall>c. ClientTLS env k = Inr c \<longrightarrow>
      tl_MinVersion c = VersionTLS12 \<and> tl_ServerName c = tc_ServerName k \<and>
      (if tc_CAFile k = [] then tl_RootCAs c = None
       else \<exists>pem. te_ReadFile env (tc_CAFile k) = Inr pem \<and> te_AppendCertsFromPEM env pem \<and> tl_RootCAs c = Some pem) \<and>
      (if tc_CertFile k = [] then tl_Certificates c = []
       else \<exists>cert. te_LoadX509KeyPair env (tc_CertFile k) (tc_KeyFile k) = Inr cert \<and> tl_Certificates c = [cert]))"
  by (auto simp: ServerTLS_def DataTLS_def ClientTLS_def loadCertPool_def Let_def split: sum.splits if_splits)

text \<open>An environment with one key pair and one authority.\<close>

definition sample_tls_env :: tls_env where
  "sample_tls_env =
     \<lparr>te_LoadX509KeyPair = (\<lambda>c k. Inr (c @ k)), te_ReadFile = (\<lambda>p. if p = ''ca.pem'' then Inr ''PEM'' else Inl p),
      te_AppendCertsFromPEM = (\<lambda>b. b = ''PEM'')\<rparr>"

theorem tls_policy_witness:
  "\<exists>c. DataTLS sample_tls_env \<lparr>ts_CertFile = ''c'', ts_KeyFile = ''k'', ts_ClientCAFile = ''ca.pem''\<rparr> = Inr c \<and>
     tl_ClientAuth c = RequireAndVerifyClientCert"
proof -
  let ?s = "\<lparr>ts_CertFile = ''c'', ts_KeyFile = ''k'', ts_ClientCAFile = ''ca.pem''\<rparr>"
  obtain c where c: "DataTLS sample_tls_env ?s = Inr c"
    by (simp add: DataTLS_def ServerTLS_def loadCertPool_def sample_tls_env_def)
  then have "tl_ClientAuth c = RequireAndVerifyClientCert"
    using tls_policy [of sample_tls_env ?s "\<lparr>tc_CAFile = [], tc_CertFile = [], tc_KeyFile = [], tc_ServerName = []\<rparr>"] by simp
  with c show ?thesis by blast
qed

end
