(* ===== verification/Process_Resources.thy ===== *)
theory Process_Resources
  imports Tls_Material "HOL-Library.Multiset"
begin

text \<open>
  What the two processes acquire and release: packages \<^verbatim>\<open>internal/natscore\<close> and \<^verbatim>\<open>internal/telemetry\<close>
  (\<^verbatim>\<open>StartServer\<close>), and listening. The resources held are a multiset. Whether a call to NATS or to
  the operating system succeeds is up to the environment.

  The locale \<open>startup\<close> states what a start function owes its caller: after a failure only what
  lives until the context ends is left, after a success exactly what stopping releases.
\<close>

section \<open>Resources and environment\<close>

datatype resource =
    NatsConn string | MetricsServer string | Listener string | Subscription string "string option"
  | TunnelClient string

type_synonym resources = "resource multiset"

record nats_options =
  no_Name :: string
  no_MaxReconnects :: int
  no_UserCredentials :: "string option"

record start_env =
  en_connect :: "string \<Rightarrow> nats_options \<Rightarrow> string option"
  en_listen :: "string \<Rightarrow> resources \<Rightarrow> string + string"
  en_subscribe :: "string \<Rightarrow> string option \<Rightarrow> string option"
  en_flush :: "string \<Rightarrow> string option"
  en_tls :: tls_env

datatype start_error =
    SConnect string | SListen string string string | SMetrics string string | STls tls_error
  | SSubscribe string string | SFlush string string | STarget string | SDataURL

section \<open>natscore\<close>

definition Connect :: "start_env \<Rightarrow> string \<Rightarrow> string \<Rightarrow> string \<Rightarrow> resources \<Rightarrow> resources \<times> start_error option" where
  "Connect env url name credsFile os =
     (let opts = \<lparr>no_Name = name, no_MaxReconnects = -1,
                  no_UserCredentials = (if credsFile \<noteq> [] then Some credsFile else None)\<rparr> in
      case en_connect env url opts of
        Some e \<Rightarrow> (os, Some (SConnect e))
      | None \<Rightarrow> (add_mset (NatsConn name) os, None))"

definition nats_Close :: "string \<Rightarrow> resources \<Rightarrow> resources" where
  "nats_Close name os = os - {#NatsConn name#}"

text \<open>
  \<^verbatim>\<open>Drain\<close> ends the subscriptions that are left and then the connection; what it owned is
  released.
\<close>

definition nats_Drain :: "string \<Rightarrow> resources \<Rightarrow> resources" where
  "nats_Drain name os = os - {#NatsConn name#}"

text \<open>
  Messages. \<open>nats_msg\<close> is the library's message, \<open>Msg\<close> the wrapper's, which keeps the library's in
  order to respond to it.
\<close>

record nats_msg =
  nm_Subject :: string
  nm_Reply :: string
  nm_Data :: bytes

record Msg =
  msg_Subject :: string
  msg_Reply :: string
  msg_Data :: bytes
  msg_msg :: "nats_msg option"

definition nats_Request :: "(nats_msg \<Rightarrow> 'e + nats_msg) \<Rightarrow> string \<Rightarrow> bytes \<Rightarrow> 'e + bytes" where
  "nats_Request request subject data =
     (case request \<lparr>nm_Subject = subject, nm_Reply = [], nm_Data = data\<rparr> of
        Inl e \<Rightarrow> Inl e
      | Inr msg \<Rightarrow> Inr (nm_Data msg))"

definition nats_Publish :: "(string \<Rightarrow> bytes \<Rightarrow> 'e option) \<Rightarrow> string \<Rightarrow> bytes \<Rightarrow> 'e option" where
  "nats_Publish publish subject data = publish subject data"

text \<open>The function both kinds of subscription hand to the library: it wraps the message for the handler.\<close>

definition wrap_handler :: "(Msg \<Rightarrow> 'r) \<Rightarrow> nats_msg \<Rightarrow> 'r" where
  "wrap_handler handler msg =
     handler \<lparr>msg_Subject = nm_Subject msg, msg_Reply = nm_Reply msg, msg_Data = nm_Data msg, msg_msg = Some msg\<rparr>"

datatype 'e respond_error = MissingMessage | RespondFailed 'e

definition Respond :: "(nats_msg \<Rightarrow> bytes \<Rightarrow> 'e option) \<Rightarrow> Msg \<Rightarrow> bytes \<Rightarrow> 'e respond_error option" where
  "Respond respond m data =
     (case msg_msg m of None \<Rightarrow> Some MissingMessage | Some msg \<Rightarrow> map_option RespondFailed (respond msg data))"

lemma wrapped_message_responds:
  "wrap_handler (\<lambda>m. Respond respond m (f (msg_Data m))) msg = map_option RespondFailed (respond msg (f (nm_Data msg)))"
  by (simp add: wrap_handler_def Respond_def)

text \<open>\<^verbatim>\<open>Subscribe\<close> (no queue) and \<^verbatim>\<open>QueueSubscribe\<close>; both flush, and unsubscribe when that fails.\<close>

definition nats_Unsubscribe :: "resource \<Rightarrow> resources \<Rightarrow> resources" where
  "nats_Unsubscribe sub os = os - {#sub#}"

definition nats_subscribe ::
  "start_env \<Rightarrow> string \<Rightarrow> string option \<Rightarrow> resources \<Rightarrow> resources \<times> (start_error, resource) result" where
  "nats_subscribe env subject queue os =
     (case en_subscribe env subject queue of
        Some e \<Rightarrow> (os, Inl (SSubscribe subject e))
      | None \<Rightarrow>
          (let sub = Subscription subject queue; os1 = add_mset sub os in
           case en_flush env subject of
             Some e \<Rightarrow> (nats_Unsubscribe sub os1, Inl (SFlush subject e))
           | None \<Rightarrow> (os1, Inr sub)))"

section \<open>Listening and the metrics server\<close>

definition close_listeners :: "string list \<Rightarrow> resources \<Rightarrow> resources" where
  "close_listeners bound os = foldl (\<lambda>os b. os - {#Listener b#}) os bound"

definition StartServer :: "start_env \<Rightarrow> string \<Rightarrow> resources \<Rightarrow> resources \<times> (start_error, string) result" where
  "StartServer env addr os =
     (if addr = [] then (os, Inr [])
      else case en_listen env addr os of
          Inl e \<Rightarrow> (os, Inl (SMetrics addr e))
        | Inr bound \<Rightarrow> (add_mset (MetricsServer bound) os, Inr bound))"

section \<open>Lemmas\<close>

lemma close_listeners_simps [simp]:
  "close_listeners [] os = os" "close_listeners (b # bs) os = close_listeners bs (os - {#Listener b#})"
  by (simp_all add: close_listeners_def)

text \<open>The listeners of a list of bound addresses, as resources.\<close>

definition listeners :: "(string \<times> 'a) list \<Rightarrow> resources" where
  "listeners ls = mset (map (\<lambda>l. Listener (fst l)) ls)"

lemma listeners_simps [simp]:
  "listeners [] = {#}" "listeners (l # ls) = add_mset (Listener (fst l)) (listeners ls)"
  "listeners (ls @ ms) = listeners ls + listeners ms"
  by (simp_all add: listeners_def)

lemma close_own_listeners [simp]: "close_listeners (map fst ls) (listeners ls + os) = os"
  by (induction ls) simp_all

lemma close_own_listeners_add [simp]: "close_listeners (map fst ls) (add_mset r (listeners ls + os)) = add_mset r os"
  using close_own_listeners [of ls "add_mset r os"] by simp

lemma nats_subscribe_cases:
  obtains (refused) e where "nats_subscribe env subject queue os = (os, Inl e)"
    | (subscribed) "nats_subscribe env subject queue os = (add_mset (Subscription subject queue) os, Inr (Subscription subject queue))"
  by (cases "en_subscribe env subject queue"; cases "en_flush env subject")
    (auto simp: nats_subscribe_def nats_Unsubscribe_def Let_def)

lemma Connect_cases:
  obtains (failed) e where "Connect env url name creds os = (os, Some e)"
    | (connected) "Connect env url name creds os = (add_mset (NatsConn name) os, None)"
  unfolding Connect_def Let_def
  by (cases "en_connect env url \<lparr>no_Name = name, no_MaxReconnects = -1,
        no_UserCredentials = (if creds \<noteq> [] then Some creds else None)\<rparr>") (auto intro: that)

fun is_metrics :: "resource \<Rightarrow> bool" where
  "is_metrics (MetricsServer _) = True"
| "is_metrics _ = False"

lemma StartServer_cases:
  obtains (failed) e where "StartServer env addr os = (os, Inl e)"
    | (started) bound ms where "StartServer env addr os = (ms + os, Inr bound)" "\<forall>r \<in># ms. is_metrics r"
  by (cases "addr = []"; cases "en_listen env addr os") (auto simp: StartServer_def intro: that(2) [of "{#}"] that(2) [of "{#_#}"])

section \<open>Starting and stopping\<close>

text \<open>
  \<open>start\<close> acquires, \<open>held\<close> is what a running instance holds and \<open>stop\<close> releases; \<open>lasting\<close> bounds what
  lives until the context ends, which \<open>stop\<close> leaves alone.
\<close>

locale startup =
  fixes start :: "'c \<Rightarrow> resources \<times> (start_error, 's) result"
    and stop :: "'s \<Rightarrow> resources \<Rightarrow> resources"
    and held :: "'s \<Rightarrow> resources"
    and lasting :: "resource \<Rightarrow> bool"
  assumes start_failed: "start c = (os, Inl e) \<Longrightarrow> r \<in># os \<Longrightarrow> lasting r"
    and start_ok: "start c = (os, Inr s) \<Longrightarrow> \<exists>rest. os = held s + rest \<and> (\<forall>r \<in># rest. lasting r)"
    and stop_held: "stop s (held s + rest) = rest"
begin

text \<open>Whether the start fails or the instance is stopped later, only lasting resources are left.\<close>

definition after_run :: "'c \<Rightarrow> resources" where
  "after_run c = (case start c of (os, Inl _) \<Rightarrow> os | (os, Inr s) \<Rightarrow> stop s os)"

lemma nothing_leaks: "r \<in># after_run c \<Longrightarrow> lasting r"
proof -
  assume r: "r \<in># after_run c"
  obtain os res where s: "start c = (os, res)" by fastforce
  show "lasting r"
  proof (cases res)
    case (Inl e)
    then show ?thesis using r s start_failed by (simp add: after_run_def)
  next
    case (Inr s')
    then obtain rest where "os = held s' + rest" "\<forall>r \<in># rest. lasting r" using start_ok s by blast
    then show ?thesis using r s Inr by (simp add: after_run_def stop_held)
  qed
qed

end

end
