(* ===== verification/Edge_Server.thy ===== *)
theory Edge_Server
  imports Edge_Unary Process_Resources
begin

text \<open>
  Package \<^verbatim>\<open>internal/edge\<close>, the life of the server: \<^verbatim>\<open>Start\<close>, the goroutine that shuts it down, \<^verbatim>\<open>Close\<close> and
  the accessors (\<^verbatim>\<open>edge.go\<close>), and the accept loop \<^verbatim>\<open>serveTCPRoute\<close> (\<^verbatim>\<open>data.go\<close>). A listener is known by the
  address it is bound to and the TLS configuration it is wrapped in.

  The lemmas state that a failed start leaves nothing behind but the metrics server, that
  stopping releases everything, and how the routes are served.
\<close>

section \<open>Starting\<close>

text \<open>\<^verbatim>\<open>tls.NewListener\<close> may be given a nil configuration.\<close>

datatype transport = Plain | Tls "tls_config option"

record server =
  sv_listener :: "string \<times> transport"
  sv_dataListen :: "string \<times> transport"
  sv_tcpListen :: "(string \<times> transport) list"
  sv_httpRoutes :: "edge_route list"
  sv_wsRoutes :: "edge_route list"
  sv_token :: string
  sv_metricsAddr :: string

definition edge_nats_name :: string where "edge_nats_name = ''airpc-edge''"

text \<open>The TLS configurations of the public and the data listener.\<close>

definition edge_tls :: "start_env \<Rightarrow> edge_config \<Rightarrow> (start_error, transport \<times> transport \<times> tls_config option) result" where
  "edge_tls env cfg =
     (case ed_TLS cfg of
        None \<Rightarrow> Inr (Plain, Plain, None)
      | Some t \<Rightarrow>
          (case ServerTLS (en_tls env) t of
             Inl e \<Rightarrow> Inl (STls e)
           | Inr publicTLS \<Rightarrow>
               (case DataTLS (en_tls env) t of
                  Inl e \<Rightarrow> Inl (STls e)
                | Inr dataTLS \<Rightarrow> Inr (Tls (Some publicTLS), Tls (Some dataTLS), Some publicTLS))))"

text \<open>The listeners of the TCP and gRPC routes; on an error those already open are closed.\<close>

fun listen_routes ::
  "start_env \<Rightarrow> tls_config option \<Rightarrow> croute list \<Rightarrow> (string \<times> transport) list \<Rightarrow> resources \<Rightarrow>
   resources \<times> (start_error, (string \<times> transport) list) result" where
  "listen_routes env publicTLS [] acc os = (os, Inr acc)"
| "listen_routes env publicTLS (r # rs) acc os =
     (case en_listen env (r_Listen r) os of
        Inl e \<Rightarrow> (close_listeners (map fst acc) os, Inl (SListen (r_Name r) (r_Listen r) e))
      | Inr bound \<Rightarrow>
          listen_routes env publicTLS rs (acc @ [(bound, if r_TLS r then Tls publicTLS else Plain)])
            (add_mset (Listener bound) os))"

definition edge_Start :: "start_env \<Rightarrow> config \<Rightarrow> resources \<times> (start_error, server) result" where
  "edge_Start env cfg =
     (case Connect env (EdgeURLOrDefault (c_NATS cfg)) edge_nats_name (n_CredsFile (c_NATS cfg)) {#} of
        (os0, Some e) \<Rightarrow> (os0, Inl e)
      | (os0, None) \<Rightarrow>
          (case StartServer env (ed_MetricsAddr (c_Edge cfg)) os0 of
             (os1, Inl e) \<Rightarrow> (nats_Close edge_nats_name os1, Inl e)
           | (os1, Inr metricsAddr) \<Rightarrow>
               (case en_listen env (ed_HTTPAddr (c_Edge cfg)) os1 of
                  Inl e \<Rightarrow> (nats_Close edge_nats_name os1, Inl (SListen ''edge HTTP'' (ed_HTTPAddr (c_Edge cfg)) e))
                | Inr listener \<Rightarrow>
                    (let os2 = add_mset (Listener listener) os1 in
                     case en_listen env (ed_DataAddr (c_Edge cfg)) os2 of
                       Inl e \<Rightarrow>
                         (nats_Close edge_nats_name (close_listeners [listener] os2),
                          Inl (SListen ''edge data'' (ed_DataAddr (c_Edge cfg)) e))
                     | Inr dataListener \<Rightarrow>
                         (let os3 = add_mset (Listener dataListener) os2 in
                          case edge_tls env (c_Edge cfg) of
                            Inl e \<Rightarrow> (nats_Close edge_nats_name (close_listeners [listener, dataListener] os3), Inl e)
                          | Inr (public, data, publicTLS) \<Rightarrow>
                              (case listen_routes env publicTLS (tcpRoutes (c_Routes cfg)) [] os3 of
                                 (os4, Inl e) \<Rightarrow>
                                   (nats_Close edge_nats_name (close_listeners [listener, dataListener] os4), Inl e)
                               | (os4, Inr tcp) \<Rightarrow>
                                   (os4, Inr \<lparr>sv_listener = (listener, public), sv_dataListen = (dataListener, data),
                                              sv_tcpListen = tcp, sv_httpRoutes = httpRoutes (c_Routes cfg),
                                              sv_wsRoutes = wsRoutes (c_Routes cfg),
                                              sv_token = cn_TunnelToken (c_Connector cfg),
                                              sv_metricsAddr = metricsAddr\<rparr>)))))))"

section \<open>Serving\<close>

text \<open>What \<^verbatim>\<open>http.Server.Serve\<close> or \<^verbatim>\<open>Accept\<close> returns, and what reaches the error channel.\<close>

datatype serve_error = ErrServerClosed | ErrClosed | ServeOther string

definition serveHTTP :: "serve_error \<Rightarrow> serve_error option" where
  "serveHTTP err = (if err = ErrServerClosed \<or> err = ErrClosed then None else Some err)"

text \<open>
  The accept loop: the connections handed to \<^verbatim>\<open>handleTCPConn\<close> and the loop's result; \<open>None\<close> while it
  is still accepting. An error comes with whether the context has ended.
\<close>

fun serveTCPRoute ::
  "'c list \<Rightarrow> ((serve_error \<times> bool) + 'c) list \<Rightarrow> 'c list \<times> serve_error option option" where
  "serveTCPRoute conns [] = (conns, None)"
| "serveTCPRoute conns (Inr conn # rest) = serveTCPRoute (conns @ [conn]) rest"
| "serveTCPRoute conns (Inl (err, ctxErr) # rest) =
     (conns, Some (if ctxErr \<or> err = ErrClosed then None else Some err))"

section \<open>Stopping\<close>

text \<open>\<^verbatim>\<open>http.Server.Shutdown\<close> closes the server's listener.\<close>

definition closeHTTPServer :: "string \<times> transport \<Rightarrow> resources \<Rightarrow> resources" where
  "closeHTTPServer l os = close_listeners [fst l] os"

text \<open>
  The shutdown goroutine, once the context has ended or a server has returned: the resources,
  the tunnels and the value sent to \<^verbatim>\<open>done\<close>.
\<close>

definition edge_shutdown ::
  "server \<Rightarrow> serve_error option \<Rightarrow> resources \<Rightarrow> edge_state \<Rightarrow> resources \<times> edge_state \<times> serve_error option" where
  "edge_shutdown sv runErr os st =
     (let os1 = closeHTTPServer (sv_dataListen sv) (closeHTTPServer (sv_listener sv) os);
          os2 = close_listeners (map fst (sv_tcpListen sv)) os1 in
      (nats_Drain edge_nats_name os2, closeAll st, runErr))"

definition edge_Close :: "server option \<Rightarrow> resources \<Rightarrow> edge_state \<Rightarrow> resources \<times> edge_state" where
  "edge_Close s os st =
     (case s of
        None \<Rightarrow> (os, st)
      | Some sv \<Rightarrow>
          (closeHTTPServer (sv_listener sv)
             (closeHTTPServer (sv_dataListen sv) (close_listeners (map fst (sv_tcpListen sv)) os)),
           closeAll st))"

definition edge_Addr :: "server option \<Rightarrow> string" where
  "edge_Addr s = (case s of None \<Rightarrow> [] | Some sv \<Rightarrow> fst (sv_listener sv))"

definition edge_DataAddr :: "server option \<Rightarrow> string" where
  "edge_DataAddr s = (case s of None \<Rightarrow> [] | Some sv \<Rightarrow> fst (sv_dataListen sv))"

definition edge_MetricsAddr :: "server option \<Rightarrow> string" where
  "edge_MetricsAddr s = (case s of None \<Rightarrow> [] | Some sv \<Rightarrow> sv_metricsAddr sv)"

definition TCPAddrs :: "server option \<Rightarrow> string list" where
  "TCPAddrs s = (case s of None \<Rightarrow> [] | Some sv \<Rightarrow> map fst (sv_tcpListen sv))"

section \<open>What a server holds\<close>

definition edge_held :: "server \<Rightarrow> resources" where
  "edge_held sv =
     {#NatsConn edge_nats_name, Listener (fst (sv_listener sv)), Listener (fst (sv_dataListen sv))#} +
     listeners (sv_tcpListen sv)"

lemma listen_routes_resources:
  "listen_routes env p rs acc (listeners acc + base) = (os, res) \<Longrightarrow>
   (case res of Inl _ \<Rightarrow> os = base | Inr tcp \<Rightarrow> os = listeners tcp + base)"
proof (induction rs arbitrary: acc)
  case (Cons r rs)
  show ?case
  proof (cases "en_listen env (r_Listen r) (listeners acc + base)")
    case (Inl e)
    then show ?thesis using Cons.prems by auto
  next
    case (Inr bound)
    then show ?thesis
      using Cons.prems Cons.IH [of "acc @ [(bound, if r_TLS r then Tls p else Plain)]"] by simp
  qed
qed auto

lemma listen_routes_transports:
  "listen_routes env p rs acc os = (os', Inr tcp) \<Longrightarrow>
   map snd tcp = map snd acc @ map (\<lambda>r. if r_TLS r then Tls p else Plain) rs"
  by (induction env p rs acc os rule: listen_routes.induct) (auto split: sum.splits)

section \<open>The contract of starting and stopping\<close>

definition edge_stop :: "server \<Rightarrow> resources \<Rightarrow> resources" where
  "edge_stop sv os = fst (edge_shutdown sv None os newTunnelRegistry)"

lemma edge_shutdown_held: "fst (edge_shutdown sv e (edge_held sv + rest) st) = rest"
proof -
  let ?l = "Listener (fst (sv_listener sv))" and ?d = "Listener (fst (sv_dataListen sv))"
  have "edge_held sv + rest = add_mset ?l (add_mset ?d (listeners (sv_tcpListen sv) + add_mset (NatsConn edge_nats_name) rest))"
    by (simp add: edge_held_def)
  then show ?thesis
    by (simp add: edge_shutdown_def Let_def closeHTTPServer_def nats_Drain_def)
qed

text \<open>The resources after the listeners have been opened, whatever happens then.\<close>

lemma edge_Start_resources:
  assumes "edge_Start env cfg = (os, res)"
  shows "case res of
      Inl _ \<Rightarrow> \<forall>r \<in># os. is_metrics r
    | Inr sv \<Rightarrow> \<exists>rest. os = edge_held sv + rest \<and> (\<forall>r \<in># rest. is_metrics r)"
proof (cases rule: Connect_cases [of env "EdgeURLOrDefault (c_NATS cfg)" edge_nats_name "n_CredsFile (c_NATS cfg)" "{#}"])
  case (failed e)
  then show ?thesis using assms by (auto simp: edge_Start_def)
next
  case connected
  let ?N = "NatsConn edge_nats_name"
  show ?thesis
  proof (cases rule: StartServer_cases [of env "ed_MetricsAddr (c_Edge cfg)" "{#?N#}"])
    case (failed e)
    then show ?thesis using assms connected by (auto simp: edge_Start_def nats_Close_def)
  next
    case (started bound ms)
    note start = assms [unfolded edge_Start_def connected, simplified, unfolded started(1), simplified]
    show ?thesis
    proof (cases "en_listen env (ed_HTTPAddr (c_Edge cfg)) (add_mset ?N ms)")
      case (Inl e)
      then show ?thesis using start started(2) by (auto simp: nats_Close_def)
    next
      case (Inr listener)
      note l = Inr
      let ?os2 = "add_mset (Listener listener) (add_mset ?N ms)"
      show ?thesis
      proof (cases "en_listen env (ed_DataAddr (c_Edge cfg)) ?os2")
        case (Inl e)
        then show ?thesis using start started(2) l by (auto simp: nats_Close_def Let_def)
      next
        case (Inr dl)
        note d = Inr
        let ?os3 = "add_mset (Listener dl) ?os2"
        show ?thesis
        proof (cases "edge_tls env (c_Edge cfg)")
          case (Inl e)
          then show ?thesis using start started(2) l d by (auto simp: nats_Close_def Let_def)
        next
          case (Inr p)
          obtain public data pub where p: "edge_tls env (c_Edge cfg) = Inr (public, data, pub)" using Inr by (cases p) auto
          obtain os4 r4 where lr: "listen_routes env pub (tcpRoutes (c_Routes cfg)) [] ?os3 = (os4, r4)" by fastforce
          have "case r4 of Inl _ \<Rightarrow> os4 = ?os3 | Inr tcp \<Rightarrow> os4 = listeners tcp + ?os3"
            using listen_routes_resources [of env pub "tcpRoutes (c_Routes cfg)" "[]" ?os3] lr by simp
          then show ?thesis
            using start started(2) l d p lr
            by (cases r4) (auto simp: nats_Close_def Let_def edge_held_def)
        qed
      qed
    qed
  qed
qed

interpretation edge_life: startup "edge_Start env" edge_stop edge_held is_metrics
proof
  show "is_metrics r" if "edge_Start env c = (os, Inl e)" "r \<in># os" for c os e r
    using edge_Start_resources [OF that(1)] that(2) by simp
  show "\<exists>rest. os = edge_held s + rest \<and> (\<forall>r \<in># rest. is_metrics r)" if "edge_Start env c = (os, Inr s)" for c os s
    using edge_Start_resources [OF that] by simp
  show "edge_stop s (edge_held s + rest) = rest" for s rest
    by (simp add: edge_stop_def edge_shutdown_held)
qed

section \<open>How the routes are served\<close>

lemma edge_Start_ok:
  assumes "edge_Start env cfg = (os, Inr sv)"
  obtains public data pub os3 os4 where "edge_tls env (c_Edge cfg) = Inr (public, data, pub)"
    "listen_routes env pub (tcpRoutes (c_Routes cfg)) [] os3 = (os4, Inr (sv_tcpListen sv))"
    "snd (sv_listener sv) = public" "snd (sv_dataListen sv) = data" "sv_httpRoutes sv = httpRoutes (c_Routes cfg)"
    "sv_wsRoutes sv = wsRoutes (c_Routes cfg)"
  using assms unfolding edge_Start_def Let_def
  by (auto split: prod.splits option.splits sum.splits)

lemma edge_tls_cases:
  assumes "edge_tls env e = Inr (public, data, pub)"
  shows "(ed_TLS e = None \<longrightarrow> public = Plain \<and> data = Plain \<and> pub = None) \<and>
    (\<forall>t. ed_TLS e = Some t \<longrightarrow> (\<exists>c d. ServerTLS (en_tls env) t = Inr c \<and> DataTLS (en_tls env) t = Inr d \<and>
       public = Tls (Some c) \<and> data = Tls (Some d) \<and> pub = Some c))"
  using assms by (auto simp: edge_tls_def split: option.splits sum.splits)

section \<open>Properties\<close>

text \<open>
  C22. The edge starts whole or not at all. If any step of \<^verbatim>\<open>Start\<close> fails, the NATS connection and
  every listener that was opened are closed again; if it succeeds, then whatever ends the
  server, its shutdown closes the NATS connection, every listener and every tunnel, and hands
  on the error that ended it. Only the metrics server, which lives until the context ends,
  outlasts either.
\<close>

theorem edge_starts_whole_or_not:
  "case edge_Start env cfg of
     (os, Inl _) \<Rightarrow> \<forall>r \<in># os. is_metrics r
   | (os, Inr sv) \<Rightarrow>
       (case edge_shutdown sv err os st of
          (os', st', err') \<Rightarrow> (\<forall>r \<in># os'. is_metrics r) \<and> es_registry st' = [] \<and> err' = err)"
proof -
  obtain os res where s: "edge_Start env cfg = (os, res)" by fastforce
  show ?thesis
  proof (cases res)
    case (Inl e)
    then show ?thesis using edge_life.start_failed [of env cfg os e] s by simp
  next
    case (Inr sv)
    then obtain rest where r: "os = edge_held sv + rest" "\<forall>r \<in># rest. is_metrics r"
      using edge_life.start_ok s by blast
    obtain os' st' err' where d: "edge_shutdown sv err os st = (os', st', err')" by (cases "edge_shutdown sv err os st")
    then have "os' = rest" using edge_shutdown_held [of sv err rest st] r(1) by simp
    moreover have "st' = closeAll st" "err' = err" using d by (auto simp: edge_shutdown_def Let_def)
    moreover have "es_registry (closeAll st) = []"
      using closeAll_fold(2) [of "st\<lparr>es_registry := []\<rparr>" "es_registry st"] by (simp add: closeAll_def)
    ultimately show ?thesis using s Inr d r(2) by simp
  qed
qed

text \<open>An environment in which everything succeeds but listening on one address.\<close>

definition sample_start_env :: "string \<Rightarrow> start_env" where
  "sample_start_env bad =
     \<lparr>en_connect = (\<lambda>_ _. None), en_listen = (\<lambda>addr _. if addr = bad then Inl ''in use'' else Inr addr),
      en_subscribe = (\<lambda>_ _. None), en_flush = (\<lambda>_. None), en_tls = sample_tls_env\<rparr>"

theorem edge_starts_whole_or_not_witness:
  "\<exists>os e. edge_Start (sample_start_env '':15432'') sample_config = (os, Inl e) \<and> (\<forall>r \<in># os. is_metrics r)"
proof -
  have "\<exists>e. snd (edge_Start (sample_start_env '':15432'') sample_config) = Inl e"
    by (simp add: edge_Start_def Connect_def StartServer_def sample_start_env_def sample_config_def edge_tls_def
        tcpRoutes_def sample_tcp_def sample_http_def ModeTCP_def ModeGRPC_def)
  then obtain os e where s: "edge_Start (sample_start_env '':15432'') sample_config = (os, Inl e)"
    by (metis prod.collapse)
  then show ?thesis
    using edge_starts_whole_or_not [where env = "sample_start_env '':15432''" and cfg = sample_config] by simp
qed

text \<open>
  C24. Routes are served with the transport they are configured for. When the edge has started
  with a validated configuration, there is one listener per TCP or gRPC route, in order; a
  route with \<^verbatim>\<open>tls\<close> is wrapped in the edge's public TLS configuration, never in a missing one, and
  the others are plain; the HTTP and data listeners are wrapped exactly if \<^verbatim>\<open>edge.tls\<close> is
  configured, each in its own configuration.
\<close>

theorem routes_served_as_configured:
  assumes "Config_Validate cfg = None" "edge_Start env cfg = (os, Inr sv)"
  shows "length (sv_tcpListen sv) = length (tcpRoutes (c_Routes cfg)) \<and>
    (\<forall>i < length (tcpRoutes (c_Routes cfg)).
       if r_TLS (tcpRoutes (c_Routes cfg) ! i)
       then \<exists>t c. ed_TLS (c_Edge cfg) = Some t \<and> ServerTLS (en_tls env) t = Inr c \<and>
              snd (sv_tcpListen sv ! i) = Tls (Some c)
       else snd (sv_tcpListen sv ! i) = Plain) \<and>
    (case ed_TLS (c_Edge cfg) of
       None \<Rightarrow> snd (sv_listener sv) = Plain \<and> snd (sv_dataListen sv) = Plain
     | Some t \<Rightarrow> \<exists>c d. ServerTLS (en_tls env) t = Inr c \<and> DataTLS (en_tls env) t = Inr d \<and>
         snd (sv_listener sv) = Tls (Some c) \<and> snd (sv_dataListen sv) = Tls (Some d))"
proof -
  obtain public data pub os3 os4 where t: "edge_tls env (c_Edge cfg) = Inr (public, data, pub)"
    and l: "listen_routes env pub (tcpRoutes (c_Routes cfg)) [] os3 = (os4, Inr (sv_tcpListen sv))"
    and sv: "snd (sv_listener sv) = public" "snd (sv_dataListen sv) = data"
    using edge_Start_ok [OF assms(2)] by metis
  have m: "map snd (sv_tcpListen sv) = map (\<lambda>r. if r_TLS r then Tls pub else Plain) (tcpRoutes (c_Routes cfg))"
    using listen_routes_transports [OF l] by simp
  then have len: "length (sv_tcpListen sv) = length (tcpRoutes (c_Routes cfg))" by (metis length_map)
  have nth: "snd (sv_tcpListen sv ! i) = (if r_TLS (tcpRoutes (c_Routes cfg) ! i) then Tls pub else Plain)"
    if "i < length (tcpRoutes (c_Routes cfg))" for i
    using arg_cong [OF m, of "\<lambda>xs. xs ! i"] that len by simp
  have ok: "\<forall>r \<in> set (c_Routes cfg). route_ok (ed_TLS (c_Edge cfg) \<noteq> None) r"
    using assms(1) unfolding Config_Validate_iff config_ok_def Let_def by blast
  have tls: "ed_TLS (c_Edge cfg) \<noteq> None" if "r \<in> set (tcpRoutes (c_Routes cfg))" "r_TLS r" for r
  proof -
    have "route_ok (ed_TLS (c_Edge cfg) \<noteq> None) r" using ok that(1) by (simp add: tcpRoutes_def)
    then show ?thesis using that(2) by (simp add: route_ok_def)
  qed
  have "if r_TLS (tcpRoutes (c_Routes cfg) ! i)
      then \<exists>t c. ed_TLS (c_Edge cfg) = Some t \<and> ServerTLS (en_tls env) t = Inr c \<and> snd (sv_tcpListen sv ! i) = Tls (Some c)
      else snd (sv_tcpListen sv ! i) = Plain" if i: "i < length (tcpRoutes (c_Routes cfg))" for i
  proof (cases "r_TLS (tcpRoutes (c_Routes cfg) ! i)")
    case True
    then obtain t' where "ed_TLS (c_Edge cfg) = Some t'" using tls [OF nth_mem [OF i]] by blast
    then show ?thesis using True nth [OF i] edge_tls_cases [OF t] by auto
  qed (use nth [OF i] in simp)
  moreover have "case ed_TLS (c_Edge cfg) of
       None \<Rightarrow> snd (sv_listener sv) = Plain \<and> snd (sv_dataListen sv) = Plain
     | Some t \<Rightarrow> \<exists>c d. ServerTLS (en_tls env) t = Inr c \<and> DataTLS (en_tls env) t = Inr d \<and>
         snd (sv_listener sv) = Tls (Some c) \<and> snd (sv_dataListen sv) = Tls (Some d)"
    using edge_tls_cases [OF t] sv by (cases "ed_TLS (c_Edge cfg)") auto
  ultimately show ?thesis using len by blast
qed

lemma sample_edge_starts: "\<exists>os sv. edge_Start (sample_start_env []) sample_config = (os, Inr sv)"
proof -
  have "\<exists>sv. snd (edge_Start (sample_start_env []) sample_config) = Inr sv"
    by (simp add: edge_Start_def Connect_def StartServer_def sample_start_env_def sample_config_def edge_tls_def
        tcpRoutes_def sample_tcp_def sample_http_def ModeTCP_def ModeGRPC_def)
  then show ?thesis by (metis prod.collapse)
qed

theorem routes_served_as_configured_witness:
  "\<exists>os sv. edge_Start (sample_start_env []) sample_config = (os, Inr sv) \<and> length (sv_tcpListen sv) = 1 \<and>
     snd (sv_tcpListen sv ! 0) = Plain"
proof -
  obtain os sv where s: "edge_Start (sample_start_env []) sample_config = (os, Inr sv)" using sample_edge_starts by blast
  moreover have "tcpRoutes (c_Routes sample_config) = [sample_tcp]" "\<not> r_TLS sample_tcp"
    by (simp_all add: tcpRoutes_def sample_config_def sample_tcp_def sample_http_def ModeTCP_def ModeGRPC_def)
  ultimately show ?thesis using routes_served_as_configured [OF sample_config_valid s] by simp
qed

end
