(* ===== verification/Connector_Tunnel.thy ===== *)
theory Connector_Tunnel
  imports Connector_Proxy
begin

text \<open>
  Package \<^verbatim>\<open>internal/connector\<close>, \<^verbatim>\<open>data.go\<close> and the open handler of \<^verbatim>\<open>connector.go\<close>: the connector's
  end of the data tunnel.

  \<^verbatim>\<open>tunnelClient.run\<close>, the goroutine that keeps the tunnel connected, is a state machine: one
  step is one passage from one blocking call of the loop to the next, and the event says what
  the call returned. Links are kept in a list and referred to by index, as on the edge; the
  field \<^verbatim>\<open>link\<close> of the client is an index or \<open>None\<close>. The handlers of open requests are functions of
  the routes, the link and the frame.

  The lemmas state the backoff, when the client counts as connected, and what an open request
  leads to on every branch.
\<close>

section \<open>Routes\<close>

record stream_route =
  st_cfg :: croute
  st_target :: "url option"

text \<open>\<^verbatim>\<open>streamRoutes\<close>: the map by name, or the name of the first route whose target does not parse.\<close>

fun stream_routes_loop ::
  "(string \<times> stream_route) list \<Rightarrow> croute list \<Rightarrow> (string, (string \<times> stream_route) list) result" where
  "stream_routes_loop out [] = Inr out"
| "stream_routes_loop out (r # rs) =
     (if r_Mode r = ModeHTTP then stream_routes_loop out rs
      else if r_Mode r = ModeWebSocket then
        (case Url_Parse (r_Target r) of
           None \<Rightarrow> Inl (r_Name r)
         | Some target \<Rightarrow>
             stream_routes_loop (AList.update (r_Name r) \<lparr>st_cfg = r, st_target = Some target\<rparr> out) rs)
      else stream_routes_loop (AList.update (r_Name r) \<lparr>st_cfg = r, st_target = None\<rparr> out) rs)"

definition streamRoutes :: "croute list \<Rightarrow> (string, (string \<times> stream_route) list) result" where
  "streamRoutes routes = stream_routes_loop [] routes"

section \<open>Keeping the tunnel connected\<close>

text \<open>Durations are nanoseconds.\<close>

definition tunnelDialTimeout :: int where "tunnelDialTimeout = 10 * 1000000000"
definition reconnectBackoffMin :: int where "reconnectBackoffMin = 250 * 1000000"
definition reconnectBackoffMax :: int where "reconnectBackoffMax = 5 * 1000000000"
definition reconnectStableAfter :: int where "reconnectStableAfter = 30 * 1000000000"

definition nextBackoff :: "int \<Rightarrow> int" where
  "nextBackoff current =
     (if current = 0 then reconnectBackoffMin
      else let nxt = wrap64 (current * 2) in if nxt > reconnectBackoffMax then reconnectBackoffMax else nxt)"

text \<open>Where \<^verbatim>\<open>run\<close> is: at the top of its loop, in the backoff wait, in the dial, in the tunnel, or returned.\<close>

datatype run_phase = RunTop | RunWaiting | RunDialing int | RunConnected nat int | RunReturned

record tunnel_client =
  tc_links :: "link list"
  tc_link :: "nat option"
  tc_backoff :: int
  tc_phase :: run_phase
  tc_firstAttempt :: bool

definition new_tunnel_client :: tunnel_client where
  "new_tunnel_client =
     \<lparr>tc_links = [], tc_link = None, tc_backoff = 0, tc_phase = RunTop, tc_firstAttempt = False\<rparr>"

definition setLink :: "nat option \<Rightarrow> tunnel_client \<Rightarrow> tunnel_client" where
  "setLink l c = c\<lparr>tc_link := l\<rparr>"

definition currentLink :: "tunnel_client \<Rightarrow> nat option" where
  "currentLink c = tc_link c"

definition connected :: "tunnel_client \<Rightarrow> bool" where
  "connected c \<longleftrightarrow> currentLink c \<noteq> None"

text \<open>\<^verbatim>\<open>attemptDone\<close> closes the channel once; \<open>tc_firstAttempt\<close> says that it is closed.\<close>

definition attemptDone :: "tunnel_client \<Rightarrow> tunnel_client" where
  "attemptDone c = c\<lparr>tc_firstAttempt := True\<rparr>"

text \<open>
  The events: the time at the top of the loop; the context ends; the backoff timer fires at a
  time; the dial fails, with or without the context ended; the dial succeeds; \<^verbatim>\<open>link.Run\<close> returns
  at a time, having closed its link.
\<close>

datatype run_event = EvTop int | EvCtx | EvTimer int | EvDialFailed bool | EvDialed | EvRunDone int

definition close_link :: "nat \<Rightarrow> tunnel_client \<Rightarrow> tunnel_client" where
  "close_link a c = c\<lparr>tc_links := (tc_links c)[a := CloseLink (tc_links c ! a)]\<rparr>"

definition tunnel_run_step :: "tunnel_client \<Rightarrow> run_event \<Rightarrow> tunnel_client option" where
  "tunnel_run_step c ev =
     (case (tc_phase c, ev) of
        (RunTop, EvTop now) \<Rightarrow>
          Some (c\<lparr>tc_phase := if tc_backoff c > 0 then RunWaiting else RunDialing now\<rparr>)
      | (RunWaiting, EvCtx) \<Rightarrow> Some (c\<lparr>tc_phase := RunReturned\<rparr>)
      | (RunWaiting, EvTimer now) \<Rightarrow> Some (c\<lparr>tc_phase := RunDialing now\<rparr>)
      | (RunDialing connectedAt, EvDialFailed ctxErr) \<Rightarrow>
          (let c1 = attemptDone c in
           if ctxErr then Some (c1\<lparr>tc_phase := RunReturned\<rparr>)
           else Some (c1\<lparr>tc_backoff := nextBackoff (tc_backoff c1), tc_phase := RunTop\<rparr>))
      | (RunDialing connectedAt, EvDialed) \<Rightarrow>
          (let a = length (tc_links c); c1 = c\<lparr>tc_links := tc_links c @ [NewLink]\<rparr> in
           Some ((attemptDone (setLink (Some a) c1))\<lparr>tc_phase := RunConnected a connectedAt\<rparr>))
      | (RunConnected a connectedAt, EvCtx) \<Rightarrow>
          Some ((setLink None (close_link a c))\<lparr>tc_phase := RunReturned\<rparr>)
      | (RunConnected a connectedAt, EvRunDone now) \<Rightarrow>
          (let c1 = setLink None (close_link a c) in
           Some (c1\<lparr>tc_backoff :=
                     if now - connectedAt > reconnectStableAfter then 0 else nextBackoff (tc_backoff c1),
                   tc_phase := RunTop\<rparr>))
      | _ \<Rightarrow> None)"

section \<open>Open requests\<close>

text \<open>\<^verbatim>\<open>handleOpenMessage\<close>: the reply, empty when it does not encode.\<close>

definition open_reply :: "open_response marshal \<Rightarrow> open_response \<Rightarrow> bytes" where
  "open_reply m r = (case EncodeOpenResponse m r of Inr payload \<Rightarrow> payload | Inl _ \<Rightarrow> [])"

definition open_rejected :: "string \<Rightarrow> string \<Rightarrow> open_response" where
  "open_rejected rid msg =
     \<lparr>os_Version = Version, os_RequestID = rid, os_Accepted = False, os_ConnectorID = [], os_Error = msg\<rparr>"

definition open_accepted :: "string \<Rightarrow> string \<Rightarrow> open_response" where
  "open_accepted rid connectorID =
     \<lparr>os_Version = Version, os_RequestID = rid, os_Accepted = True, os_ConnectorID = connectorID, os_Error = []\<rparr>"

definition handleOpenMessage ::
  "open_response marshal \<Rightarrow> open_request unmarshal \<Rightarrow> string \<Rightarrow> (string \<times> stream_route) list \<Rightarrow>
   tunnel_client option \<Rightarrow> bytes \<Rightarrow> bytes" where
  "handleOpenMessage m u connectorID routes tc data =
     (case DecodeOpenRequest u data of
        Inl _ \<Rightarrow> open_reply m (open_rejected ''unknown'' ''invalid open request'')
      | Inr req \<Rightarrow>
          (case map_of routes (oq_Route req) of
             None \<Rightarrow> open_reply m (open_rejected (oq_RequestID req) ''route is not configured on connector'')
           | Some r \<Rightarrow>
               if r_Mode (st_cfg r) \<noteq> oq_Kind req then
                 open_reply m (open_rejected (oq_RequestID req) ''route is not configured on connector'')
               else if (case tc of None \<Rightarrow> True | Some c \<Rightarrow> \<not> connected c) then
                 open_reply m (open_rejected (oq_RequestID req) ErrTunnelNotConnected)
               else open_reply m (open_accepted (oq_RequestID req) connectorID)))"

text \<open>\<^verbatim>\<open>handleOpen\<close>: the link afterwards, and the route and session of the relay that is started.\<close>

definition error_frame :: "string \<Rightarrow> string \<Rightarrow> frame" where
  "error_frame sid msg = (NewFrame FrameError sid)\<lparr>f_Error := msg\<rparr>"

definition handleOpen ::
  "frame marshal \<Rightarrow> (string \<times> stream_route) list \<Rightarrow> link \<Rightarrow> frame \<Rightarrow> link \<times> (stream_route \<times> nat) option" where
  "handleOpen m routes l f =
     (let refuse = (\<lambda>l msg. (fst (WriteFrame m l (error_frame (f_SessionID f) msg)), None)) in
      case map_of routes (f_Route f) of
        None \<Rightarrow> refuse l ''route is not configured''
      | Some r \<Rightarrow>
          if r_Mode (st_cfg r) \<noteq> f_Kind f then refuse l ''route is not configured''
          else (case Accept l (f_SessionID f) of
              (l', Inl _) \<Rightarrow> refuse l' ''session already exists''
            | (l', Inr a) \<Rightarrow> (l', Some (r, a))))"

text \<open>
  The goroutine \<^verbatim>\<open>handleOpen\<close> starts, up to the relay: whether the backend could be dialled is an
  input. The dialled address or URL and the relay are the result; \<open>None\<close> when there is none.
\<close>

datatype backend_relay = TcpRelay string "conn_call relay" | WsRelay url "ws_call relay" | NoRelay

definition relayTCPBackend ::
  "frame marshal \<Rightarrow> bool \<Rightarrow> int \<Rightarrow> stream_route \<Rightarrow> link \<Rightarrow> nat \<Rightarrow> link \<times> backend_relay" where
  "relayTCPBackend m dialed now r l a =
     (if \<not> dialed then (CloseWithError m l a ''backend dial failed'', NoRelay)
      else (l, TcpRelay (r_Target (st_cfg r)) (new_relay a (r_IdleTimeout (st_cfg r)) now)))"

definition relayWebSocketBackend ::
  "frame marshal \<Rightarrow> (url \<Rightarrow> bool) \<Rightarrow> int \<Rightarrow> stream_route \<Rightarrow> link \<Rightarrow> nat \<Rightarrow> string \<Rightarrow> link \<times> backend_relay" where
  "relayWebSocketBackend m dialed now r l a path0 =
     (let path = (if path0 = [] then ''/'' else path0) in
      case Option.bind (st_target r) (\<lambda>base. targetURL base path) of
        None \<Rightarrow> (CloseWithError m l a ''invalid websocket path'', NoRelay)
      | Some target \<Rightarrow>
          if \<not> dialed target then (CloseWithError m l a ''backend websocket dial failed'', NoRelay)
          else (l, WsRelay target (new_relay a (r_IdleTimeout (st_cfg r)) now)))"

definition start_relay ::
  "frame marshal \<Rightarrow> bool \<Rightarrow> (url \<Rightarrow> bool) \<Rightarrow> int \<Rightarrow> stream_route \<Rightarrow> link \<Rightarrow> nat \<Rightarrow> string \<Rightarrow> link \<times> backend_relay" where
  "start_relay m tcpDialed wsDialed now r l a path =
     (if r_Mode (st_cfg r) = ModeTCP \<or> r_Mode (st_cfg r) = ModeGRPC then relayTCPBackend m tcpDialed now r l a
      else if r_Mode (st_cfg r) = ModeWebSocket then relayWebSocketBackend m wsDialed now r l a path
      else (l, NoRelay))"

text \<open>The callback on the cancel subjects.\<close>

definition cancel_callback :: "string \<Rightarrow> http_proxy \<Rightarrow> http_proxy" where
  "cancel_callback subject p =
     (case RequestIDFromCancelSubject subject of None \<Rightarrow> p | Some rid \<Rightarrow> px_cancel rid p)"

section \<open>Lemmas\<close>

lemma stream_routes_loop_lookup:
  "stream_routes_loop out rs = Inr m \<Longrightarrow>
   map_of m k = (case map_of (rev (map (\<lambda>r. (r_Name r, r)) (filter (\<lambda>r. r_Mode r \<noteq> ModeHTTP) rs))) k of
      None \<Rightarrow> map_of out k
    | Some r \<Rightarrow> Some \<lparr>st_cfg = r, st_target = (if r_Mode r = ModeWebSocket then Url_Parse (r_Target r) else None)\<rparr>)"
proof (induction out rs rule: stream_routes_loop.induct)
  case (2 out r rs)
  then show ?case
    by (auto simp: update_conv' map_add_def split: if_splits option.splits)
qed simp

text \<open>The invariant of the client: connected exactly while \<^verbatim>\<open>run\<close> is in the tunnel.\<close>

definition tunnel_client_ok :: "tunnel_client \<Rightarrow> bool" where
  "tunnel_client_ok c \<longleftrightarrow>
     (tc_backoff c = 0 \<or> reconnectBackoffMin \<le> tc_backoff c \<and> tc_backoff c \<le> reconnectBackoffMax) \<and>
     (tc_backoff c \<noteq> 0 \<longrightarrow> tc_firstAttempt c) \<and>
     (case tc_phase c of
        RunConnected a _ \<Rightarrow> tc_link c = Some a \<and> a < length (tc_links c) \<and> tc_firstAttempt c
      | RunWaiting \<Rightarrow> tc_link c = None \<and> tc_firstAttempt c
      | RunReturned \<Rightarrow> tc_link c = None \<and> tc_firstAttempt c
      | _ \<Rightarrow> tc_link c = None)"

inductive tunnel_reach :: "tunnel_client \<Rightarrow> bool" where
  reach_new: "tunnel_reach new_tunnel_client"
| reach_step: "tunnel_reach c \<Longrightarrow> tunnel_run_step c ev = Some c' \<Longrightarrow> tunnel_reach c'"
| reach_traffic: "tunnel_reach c \<Longrightarrow> a < length (tc_links c) \<Longrightarrow> tunnel_reach (c\<lparr>tc_links := (tc_links c)[a := l]\<rparr>)"

lemmas backoff_defs = reconnectBackoffMin_def reconnectBackoffMax_def reconnectStableAfter_def

lemma nextBackoff_range:
  assumes "b = 0 \<or> reconnectBackoffMin \<le> b \<and> b \<le> reconnectBackoffMax"
  shows "reconnectBackoffMin \<le> nextBackoff b \<and> nextBackoff b \<le> reconnectBackoffMax"
proof (cases "b = 0")
  case False
  then have "wrap64 (b * 2) = b * 2"
    using assms by (intro wrap64_id) (auto simp: is_int64_def backoff_defs max_int64_def min_int64_def)
  then show ?thesis using assms False by (auto simp: nextBackoff_def Let_def backoff_defs)
qed (simp add: nextBackoff_def backoff_defs)

lemma tunnel_reach_ok: "tunnel_reach c \<Longrightarrow> tunnel_client_ok c"
proof (induction rule: tunnel_reach.induct)
  case reach_new
  then show ?case by (simp add: tunnel_client_ok_def new_tunnel_client_def)
next
  case (reach_step c ev c')
  have b: "nextBackoff (tc_backoff c) \<noteq> 0"
    "reconnectBackoffMin \<le> nextBackoff (tc_backoff c)" "nextBackoff (tc_backoff c) \<le> reconnectBackoffMax"
    using nextBackoff_range [of "tc_backoff c"] reach_step(3) by (auto simp: tunnel_client_ok_def backoff_defs)
  show ?case
    using reach_step(2,3) b
    by (cases "tc_phase c"; cases ev)
      (auto simp: tunnel_run_step_def tunnel_client_ok_def attemptDone_def setLink_def close_link_def Let_def
        split: if_splits)
next
  case (reach_traffic c a l)
  then show ?case by (auto simp: tunnel_client_ok_def split: run_phase.splits)
qed

lemma nextBackoff_double:
  assumes "reconnectBackoffMin \<le> b" "b \<le> reconnectBackoffMax"
  shows "nextBackoff b = min reconnectBackoffMax (2 * b)"
proof -
  have "wrap64 (b * 2) = b * 2"
    using assms by (intro wrap64_id) (auto simp: is_int64_def backoff_defs max_int64_def min_int64_def)
  then show ?thesis using assms by (auto simp: nextBackoff_def Let_def backoff_defs)
qed

text \<open>\<^verbatim>\<open>handleOpen\<close> concerns itself with the session of its frame only.\<close>

lemma handleOpen_wf: "link_wf l \<Longrightarrow> link_wf (fst (handleOpen m routes l f))"
  using link_wf_add [of l "f_SessionID f"]
  by (auto simp: handleOpen_def Accept_def Let_def split: option.splits prod.splits sum.splits)

lemma handleOpen_untouched:
  assumes "codec_inverse m u" "link_wf l" "f_SessionID f \<noteq> sid"
  shows "untouched u sid l (fst (handleOpen m routes l f))"
proof -
  have w: "untouched u sid l' (fst (WriteFrame m l' (error_frame (f_SessionID f) msg)))" for l' msg
    by (rule untouched_Write [OF assms(1)]) (use assms(3) in \<open>simp add: error_frame_def\<close>)
  have add: "untouched u sid l (fst (addSession l (f_SessionID f)))" using untouched_add assms(2,3) by blast
  have addw: "untouched u sid l (fst (WriteFrame m l' (error_frame (f_SessionID f) msg)))"
    if "addSession l (f_SessionID f) = (l', r)" for l' r msg
    using untouched_trans [OF add w] that by simp
  show ?thesis
    using w [of l] add addw
    by (auto simp: handleOpen_def Accept_def Let_def split: option.splits prod.splits sum.splits)
qed

section \<open>Properties\<close>

text \<open>
  C16. The tunnel client is sound in every reachable state, whatever the network does and
  whatever traffic its links carry: it counts as connected exactly while \<^verbatim>\<open>run\<close> is in a tunnel,
  whose link is the current one, so open requests are accepted only then; the backoff is zero
  or between its minimum and maximum; and once the first dial has ended either way, the caller
  of \<^verbatim>\<open>startTunnelClient\<close> has been released.
\<close>

theorem tunnel_client_sound:
  assumes "tunnel_reach c"
  shows "(connected c \<longleftrightarrow> (\<exists>a t. tc_phase c = RunConnected a t \<and> currentLink c = Some a \<and> a < length (tc_links c))) \<and>
    (tc_backoff c = 0 \<or> tc_backoff c \<in> {reconnectBackoffMin..reconnectBackoffMax}) \<and>
    (tc_phase c = RunReturned \<longrightarrow> \<not> connected c) \<and>
    (tc_phase c \<in> {RunWaiting, RunReturned} \<or> connected c \<longrightarrow> tc_firstAttempt c)"
  using tunnel_reach_ok [OF assms]
  by (auto simp: tunnel_client_ok_def connected_def currentLink_def split: run_phase.splits)

theorem tunnel_client_sound_witness:
  "\<exists>c. tunnel_reach c \<and> tc_phase c = RunConnected 0 7 \<and> connected c"
proof -
  let ?c1 = "new_tunnel_client\<lparr>tc_phase := RunDialing 7\<rparr>"
  let ?c2 = "\<lparr>tc_links = [NewLink], tc_link = Some 0, tc_backoff = 0, tc_phase = RunConnected 0 7, tc_firstAttempt = True\<rparr>"
  have "tunnel_run_step new_tunnel_client (EvTop 7) = Some ?c1"
    by (simp add: tunnel_run_step_def new_tunnel_client_def)
  then have "tunnel_reach ?c1" by (rule reach_step [OF reach_new])
  moreover have "tunnel_run_step ?c1 EvDialed = Some ?c2"
    by (simp add: tunnel_run_step_def new_tunnel_client_def attemptDone_def setLink_def)
  ultimately have r: "tunnel_reach ?c2" by (rule reach_step)
  have "connected ?c2" using tunnel_client_sound [OF r] by (simp add: currentLink_def)
  then show ?thesis using r by (intro exI [of _ ?c2]) simp
qed

text \<open>
  The redial backoff is exponential with a cap: after \<open>n + 1\<close> dials in a row that failed or
  gave a short-lived tunnel the wait is 250 milliseconds times \<open>2\<close> to the \<open>n\<close>, but at most five
  seconds; a tunnel that was up for more than thirty seconds resets it.
\<close>

theorem backoff_exponential:
  "(nextBackoff ^^ Suc n) 0 = min reconnectBackoffMax (reconnectBackoffMin * 2 ^ n)"
proof (induction n)
  case 0
  then show ?case by (simp add: nextBackoff_def backoff_defs)
next
  case (Suc n)
  let ?b = "min reconnectBackoffMax (reconnectBackoffMin * 2 ^ n)"
  have "reconnectBackoffMin * 1 \<le> reconnectBackoffMin * 2 ^ n"
    by (rule mult_left_mono) (simp_all add: backoff_defs)
  then have "nextBackoff ?b = min reconnectBackoffMax (2 * ?b)"
    by (intro nextBackoff_double) (auto simp: backoff_defs)
  then show ?case using Suc by (auto simp: min_def backoff_defs)
qed

text \<open>
  What the reply to an open request has to be: the request's id, accepted exactly if the route
  is configured with the request's mode and the tunnel is up, and the retryable error exactly
  if only the tunnel is missing.
\<close>

definition open_decision ::
  "string \<Rightarrow> (string \<times> stream_route) list \<Rightarrow> tunnel_client option \<Rightarrow> (tunnel_error, open_request) result \<Rightarrow>
   open_response \<Rightarrow> bool" where
  "open_decision connectorID routes tc dec resp =
     (case dec of
        Inl _ \<Rightarrow> resp = open_rejected ''unknown'' ''invalid open request''
      | Inr req \<Rightarrow>
          (let configured = (case map_of routes (oq_Route req) of None \<Rightarrow> False | Some r \<Rightarrow> r_Mode (st_cfg r) = oq_Kind req);
               up = (case tc of None \<Rightarrow> False | Some c \<Rightarrow> connected c) in
           os_RequestID resp = oq_RequestID req \<and>
           (os_Accepted resp \<longleftrightarrow> configured \<and> up) \<and>
           (os_Accepted resp \<longrightarrow> os_ConnectorID resp = connectorID) \<and>
           (os_Error resp = ErrTunnelNotConnected \<longleftrightarrow> configured \<and> \<not> up)))"

lemma open_rejected_ok: "subject_token rid \<Longrightarrow> one_line msg \<Longrightarrow> open_response_ok (open_rejected rid msg)"
  by (simp add: open_response_ok_def open_rejected_def Version_def)

lemma open_accepted_ok: "subject_token rid \<Longrightarrow> subject_token cid \<Longrightarrow> open_response_ok (open_accepted rid cid)"
  by (simp add: open_response_ok_def open_accepted_def Version_def)

lemma open_rejections_one_line:
  "one_line ''invalid open request''" "one_line ''route is not configured on connector''"
  "one_line ErrTunnelNotConnected"
  by (simp_all add: one_line_def ErrTunnelNotConnected_def)

text \<open>The reply is the encoding of a valid response that is the right decision.\<close>

lemma handleOpenMessage_cases:
  assumes "subject_token connectorID"
  obtains resp where "handleOpenMessage m u connectorID routes tc data = open_reply m resp"
    "open_response_ok resp" "open_decision connectorID routes tc (DecodeOpenRequest u data) resp"
proof (cases "DecodeOpenRequest u data")
  case (Inl e)
  have "subject_token ''unknown''" by code_simp
  then show ?thesis
    using Inl by (intro that [of "open_rejected ''unknown'' ''invalid open request''"])
      (simp_all add: handleOpenMessage_def open_decision_def open_rejected_ok open_rejections_one_line)
next
  case (Inr req)
  then have rid: "subject_token (oq_RequestID req)"
    using open_request_codec.decode_ok_iff OpenRequest_Validate_iff by (auto simp: open_request_ok_def)
  let ?unconf = "open_rejected (oq_RequestID req) ''route is not configured on connector''"
  let ?down = "open_rejected (oq_RequestID req) ErrTunnelNotConnected"
  let ?yes = "open_accepted (oq_RequestID req) connectorID"
  have ok: "open_response_ok ?unconf" "open_response_ok ?down" "open_response_ok ?yes"
    using rid assms by (simp_all add: open_rejected_ok open_accepted_ok open_rejections_one_line)
  have ne: "''route is not configured on connector'' \<noteq> ErrTunnelNotConnected" "[] \<noteq> ErrTunnelNotConnected"
    by (simp_all add: ErrTunnelNotConnected_def)
  let ?conf = "case map_of routes (oq_Route req) of None \<Rightarrow> False | Some r \<Rightarrow> r_Mode (st_cfg r) = oq_Kind req"
  let ?up = "case tc of None \<Rightarrow> False | Some c \<Rightarrow> connected c"
  consider "\<not> ?conf" | "?conf" "\<not> ?up" | "?conf" "?up" by blast
  then show ?thesis
  proof cases
    case 1
    then have "handleOpenMessage m u connectorID routes tc data = open_reply m ?unconf"
      using Inr by (simp add: handleOpenMessage_def split: option.splits)
    moreover have "open_decision connectorID routes tc (DecodeOpenRequest u data) ?unconf"
      using 1 Inr ne by (simp add: open_decision_def open_rejected_def Let_def)
    ultimately show ?thesis using ok that by blast
  next
    case 2
    then have "handleOpenMessage m u connectorID routes tc data = open_reply m ?down"
      using Inr by (simp add: handleOpenMessage_def split: option.splits)
    moreover have "open_decision connectorID routes tc (DecodeOpenRequest u data) ?down"
      using 2 Inr ne by (simp add: open_decision_def open_rejected_def Let_def)
    ultimately show ?thesis using ok that by blast
  next
    case 3
    then have "handleOpenMessage m u connectorID routes tc data = open_reply m ?yes"
      using Inr by (simp add: handleOpenMessage_def split: option.splits)
    moreover have "open_decision connectorID routes tc (DecodeOpenRequest u data) ?yes"
      using 3 Inr ne by (simp add: open_decision_def open_accepted_def Let_def)
    ultimately show ?thesis using ok that by blast
  qed
qed

lemma open_reply_decodes:
  assumes "codec_inverse m u" "open_reply m resp \<noteq> []"
  shows "DecodeOpenResponse u (open_reply m resp) = Inr resp"
proof (cases "EncodeOpenResponse m resp")
  case (Inr b)
  then show ?thesis using open_response_codec.round_trip [OF assms(1)] by (simp add: open_reply_def)
qed (use assms(2) in \<open>simp add: open_reply_def\<close>)

text \<open>
  C15. An open request is decided by the connector's configuration and tunnel. The response the
  connector makes is always valid, so only the marshaller could lose it; the edge decodes the
  reply to it; it carries the request's id (or \<^verbatim>\<open>unknown\<close>); it accepts, naming this connector,
  exactly if the request is valid, its route is configured with its mode and the tunnel is
  connected; and it reports the retryable error exactly when only the tunnel is missing.
\<close>

theorem handleOpenMessage_decides:
  assumes "codec_inverse m u'" "subject_token connectorID"
  shows "\<exists>resp. handleOpenMessage m u connectorID routes tc data = open_reply m resp \<and> open_response_ok resp \<and>
    open_decision connectorID routes tc (DecodeOpenRequest u data) resp \<and>
    (open_reply m resp \<noteq> [] \<longrightarrow> DecodeOpenResponse u' (open_reply m resp) = Inr resp)"
  using handleOpenMessage_cases [OF assms(2), of m u routes tc data] open_reply_decodes [OF assms(1)] by metis

text \<open>A connector with one TCP route and a tunnel that is up, and a request for that route.\<close>

definition sample_stream_routes :: "(string \<times> stream_route) list" where
  "sample_stream_routes = [(r_Name sample_tcp, \<lparr>st_cfg = sample_tcp, st_target = None\<rparr>)]"

definition sample_tunnel_client :: tunnel_client where
  "sample_tunnel_client =
     \<lparr>tc_links = [NewLink], tc_link = Some 0, tc_backoff = 0, tc_phase = RunConnected 0 7, tc_firstAttempt = True\<rparr>"

definition sample_accept_marshal :: "open_response marshal" where
  "sample_accept_marshal r = (if r = open_accepted ''s'' ''c1'' then Inr ''reply'' else Inl ''unknown'')"

definition sample_accept_unmarshal :: "open_response unmarshal" where
  "sample_accept_unmarshal b = Inr (open_accepted ''s'' ''c1'')"

definition sample_open_request :: open_request where
  "sample_open_request =
     \<lparr>oq_Version = 1, oq_RequestID = ''s'', oq_SessionID = ''s'', oq_Route = ''db'', oq_Kind = ''tcp'',
      oq_Path = ''/'', oq_DeadlineUnixMS = 1000\<rparr>"

definition sample_request_unmarshal :: "open_request unmarshal" where
  "sample_request_unmarshal b = Inr sample_open_request"

lemma sample_accept_inverse: "codec_inverse sample_accept_marshal sample_accept_unmarshal"
  by (simp add: codec_inverse_def sample_accept_marshal_def sample_accept_unmarshal_def)

theorem handleOpenMessage_decides_witness:
  "\<exists>resp. DecodeOpenResponse sample_accept_unmarshal
      (handleOpenMessage sample_accept_marshal sample_request_unmarshal ''c1'' sample_stream_routes
        (Some sample_tunnel_client) ''request'') = Inr resp \<and> os_Accepted resp \<and> os_ConnectorID resp = ''c1''"
proof -
  let ?reply = "handleOpenMessage sample_accept_marshal sample_request_unmarshal ''c1'' sample_stream_routes
        (Some sample_tunnel_client) ''request''"
  have dec: "DecodeOpenRequest sample_request_unmarshal ''request'' = Inr sample_open_request"
    and reply: "?reply = ''reply''" and tok: "subject_token ''c1''" by code_simp+
  obtain resp where resp: "?reply = open_reply sample_accept_marshal resp"
    "open_decision ''c1'' sample_stream_routes (Some sample_tunnel_client)
       (DecodeOpenRequest sample_request_unmarshal ''request'') resp"
    "open_reply sample_accept_marshal resp \<noteq> [] \<longrightarrow>
     DecodeOpenResponse sample_accept_unmarshal (open_reply sample_accept_marshal resp) = Inr resp"
    using handleOpenMessage_decides [OF sample_accept_inverse tok, of sample_request_unmarshal sample_stream_routes
        "Some sample_tunnel_client" "''request''"] by blast
  then have "os_Accepted resp \<and> os_ConnectorID resp = ''c1''"
    unfolding dec
    by (simp add: open_decision_def sample_stream_routes_def sample_tcp_def sample_open_request_def connected_def currentLink_def
        sample_tunnel_client_def)
  then show ?thesis using resp reply by auto
qed

end
