(* ===== verification/Tunnel_Dial.thy ===== *)
theory Tunnel_Dial
  imports Connector_Tunnel Edge_Data "HOL-Library.List_Lexorder"
begin

text \<open>
  The connector's dial of the edge: the URL that \<^verbatim>\<open>startTunnelClient\<close> makes from the configured
  \<^verbatim>\<open>edge_data_url\<close> and the request header of \<^verbatim>\<open>dial\<close> (\<^verbatim>\<open>internal/connector/data.go\<close>), with the parts of
  \<^verbatim>\<open>net/url\<close> they use: \<^verbatim>\<open>Values.Set\<close> and \<^verbatim>\<open>Values.Encode\<close>.

  The lemmas show that the encoded query reads back, and that the edge's data handler admits
  the dial under the connector's id.
\<close>

section \<open>Encoding a query\<close>

definition upperhex :: "nat \<Rightarrow> char" where
  "upperhex n = ''0123456789ABCDEF'' ! n"

fun QueryEscape :: "string \<Rightarrow> string" where
  "QueryEscape [] = []"
| "QueryEscape (c # cs) =
     (if c = CHR '' '' then CHR ''+'' # QueryEscape cs
      else if shouldEscape encodeQueryComponent c then
        CHR ''%'' # upperhex (of_char c div 16) # upperhex (of_char c mod 16) # QueryEscape cs
      else c # QueryEscape cs)"

text \<open>
  The values are the list of pairs; \<^verbatim>\<open>Encode\<close> writes the keys in order, the values of each key in
  the order they have.
\<close>

definition Values_Set :: "string \<Rightarrow> string \<Rightarrow> (string \<times> string) list \<Rightarrow> (string \<times> string) list" where
  "Values_Set key val vs = filter (\<lambda>p. fst p \<noteq> key) vs @ [(key, val)]"

definition query_text :: "string \<times> string \<Rightarrow> string" where
  "query_text p = QueryEscape (fst p) @ CHR ''='' # QueryEscape (snd p)"

fun join_amp :: "string list \<Rightarrow> string" where
  "join_amp [] = []"
| "join_amp [s] = s"
| "join_amp (s # t # ss) = s @ CHR ''&'' # join_amp (t # ss)"

definition Values_Encode :: "(string \<times> string) list \<Rightarrow> string" where
  "Values_Encode vs = join_amp (map query_text (sort_key fst vs))"

section \<open>Dialling the edge\<close>

text \<open>\<^verbatim>\<open>startTunnelClient\<close> up to the start of \<^verbatim>\<open>run\<close>: the URL to dial.\<close>

definition tunnel_dial_url :: "connector_config \<Rightarrow> string \<Rightarrow> url option" where
  "tunnel_dial_url cfg connectorID =
     map_option (\<lambda>u. u\<lparr>u_RawQuery := Values_Encode (Values_Set ''connector_id'' connectorID (Query (u_RawQuery u)))\<rparr>)
       (Url_Parse (cn_EdgeDataURL cfg))"

definition dial_header :: "string \<Rightarrow> header" where
  "dial_header token =
     (if token \<noteq> [] then [(CanonicalHeaderKey ''Authorization'', [''Bearer '' @ token])] else [])"

text \<open>The request the dialer sends, as the edge's server sees it.\<close>

definition dial_request :: "url \<Rightarrow> header \<Rightarrow> http_request" where
  "dial_request u h =
     \<lparr>hq_Method = ''GET'', hq_Host = u_Host u, hq_Path = u_Path u, hq_RawQuery = u_RawQuery u, hq_Header = h,
      hq_TLS = (u_Scheme u = ''wss''), hq_Body = \<lparr>hb_data = [], hb_fails = False\<rparr>\<rparr>"

section \<open>Reading back an encoded query\<close>

lemma upperhex_inverse: "n < 16 \<Longrightarrow> is_hex (upperhex n) \<and> unhex (upperhex n) = n"
proof -
  have "\<forall>n \<in> set [0..<16]. is_hex (upperhex n) \<and> unhex (upperhex n) = n" by code_simp
  then show "n < 16 \<Longrightarrow> is_hex (upperhex n) \<and> unhex (upperhex n) = n" by simp
qed

lemma char_nibbles: "(of_char c :: nat) div 16 < 16" "(of_char c :: nat) mod 16 < 16"
proof -
  have "(of_char c :: nat) < 16 * 16" using nat_of_char_less_256 [of c] by simp
  then show "(of_char c :: nat) div 16 < 16" by (rule less_mult_imp_div_less)
qed simp

lemma plain_query_char:
  "\<not> shouldEscape encodeQueryComponent c \<Longrightarrow> c \<noteq> CHR ''%'' \<and> c \<noteq> CHR ''+'' \<and> c \<noteq> CHR ''&'' \<and> c \<noteq> CHR ''='' \<and> c \<noteq> CHR '';''"
  by (auto simp: shouldEscape_def is_alnum_def is_lower_alpha_def is_upper_alpha_def is_digit_char_def)

lemma unescape_QueryEscape: "unescape encodeQueryComponent (QueryEscape s) = Some s"
proof (induction s)
  case (Cons c s)
  have h: "is_hex (upperhex (of_char c div 16)) \<and> unhex (upperhex (of_char c div 16)) = of_char c div 16"
    "is_hex (upperhex (of_char c mod 16)) \<and> unhex (upperhex (of_char c mod 16)) = of_char c mod 16"
    by (rule upperhex_inverse, rule char_nibbles)+
  have "of_char c div 16 * 16 + of_char c mod 16 = (of_char c :: nat)" by simp
  then have "char_of (of_char c div 16 * 16 + of_char c mod 16 :: nat) = c" by (metis char_of_char)
  then show ?case
    using Cons h plain_query_char [of c] by simp
qed simp

lemma upperhex_safe: "n < 16 \<Longrightarrow> upperhex n \<noteq> CHR ''&'' \<and> upperhex n \<noteq> CHR ''='' \<and> upperhex n \<noteq> CHR '';''"
proof -
  have "\<forall>n \<in> set [0..<16]. upperhex n \<noteq> CHR ''&'' \<and> upperhex n \<noteq> CHR ''='' \<and> upperhex n \<noteq> CHR '';''" by code_simp
  then show "n < 16 \<Longrightarrow> upperhex n \<noteq> CHR ''&'' \<and> upperhex n \<noteq> CHR ''='' \<and> upperhex n \<noteq> CHR '';''" by simp
qed

lemma QueryEscape_safe: "CHR ''&'' \<notin> set (QueryEscape s) \<and> CHR ''='' \<notin> set (QueryEscape s) \<and> CHR '';'' \<notin> set (QueryEscape s)"
proof (induction s)
  case (Cons c s)
  show ?case
    using Cons plain_query_char [of c] upperhex_safe [OF char_nibbles(1) [of c]] upperhex_safe [OF char_nibbles(2) [of c]]
    by (auto dest: sym)
qed simp

lemma split_on_plain: "sep \<notin> set s \<Longrightarrow> split_on sep acc s = [rev acc @ s]"
  by (induction s arbitrary: acc) auto

lemma split_on_append: "sep \<notin> set s \<Longrightarrow> split_on sep acc (s @ sep # t) = (rev acc @ s) # split_on sep [] t"
  by (induction s arbitrary: acc) auto

lemma split_on_join:
  "ss \<noteq> [] \<Longrightarrow> \<forall>s \<in> set ss. CHR ''&'' \<notin> set s \<Longrightarrow> split_on CHR ''&'' [] (join_amp ss) = ss"
  by (induction ss rule: join_amp.induct) (auto simp: split_on_plain split_on_append)

lemma query_text_pair: "query_pair (query_text p) = Some p"
proof -
  have "takeWhile (\<lambda>c. c \<noteq> CHR ''='') (query_text p) = QueryEscape (fst p)"
    using QueryEscape_safe [of "fst p"] by (auto simp: query_text_def takeWhile_append)
  then have "Cut (query_text p) CHR ''='' = (QueryEscape (fst p), QueryEscape (snd p), True)"
    by (simp add: Cut_def query_text_def)
  moreover have "CHR '';'' \<notin> set (query_text p)" "query_text p \<noteq> []"
    using QueryEscape_safe by (auto simp: query_text_def)
  ultimately show ?thesis by (simp add: query_pair_def unescape_QueryEscape)
qed

text \<open>\<^verbatim>\<open>Query\<close> after \<^verbatim>\<open>Encode\<close> gives the pairs back, in the order of the keys.\<close>

lemma Query_Encode: "Query (Values_Encode vs) = sort_key fst vs"
proof (cases "vs = []")
  case True
  then show ?thesis by (simp add: Query_def Values_Encode_def query_pair_def List.map_filter_simps)
next
  case False
  have "CHR ''&'' \<notin> set (query_text p)" for p using QueryEscape_safe by (auto simp: query_text_def)
  moreover have "sort_key fst vs \<noteq> []" using False by (metis length_0_conv length_sort)
  ultimately have "split_on CHR ''&'' [] (Values_Encode vs) = map query_text (sort_key fst vs)"
    unfolding Values_Encode_def by (intro split_on_join) auto
  moreover have "List.map_filter query_pair (map query_text ps) = ps" for ps
    by (induction ps) (simp_all add: List.map_filter_simps query_text_pair)
  ultimately show ?thesis by (simp add: Query_def)
qed

lemma map_of_unique: "(k, v) \<in> set ps \<Longrightarrow> \<forall>p \<in> set ps. fst p = k \<longrightarrow> snd p = v \<Longrightarrow> map_of ps k = Some v"
  by (induction ps) auto

lemma Query_Get_Set: "Query_Get (Values_Encode (Values_Set key val vs)) key = val"
proof -
  have "map_of (sort_key fst (Values_Set key val vs)) key = Some val"
    by (rule map_of_unique) (auto simp: Values_Set_def)
  then show ?thesis by (simp add: Query_Get_def Query_Encode)
qed

section \<open>The edge admits the dial\<close>

text \<open>
  A connector whose id is a valid subject token, dialling a URL with the data path, whatever
  else the URL's query holds, with the token of the edge, is admitted under exactly its id.
\<close>

lemma dial_admitted:
  assumes "ValidateSubjectToken ''connector id'' connectorID = None" "tunnel_dial_url cfg connectorID = Some u"
    and "u_Path u = ''/_airpc/data''"
  shows "dataHandler_check (cn_TunnelToken cfg) (dial_request u (dial_header (cn_TunnelToken cfg))) = Inr connectorID"
proof -
  have tok: "subject_token connectorID" "length connectorID \<le> 128" using assms(1) by (auto simp: ValidateSubjectToken_iff)
  have q: "Query_Get (u_RawQuery u) ''connector_id'' = connectorID"
    using assms(2) Query_Get_Set by (auto simp: tunnel_dial_url_def)
  have "header_Get (dial_header t) ''Authorization'' = ''Bearer '' @ t" if "t \<noteq> []" for t
    using that by (simp add: dial_header_def header_Get_def)
  moreover have "ValidateSubjectToken ''connector_id'' connectorID = None" "connectorID \<noteq> []"
    using tok by (auto simp: ValidateSubjectToken_iff subject_token_def)
  ultimately show ?thesis
    using assms(3) q
    by (cases "cn_TunnelToken cfg = []") (simp_all add: dataHandler_check_def dial_request_def dataTunnelPath_def Let_def)
qed

definition sample_dial_config :: connector_config where
  "sample_dial_config =
     \<lparr>cn_EdgeDataURL = ''ws://edge:8081/_airpc/data?zone=a%26b'', cn_TunnelToken = ''s3cret'', cn_MetricsAddr = [], cn_TLS = None\<rparr>"

end
