(* ===== verification/Connector_Start.thy ===== *)
theory Connector_Start
  imports Tunnel_Dial Process_Resources
begin

text \<open>
  Package \<^verbatim>\<open>internal/connector\<close>, \<^verbatim>\<open>connector.go\<close>: \<^verbatim>\<open>Start\<close>, the goroutine that ends the subscriptions, and
  \<^verbatim>\<open>startTunnelClient\<close> (\<^verbatim>\<open>data.go\<close>) as far as it can fail. The map of stream routes is ranged over in
  the order of its association list; Go's order is unspecified.

  The lemmas state what a failed start leaves behind and what a started connector listens to.
\<close>

section \<open>Starting\<close>

definition connector_nats_name :: "string \<Rightarrow> string" where
  "connector_nats_name connectorID = ''airpc-connector-'' @ connectorID"

text \<open>\<^verbatim>\<open>startTunnelClient\<close>: the URL to dial and the TLS configuration of the dialer.\<close>

definition startTunnelClient ::
  "start_env \<Rightarrow> config \<Rightarrow> string \<Rightarrow> (start_error, url \<times> tls_config option) result" where
  "startTunnelClient env cfg connectorID =
     (case tunnel_dial_url (c_Connector cfg) connectorID of
        None \<Rightarrow> Inl SDataURL
      | Some u \<Rightarrow>
          (case cn_TLS (c_Connector cfg) of
             None \<Rightarrow> Inr (u, None)
           | Some t \<Rightarrow>
               (case ClientTLS (en_tls env) t of
                  Inl e \<Rightarrow> Inl (STls e)
                | Inr tlsCfg \<Rightarrow> Inr (u, Some tlsCfg))))"

record connector =
  co_nats :: string
  co_subscriptions :: "resource list"
  co_dialURL :: url
  co_metricsAddr :: string
  co_proxy :: http_proxy
  co_streamRoutes :: "(string \<times> stream_route) list"

text \<open>The subscriptions, in the order they are made, with their queue groups.\<close>

definition subscription_plan ::
  "proxy_route list \<Rightarrow> (string \<times> stream_route) list \<Rightarrow> (string \<times> string option) list" where
  "subscription_plan routes streamByName =
     map (\<lambda>r. (UnarySubject (pr_cfg r), Some (QueueGroup (pr_cfg r)))) routes @
     (if length routes > 0 then [(CancelSubjectWildcard, None)] else []) @
     map (\<lambda>(_, r). (OpenSubject (st_cfg r), Some (QueueGroup (st_cfg r)))) streamByName"

definition connector_cleanup :: "string \<Rightarrow> resource list \<Rightarrow> resources \<Rightarrow> resources" where
  "connector_cleanup name subs os = nats_Close name (foldl (\<lambda>os s. nats_Unsubscribe s os) os subs)"

fun subscribe_all ::
  "start_env \<Rightarrow> string \<Rightarrow> (string \<times> string option) list \<Rightarrow> resource list \<Rightarrow> resources \<Rightarrow>
   resources \<times> (start_error, resource list) result" where
  "subscribe_all env name [] subs os = (os, Inr subs)"
| "subscribe_all env name ((subject, queue) # plan) subs os =
     (case nats_subscribe env subject queue os of
        (os', Inl e) \<Rightarrow> (connector_cleanup name subs os', Inl e)
      | (os', Inr sub) \<Rightarrow> subscribe_all env name plan (subs @ [sub]) os')"

definition connector_Start :: "start_env \<Rightarrow> string \<Rightarrow> config \<Rightarrow> resources \<times> (start_error, connector) result" where
  "connector_Start env connectorID cfg =
     (case connector_httpRoutes (c_Routes cfg) of
        Inl n \<Rightarrow> ({#}, Inl (STarget n))
      | Inr routes \<Rightarrow>
          (case streamRoutes (c_Routes cfg) of
             Inl n \<Rightarrow> ({#}, Inl (STarget n))
           | Inr streamByName \<Rightarrow>
               (let name = connector_nats_name connectorID in
                case Connect env (ConnectorURLOrDefault (c_NATS cfg)) name (n_CredsFile (c_NATS cfg)) {#} of
                  (os0, Some e) \<Rightarrow> (os0, Inl e)
                | (os0, None) \<Rightarrow>
                    (case StartServer env (cn_MetricsAddr (c_Connector cfg)) os0 of
                       (os1, Inl e) \<Rightarrow> (connector_cleanup name [] os1, Inl e)
                     | (os1, Inr metricsAddr) \<Rightarrow>
                         (case startTunnelClient env cfg connectorID of
                            Inl e \<Rightarrow> (connector_cleanup name [] os1, Inl e)
                          | Inr (u, _) \<Rightarrow>
                              (case subscribe_all env name (subscription_plan routes streamByName) []
                                      (add_mset (TunnelClient connectorID) os1) of
                                 (os2, Inl e) \<Rightarrow> (os2, Inl e)
                               | (os2, Inr subs) \<Rightarrow>
                                   (os2, Inr \<lparr>co_nats = name, co_subscriptions = subs, co_dialURL = u,
                                              co_metricsAddr = metricsAddr,
                                              co_proxy = newHTTPProxy connectorID routes,
                                              co_streamRoutes = streamByName\<rparr>)))))))"

text \<open>The goroutine that waits for the context, then unsubscribes and drains the connection.\<close>

definition connector_shutdown :: "connector \<Rightarrow> resources \<Rightarrow> resources" where
  "connector_shutdown c os = nats_Drain (co_nats c) (foldl (\<lambda>os s. nats_Unsubscribe s os) os (co_subscriptions c))"

definition connector_MetricsAddr :: "connector option \<Rightarrow> string" where
  "connector_MetricsAddr c = (case c of None \<Rightarrow> [] | Some c \<Rightarrow> co_metricsAddr c)"

section \<open>Lemmas\<close>

text \<open>What lives until the context ends: the metrics server and the tunnel client.\<close>

fun until_context :: "resource \<Rightarrow> bool" where
  "until_context (MetricsServer _) = True"
| "until_context (TunnelClient _) = True"
| "until_context _ = False"

lemma is_metrics_until: "is_metrics r \<Longrightarrow> until_context r"
  by (cases r) simp_all

definition connector_held :: "connector \<Rightarrow> resources" where
  "connector_held c = add_mset (NatsConn (co_nats c)) (mset (co_subscriptions c))"

lemma unsubscribe_all: "foldl (\<lambda>os s. nats_Unsubscribe s os) os subs = os - mset subs"
  by (induction subs arbitrary: os) (simp_all add: nats_Unsubscribe_def)

lemma cleanup_own: "connector_cleanup name subs (mset subs + add_mset (NatsConn name) os) = os"
  by (simp add: connector_cleanup_def unsubscribe_all nats_Close_def)

lemma subscribe_all_resources:
  "subscribe_all env name plan subs (mset subs + add_mset (NatsConn name) base) = (os, res) \<Longrightarrow>
   (case res of
      Inl _ \<Rightarrow> os = base
    | Inr subs' \<Rightarrow> os = mset subs' + add_mset (NatsConn name) base \<and>
        subs' = subs @ map (\<lambda>(s, q). Subscription s q) plan)"
proof (induction plan arbitrary: subs)
  case (Cons p plan)
  obtain subject queue where p: "p = (subject, queue)" by fastforce
  show ?case
  proof (cases rule: nats_subscribe_cases [of env subject queue "mset subs + add_mset (NatsConn name) base"])
    case (refused e)
    then show ?thesis using Cons.prems p cleanup_own by auto
  next
    case subscribed
    then show ?thesis
      using Cons.prems Cons.IH [of "subs @ [Subscription subject queue]"] p
      by (auto simp: add_mset_commute split: sum.splits)
  qed
qed auto

lemma connector_Start_resources:
  assumes "connector_Start env connectorID cfg = (os, res)"
  shows "case res of
      Inl _ \<Rightarrow> \<forall>r \<in># os. until_context r
    | Inr c \<Rightarrow> \<exists>rest routes streamByName.
        os = connector_held c + rest \<and> (\<forall>r \<in># rest. until_context r) \<and> TunnelClient connectorID \<in># rest \<and>
        connector_httpRoutes (c_Routes cfg) = Inr routes \<and> streamRoutes (c_Routes cfg) = Inr streamByName \<and>
        co_subscriptions c = map (\<lambda>(s, q). Subscription s q) (subscription_plan routes streamByName) \<and>
        co_proxy c = newHTTPProxy connectorID routes \<and> co_streamRoutes c = streamByName"
proof (cases "connector_httpRoutes (c_Routes cfg)")
  case (Inl n)
  then show ?thesis using assms by (auto simp: connector_Start_def)
next
  case (Inr routes)
  note h = Inr
  let ?name = "connector_nats_name connectorID"
  let ?N = "NatsConn ?name"
  show ?thesis
  proof (cases "streamRoutes (c_Routes cfg)")
    case (Inl n)
    then show ?thesis using assms h by (auto simp: connector_Start_def)
  next
    case (Inr ss)
    note s = Inr
    show ?thesis
    proof (cases rule: Connect_cases [of env "ConnectorURLOrDefault (c_NATS cfg)" ?name "n_CredsFile (c_NATS cfg)" "{#}"])
      case (failed e)
      then show ?thesis using assms h s by (auto simp: connector_Start_def Let_def)
    next
      case connected
      show ?thesis
      proof (cases rule: StartServer_cases [of env "cn_MetricsAddr (c_Connector cfg)" "{#?N#}"])
        case (failed e)
        then show ?thesis
          using assms h s connected cleanup_own [of ?name "[]" "{#}"] by (auto simp: connector_Start_def Let_def)
      next
        case (started bound ms)
        have ms: "\<forall>r \<in># ms. until_context r" using started(2) is_metrics_until by blast
        show ?thesis
        proof (cases "startTunnelClient env cfg connectorID")
          case (Inl e)
          then show ?thesis
            using assms h s connected started ms cleanup_own [of ?name "[]" ms] by (auto simp: connector_Start_def Let_def)
        next
          case (Inr ut)
          obtain u t where ut: "startTunnelClient env cfg connectorID = Inr (u, t)" using Inr by (cases ut) auto
          let ?base = "add_mset (TunnelClient connectorID) ms"
          obtain os2 r2 where sub: "subscribe_all env ?name (subscription_plan routes ss) [] (add_mset ?N ?base) = (os2, r2)"
            by fastforce
          have "case r2 of Inl _ \<Rightarrow> os2 = ?base
            | Inr subs' \<Rightarrow> os2 = mset subs' + add_mset ?N ?base \<and>
                subs' = map (\<lambda>(s, q). Subscription s q) (subscription_plan routes ss)"
            using subscribe_all_resources [of env ?name "subscription_plan routes ss" "[]" ?base os2 r2] sub by (cases r2) simp_all
          then show ?thesis
            using assms h s connected started ut sub ms
            by (cases r2) (auto simp: connector_Start_def Let_def connector_held_def add_mset_commute)
        qed
      qed
    qed
  qed
qed

interpretation connector_life: startup "connector_Start env connectorID" connector_shutdown connector_held until_context
proof
  show "until_context r" if "connector_Start env connectorID c = (os, Inl e)" "r \<in># os" for c os e r
    using connector_Start_resources [OF that(1)] that(2) by simp
  show "\<exists>rest. os = connector_held s + rest \<and> (\<forall>r \<in># rest. until_context r)"
    if "connector_Start env connectorID c = (os, Inr s)" for c os s
    using connector_Start_resources [OF that] by auto
  show "connector_shutdown s (connector_held s + rest) = rest" for s rest
    by (simp add: connector_shutdown_def connector_held_def unsubscribe_all nats_Drain_def)
qed

lemma connector_httpRoutes_cfg: "connector_httpRoutes rs = Inr ps \<Longrightarrow> map pr_cfg ps = filter (\<lambda>r. r_Mode r = ModeHTTP) rs"
  by (induction rs arbitrary: ps) (auto split: if_splits option.splits sum.splits)

lemma update_new: "k \<notin> fst ` set al \<Longrightarrow> AList.update k v al = al @ [(k, v)]"
  by (induction al) auto

lemma streamRoutes_cfg:
  "stream_routes_loop out rs = Inr m \<Longrightarrow> distinct (map r_Name rs) \<Longrightarrow> fst ` set out \<inter> r_Name ` set rs = {} \<Longrightarrow>
   map (st_cfg \<circ> snd) m = map (st_cfg \<circ> snd) out @ filter (\<lambda>r. r_Mode r \<noteq> ModeHTTP) rs"
proof (induction out rs arbitrary: m rule: stream_routes_loop.induct)
  case (2 out r rs)
  have out: "r_Name r \<notin> fst ` set out" using 2(6) by auto
  consider "r_Mode r = ModeHTTP" | t where "r_Mode r \<noteq> ModeHTTP" "r_Mode r = ModeWebSocket" "Url_Parse (r_Target r) = Some t"
    | "r_Mode r \<noteq> ModeHTTP" "r_Mode r \<noteq> ModeWebSocket"
    using 2(4) by (auto split: if_splits option.splits)
  then show ?case
  proof cases
    case 1
    then show ?thesis using 2(1) [of m] 2(4,5,6) by auto
  next
    case 2
    then show ?thesis using "2.IH"(2) [of t m] "2.prems" out by (auto simp: update_new)
  next
    case 3
    then show ?thesis using "2.IH"(3) [of m] "2.prems" out by (auto simp: update_new)
  qed
qed simp

section \<open>Properties\<close>

text \<open>
  A connector that cannot start gives back its NATS connection and its subscriptions,
  whichever step failed, and one that has started gives them back when its context ends. What
  remains, the metrics server and the tunnel client, is bound to the context.
\<close>

theorem connector_start_releases:
  "case connector_Start env connectorID cfg of
     (os, Inl _) \<Rightarrow> \<forall>r \<in># os. until_context r
   | (os, Inr c) \<Rightarrow> \<forall>r \<in># connector_shutdown c os. until_context r"
proof -
  obtain os res where s: "connector_Start env connectorID cfg = (os, res)" by fastforce
  show ?thesis
  proof (cases res)
    case (Inl e)
    then show ?thesis using connector_life.start_failed [of env connectorID cfg os e] s by simp
  next
    case (Inr c)
    then obtain rest where "os = connector_held c + rest" "\<forall>r \<in># rest. until_context r"
      using connector_life.start_ok s by blast
    then show ?thesis using s Inr connector_life.stop_held [of c rest] by simp
  qed
qed

text \<open>An environment in which one subscription fails.\<close>

definition sample_connector_env :: "string \<Rightarrow> start_env" where
  "sample_connector_env bad =
     \<lparr>en_connect = (\<lambda>_ _. None), en_listen = (\<lambda>addr _. Inr addr),
      en_subscribe = (\<lambda>s _. if s = bad then Some ''denied'' else None), en_flush = (\<lambda>_. None), en_tls = sample_tls_env\<rparr>"

lemma sample_tunnel_dial: "\<exists>u. startTunnelClient (sample_connector_env bad) sample_config ''c1'' = Inr (u, None)"
proof -
  have "map_option u_Path (tunnel_dial_url (c_Connector sample_config) ''c1'') \<noteq> None" "cn_TLS (c_Connector sample_config) = None"
    by code_simp+
  then show ?thesis by (auto simp: startTunnelClient_def)
qed

lemma sample_connector_routes:
  "\<exists>p. connector_httpRoutes (c_Routes sample_config) = Inr [p] \<and> pr_cfg p = sample_http"
  "streamRoutes (c_Routes sample_config) = Inr [(''db'', \<lparr>st_cfg = sample_tcp, st_target = None\<rparr>)]"
proof -
  have "Url_Parse (r_Target sample_http) \<noteq> None" by code_simp
  then show "\<exists>p. connector_httpRoutes (c_Routes sample_config) = Inr [p] \<and> pr_cfg p = sample_http"
    by (auto simp: sample_config_def ModeHTTP_def sample_tcp_def) (simp_all add: sample_http_def)
  show "streamRoutes (c_Routes sample_config) = Inr [(''db'', \<lparr>st_cfg = sample_tcp, st_target = None\<rparr>)]"
    by (simp add: streamRoutes_def sample_config_def ModeHTTP_def ModeWebSocket_def sample_tcp_def sample_http_def)
qed

lemma sample_connector_fails:
  "connector_Start (sample_connector_env (OpenSubject sample_tcp)) ''c1'' sample_config =
     ({#TunnelClient ''c1''#}, Inl (SSubscribe (OpenSubject sample_tcp) ''denied''))"
proof -
  obtain p where p: "connector_httpRoutes (c_Routes sample_config) = Inr [p]" "pr_cfg p = sample_http"
    using sample_connector_routes(1) by blast
  obtain u where u: "startTunnelClient (sample_connector_env (OpenSubject sample_tcp)) sample_config ''c1'' = Inr (u, None)"
    using sample_tunnel_dial by blast
  have m: "cn_MetricsAddr (c_Connector sample_config) = []" by (simp add: sample_config_def)
  have ne: "UnarySubject sample_http \<noteq> OpenSubject sample_tcp" "CancelSubjectWildcard \<noteq> OpenSubject sample_tcp" by code_simp+
  show ?thesis
    unfolding connector_Start_def p(1) sample_connector_routes(2) u sum.case Let_def prod.case
    by (simp add: Connect_def StartServer_def subscription_plan_def m p(2) ne connector_cleanup_def nats_Close_def
        nats_subscribe_def nats_Unsubscribe_def sample_connector_env_def Let_def)
qed

theorem connector_start_releases_witness:
  "\<exists>os e. connector_Start (sample_connector_env (OpenSubject sample_tcp)) ''c1'' sample_config = (os, Inl e) \<and>
     (\<forall>r \<in># os. until_context r)"
  using connector_start_releases [of "sample_connector_env (OpenSubject sample_tcp)" "''c1''" sample_config]
    sample_connector_fails by auto

text \<open>
  A failed start leaves the tunnel client dialling: the clean-up after a refused
  subscription closes the NATS connection and the subscriptions, but not the tunnel client,
  which keeps the data tunnel of a connector that was never started until the context ends.
\<close>

theorem failed_start_keeps_tunnel:
  "\<exists>env cfg os e. connector_Start env ''c1'' cfg = (os, Inl e) \<and> TunnelClient ''c1'' \<in># os"
  using sample_connector_fails by force

text \<open>
  C25. A connector listens exactly to the subjects of its routes. Started with a validated
  configuration it holds one subscription, in the route's queue group, on the unary subject
  of every HTTP route and on the open subject of every other route, and, if it has HTTP
  routes, one on all cancel subjects outside any queue group, so that every connector hears
  every cancellation; and no other.
\<close>

theorem connector_listens:
  assumes "Config_Validate cfg = None" "connector_Start env connectorID cfg = (os, Inr c)"
  shows "co_subscriptions c =
      map (\<lambda>r. Subscription (UnarySubject r) (Some (QueueGroup r))) (filter (\<lambda>r. r_Mode r = ModeHTTP) (c_Routes cfg)) @
      (if \<exists>r \<in> set (c_Routes cfg). r_Mode r = ModeHTTP then [Subscription CancelSubjectWildcard None] else []) @
      map (\<lambda>r. Subscription (OpenSubject r) (Some (QueueGroup r))) (filter (\<lambda>r. r_Mode r \<noteq> ModeHTTP) (c_Routes cfg)) \<and>
    (\<forall>s \<in> set (co_subscriptions c). s \<in># os)"
proof -
  obtain rest routes ss where r: "os = connector_held c + rest" "connector_httpRoutes (c_Routes cfg) = Inr routes"
    "streamRoutes (c_Routes cfg) = Inr ss"
    "co_subscriptions c = map (\<lambda>(s, q). Subscription s q) (subscription_plan routes ss)"
    using connector_Start_resources [OF assms(2)] by auto
  note h = connector_httpRoutes_cfg [OF r(2)]
  have "distinct (map r_Name (c_Routes cfg))"
    using assms(1) unfolding Config_Validate_iff config_ok_def Let_def by blast
  then have s: "map (st_cfg \<circ> snd) ss = filter (\<lambda>r. r_Mode r \<noteq> ModeHTTP) (c_Routes cfg)"
    using streamRoutes_cfg [of "[]" "c_Routes cfg" ss] r(3) by (simp add: streamRoutes_def)
  have ne: "routes \<noteq> [] \<longleftrightarrow> (\<exists>r \<in> set (c_Routes cfg). r_Mode r = ModeHTTP)"
  proof -
    have "routes = [] \<longleftrightarrow> filter (\<lambda>r. r_Mode r = ModeHTTP) (c_Routes cfg) = []" using h by (metis map_is_Nil_conv)
    then show ?thesis by (simp add: filter_empty_conv)
  qed
  have "map (\<lambda>(s, q). Subscription s q) (subscription_plan routes ss) =
      map (\<lambda>r. Subscription (UnarySubject r) (Some (QueueGroup r))) (map pr_cfg routes) @
      (if routes \<noteq> [] then [Subscription CancelSubjectWildcard None] else []) @
      map (\<lambda>r. Subscription (OpenSubject r) (Some (QueueGroup r))) (map (st_cfg \<circ> snd) ss)"
    by (simp add: subscription_plan_def case_prod_unfold)
  moreover have "s \<in># os" if "s \<in> set (co_subscriptions c)" for s using r(1) that by (simp add: connector_held_def)
  ultimately show ?thesis unfolding r(4) h s ne by blast
qed

lemma sample_connector_starts:
  "\<exists>os c. connector_Start (sample_connector_env []) ''c1'' sample_config = (os, Inr c)"
proof -
  obtain p where p: "connector_httpRoutes (c_Routes sample_config) = Inr [p]" "pr_cfg p = sample_http"
    using sample_connector_routes(1) by blast
  obtain u where u: "startTunnelClient (sample_connector_env []) sample_config ''c1'' = Inr (u, None)"
    using sample_tunnel_dial by blast
  have m: "cn_MetricsAddr (c_Connector sample_config) = []" by (simp add: sample_config_def)
  have ne: "UnarySubject sample_http \<noteq> []" "CancelSubjectWildcard \<noteq> []" "OpenSubject sample_tcp \<noteq> []" by code_simp+
  show ?thesis
    unfolding connector_Start_def p(1) sample_connector_routes(2) u sum.case Let_def prod.case
    by (simp add: Connect_def StartServer_def subscription_plan_def m p(2) ne nats_subscribe_def sample_connector_env_def Let_def)
qed

theorem connector_listens_witness:
  "\<exists>os c. connector_Start (sample_connector_env []) ''c1'' sample_config = (os, Inr c) \<and> length (co_subscriptions c) = 3"
proof -
  obtain os c where s: "connector_Start (sample_connector_env []) ''c1'' sample_config = (os, Inr c)"
    using sample_connector_starts by blast
  have "c_Routes sample_config = [sample_tcp, sample_http]" "r_Mode sample_tcp \<noteq> ModeHTTP" "r_Mode sample_http = ModeHTTP"
    by (simp_all add: sample_config_def sample_tcp_def sample_http_def ModeHTTP_def)
  then have "length (co_subscriptions c) = 3" using connector_listens [OF sample_config_valid s] by simp
  then show ?thesis using s by blast
qed

end
