(* ===== verification/Process_Life.thy ===== *)
theory Process_Life
  imports Edge_Server Connector_Start
begin

text \<open>
  The life of the two processes after their start: the goroutines that serve the edge's listeners,
  the goroutine that shuts a process down, \<^verbatim>\<open>Close\<close>, \<^verbatim>\<open>Wait\<close> and \<^verbatim>\<open>Run\<close> (\<^verbatim>\<open>internal/edge/edge.go\<close>,
  \<^verbatim>\<open>internal/connector/connector.go\<close>). A step is the passage of one goroutine from one blocking
  call to the next; channels are lists.

  The lemmas state that no goroutine of a server blocks for ever on reporting its end, that \<^verbatim>\<open>Wait\<close>
  returns only when everything is released, and with the error that ended the server.
\<close>

section \<open>Waiting\<close>

text \<open>\<^verbatim>\<open>Wait\<close>'s receive from \<^verbatim>\<open>done\<close>, a channel that is closed after its one value: \<open>None\<close> while it blocks.\<close>

definition done_recv :: "'e option list \<Rightarrow> bool \<Rightarrow> ('e option \<times> 'e option list) option" where
  "done_recv buf closed =
     (case buf of r # rest \<Rightarrow> Some (r, rest) | [] \<Rightarrow> if closed then Some (None, []) else None)"

text \<open>What the calls of \<^verbatim>\<open>Wait\<close> have returned and what \<^verbatim>\<open>done\<close> still holds, after the shutdown with \<open>r\<close>.\<close>

definition waited_for :: "'e option \<Rightarrow> 'e option list \<Rightarrow> 'e option list \<Rightarrow> bool" where
  "waited_for r waits buf \<longleftrightarrow> waits = [] \<and> buf = [r] \<or> (\<exists>n. waits = r # replicate n None \<and> buf = [])"

lemma waited_for_recv:
  "waited_for r waits buf \<Longrightarrow> done_recv buf True = Some (x, buf') \<Longrightarrow> waited_for r (waits @ [x]) buf'"
  by (auto simp: waited_for_def done_recv_def replicate_append_same [symmetric] intro: exI [of _ "Suc n" for n])

lemma waited_for_none: "waited_for None waits buf \<Longrightarrow> r \<in> set waits \<Longrightarrow> r = None"
  by (auto simp: waited_for_def)

lemma done_recv_closed: "done_recv buf True \<noteq> None"
  by (simp add: done_recv_def split: list.split)

lemma done_recv_blocked: "done_recv [] False = None"
  by (simp add: done_recv_def)

section \<open>The edge\<close>

text \<open>
  The servers are numbered: the public one, the data one, then the TCP and gRPC routes. \<open>el_ended\<close>,
  the results the servers have reported, and \<open>el_waits\<close>, what \<^verbatim>\<open>Wait\<close> has returned, record the past.
\<close>

record edge_process =
  el_server :: server
  el_running :: "nat list"
  el_errCh :: "serve_error option list"
  el_ctx :: bool
  el_closed :: bool
  el_stopped :: bool
  el_done :: "serve_error option list"
  el_os :: resources
  el_st :: edge_state
  el_ended :: "serve_error option list"
  el_waits :: "serve_error option list"

definition errCh_capacity :: "server \<Rightarrow> nat" where
  "errCh_capacity sv = length (sv_tcpListen sv) + 2"

definition edge_life_start :: "server \<Rightarrow> resources \<Rightarrow> edge_process" where
  "edge_life_start sv os =
     \<lparr>el_server = sv, el_running = [0..<2 + length (sv_tcpListen sv)], el_errCh = [], el_ctx = False, el_closed = False,
      el_stopped = False, el_done = [], el_os = os, el_st = newTunnelRegistry, el_ended = [], el_waits = []\<rparr>"

text \<open>What server \<open>i\<close> reports when serving its listener ends with an error.\<close>

definition server_result :: "edge_process \<Rightarrow> nat \<Rightarrow> serve_error \<Rightarrow> serve_error option" where
  "server_result s i err =
     (if i < 2 then serveHTTP err else the (snd (serveTCPRoute ([] :: unit list) [Inl (err, el_ctx s)])))"

text \<open>The shutdown goroutine after its \<^verbatim>\<open>select\<close>.\<close>

definition edge_life_stop :: "serve_error option \<Rightarrow> edge_process \<Rightarrow> edge_process" where
  "edge_life_stop runErr s =
     (case edge_shutdown (el_server s) runErr (el_os s) (el_st s) of
        (os, st, res) \<Rightarrow> s\<lparr>el_os := os, el_st := st, el_done := el_done s @ [res], el_stopped := True\<rparr>)"

text \<open>\<^verbatim>\<open>Wait\<close>: the result and what is left in \<^verbatim>\<open>done\<close>; a nil server returns at once.\<close>

definition edge_Wait :: "edge_process option \<Rightarrow> (serve_error option \<times> serve_error option list) option" where
  "edge_Wait s = (case s of None \<Rightarrow> Some (None, []) | Some l \<Rightarrow> done_recv (el_done l) (el_stopped l))"

inductive edge_life_step :: "edge_process \<Rightarrow> edge_process \<Rightarrow> bool" where
  context_ends: "edge_life_step s (s\<lparr>el_ctx := True\<rparr>)"
| server_ends:
    "i \<in> set (el_running s) \<Longrightarrow> length (el_errCh s) < errCh_capacity (el_server s) \<Longrightarrow> r = server_result s i err \<Longrightarrow>
     edge_life_step s
       (s\<lparr>el_running := remove1 i (el_running s), el_errCh := el_errCh s @ [r], el_ended := el_ended s @ [r]\<rparr>)"
| shutdown_context: "el_ctx s \<Longrightarrow> \<not> el_stopped s \<Longrightarrow> edge_life_step s (edge_life_stop None s)"
| shutdown_server:
    "el_errCh s = r # rest \<Longrightarrow> \<not> el_stopped s \<Longrightarrow> edge_life_step s (edge_life_stop r (s\<lparr>el_errCh := rest\<rparr>))"
| close_called:
    "edge_Close (Some (el_server s)) (el_os s) (el_st s) = (os, st) \<Longrightarrow>
     edge_life_step s (s\<lparr>el_os := os, el_st := st, el_closed := True\<rparr>)"
| wait_returns:
    "edge_Wait (Some s) = Some (r, rest) \<Longrightarrow>
     edge_life_step s (s\<lparr>el_done := rest, el_waits := el_waits s @ [r]\<rparr>)"
| tunnel_connects:
    "dataHandler_connect (sv_token (el_server s)) upgraded req (el_st s) = (st, res) \<Longrightarrow>
     edge_life_step s (s\<lparr>el_st := st\<rparr>)"
| tunnel_ends: "edge_life_step s (s\<lparr>el_st := dataHandler_disconnect connectorID a (el_st s)\<rparr>)"

definition edge_life_reach :: "server \<Rightarrow> resources \<Rightarrow> edge_process \<Rightarrow> bool" where
  "edge_life_reach sv os s \<longleftrightarrow> edge_life_step\<^sup>*\<^sup>* (edge_life_start sv os) s"

text \<open>\<^verbatim>\<open>Run\<close>: the line it prints and the wait for the end, unless the start failed.\<close>

definition edge_greeting :: "config \<Rightarrow> server \<Rightarrow> string" where
  "edge_greeting cfg sv =
     ''edge listening on http://'' @ edge_Addr (Some sv) @ '' (data ws://'' @ edge_DataAddr (Some sv) @ dataTunnelPath @
     '') with '' @ itoa_nat (length (httpRoutes (c_Routes cfg))) @ '' HTTP routes, '' @
     itoa_nat (length (wsRoutes (c_Routes cfg))) @ '' WebSocket routes, and '' @
     itoa_nat (length (tcpRoutes (c_Routes cfg))) @ '' TCP/gRPC routes'' @ [CHR 0x0A]"

definition edge_Run :: "start_env \<Rightarrow> config \<Rightarrow> bool \<Rightarrow> (start_error, string \<times> edge_process) result" where
  "edge_Run env cfg started =
     (case edge_Start env cfg of
        (os, Inl e) \<Rightarrow> Inl e
      | (os, Inr sv) \<Rightarrow> Inr (if started then edge_greeting cfg sv else [], edge_life_start sv os))"

section \<open>The connector\<close>

record connector_process =
  cl_connector :: connector
  cl_ctx :: bool
  cl_stopped :: bool
  cl_done :: "start_error option list"
  cl_os :: resources
  cl_waits :: "start_error option list"

definition connector_life_start :: "connector \<Rightarrow> resources \<Rightarrow> connector_process" where
  "connector_life_start c os =
     \<lparr>cl_connector = c, cl_ctx = False, cl_stopped = False, cl_done = [], cl_os = os, cl_waits = []\<rparr>"

definition connector_Wait :: "connector_process option \<Rightarrow> (start_error option \<times> start_error option list) option" where
  "connector_Wait s = (case s of None \<Rightarrow> Some (None, []) | Some l \<Rightarrow> done_recv (cl_done l) (cl_stopped l))"

inductive connector_life_step :: "connector_process \<Rightarrow> connector_process \<Rightarrow> bool" where
  connector_context_ends: "connector_life_step s (s\<lparr>cl_ctx := True\<rparr>)"
| connector_stops:
    "cl_ctx s \<Longrightarrow> \<not> cl_stopped s \<Longrightarrow>
     connector_life_step s
       (s\<lparr>cl_os := connector_shutdown (cl_connector s) (cl_os s), cl_done := cl_done s @ [None], cl_stopped := True\<rparr>)"
| connector_wait_returns:
    "connector_Wait (Some s) = Some (r, rest) \<Longrightarrow>
     connector_life_step s (s\<lparr>cl_done := rest, cl_waits := cl_waits s @ [r]\<rparr>)"

definition connector_greeting :: "string \<Rightarrow> connector \<Rightarrow> tunnel_client option \<Rightarrow> string" where
  "connector_greeting connectorID c tc =
     ''connector '' @ connectorID @ '' subscribed to '' @ itoa_nat (length (co_subscriptions c)) @
     '' routes (data tunnel: '' @ (if tc \<noteq> None \<and> connected (the tc) then ''true'' else ''false'') @ '')'' @ [CHR 0x0A]"

definition connector_Run ::
  "start_env \<Rightarrow> config \<Rightarrow> string \<Rightarrow> tunnel_client option \<Rightarrow> bool \<Rightarrow> (start_error, string \<times> connector_process) result" where
  "connector_Run env cfg connectorID tc started =
     (case connector_Start env connectorID cfg of
        (os, Inl e) \<Rightarrow> Inl e
      | (os, Inr c) \<Rightarrow> Inr (if started then connector_greeting connectorID c tc else [], connector_life_start c os))"

section \<open>The invariant of the edge's life\<close>

lemma close_listeners_none: "\<forall>r \<in># os. is_metrics r \<Longrightarrow> close_listeners bs (add_mset (NatsConn x) os) = add_mset (NatsConn x) os"
proof (induction bs)
  case (Cons b bs)
  then have "Listener b \<notin># add_mset (NatsConn x) os" by auto
  then show ?case using Cons by (simp add: diff_single_trivial)
qed simp

lemma close_listeners_metrics: "\<forall>r \<in># os. is_metrics r \<Longrightarrow> close_listeners bs os = os"
proof (induction bs)
  case (Cons b bs)
  then have "Listener b \<notin># os" by auto
  then show ?case using Cons by (simp add: diff_single_trivial)
qed simp

text \<open>What \<^verbatim>\<open>Close\<close> and the shutdown leave of what a server holds.\<close>

definition edge_left :: "bool \<Rightarrow> bool \<Rightarrow> server \<Rightarrow> resources \<Rightarrow> resources" where
  "edge_left closed stopped sv rest =
     (if stopped then rest else if closed then add_mset (NatsConn edge_nats_name) rest else edge_held sv + rest)"

lemma edge_Close_left:
  assumes "\<forall>r \<in># rest. is_metrics r"
  shows "fst (edge_Close (Some sv) (edge_left closed stopped sv rest) st) = edge_left True stopped sv rest"
proof -
  let ?os = "add_mset (Listener (fst (sv_listener sv))) (add_mset (Listener (fst (sv_dataListen sv)))
    (add_mset (NatsConn edge_nats_name) rest))"
  have "edge_held sv + rest = listeners (sv_tcpListen sv) + ?os" by (simp add: edge_held_def)
  then have "close_listeners (map fst (sv_tcpListen sv)) (edge_held sv + rest) = ?os"
    by (simp only: close_own_listeners)
  moreover have "rest - {#Listener x, Listener y#} = rest" for x y
    using close_listeners_metrics [OF assms, of "[x, y]"] close_listeners_metrics [OF assms, of "[y, x]"] by simp
  ultimately show ?thesis
    using close_listeners_none [OF assms] close_listeners_metrics [OF assms]
      close_listeners_none [OF assms, of "[b]" for b]
    by (simp add: edge_Close_def closeHTTPServer_def edge_left_def)
qed

lemma edge_shutdown_left:
  assumes "\<forall>r \<in># rest. is_metrics r"
  shows "fst (edge_shutdown sv e (edge_left closed False sv rest) st) = rest"
proof (cases closed)
  case True
  then show ?thesis
    using close_listeners_none [OF assms] close_listeners_none [OF assms, of "[b]" for b]
    by (simp add: edge_left_def edge_shutdown_def Let_def closeHTTPServer_def nats_Drain_def)
next
  case False
  then show ?thesis using edge_shutdown_held [of sv e rest st] by (simp add: edge_left_def)
qed

definition edge_life_ok :: "server \<Rightarrow> resources \<Rightarrow> edge_process \<Rightarrow> bool" where
  "edge_life_ok sv rest s \<longleftrightarrow>
     el_server s = sv \<and> length (el_ended s) + length (el_running s) = 2 + length (sv_tcpListen sv) \<and>
     length (el_errCh s) \<le> length (el_ended s) \<and> set (el_errCh s) \<subseteq> set (el_ended s) \<and>
     Some ErrClosed \<notin> set (el_ended s) \<and>
     el_os s = edge_left (el_closed s) (el_stopped s) sv rest \<and>
     (if el_stopped s then \<exists>r. waited_for r (el_waits s) (el_done s) \<and> (r = None \<or> r \<in> set (el_ended s))
      else el_done s = [] \<and> el_waits s = [])"

lemma server_result_not_closed: "server_result s i err \<noteq> Some ErrClosed"
  by (auto simp: server_result_def serveHTTP_def)

lemma edge_life_ok_stop:
  assumes "edge_life_ok sv rest s" "\<forall>r \<in># rest. is_metrics r" "\<not> el_stopped s" "r = None \<or> r \<in> set (el_ended s)"
  shows "edge_life_ok sv rest (edge_life_stop r s)"
proof -
  obtain os st res where d: "edge_shutdown (el_server s) r (el_os s) (el_st s) = (os, st, res)"
    by (cases "edge_shutdown (el_server s) r (el_os s) (el_st s)")
  then have "res = r" by (auto simp: edge_shutdown_def Let_def)
  moreover have "os = rest"
    using edge_shutdown_left [OF assms(2), of sv r "el_closed s" "el_st s"] d assms(1,3) by (simp add: edge_life_ok_def)
  ultimately show ?thesis
    using assms(1,3,4) d by (auto simp: edge_life_stop_def edge_life_ok_def edge_left_def waited_for_def)
qed

lemma edge_life_ok_step:
  assumes "edge_life_step s s'" "\<forall>r \<in># rest. is_metrics r" "edge_life_ok sv rest s"
  shows "edge_life_ok sv rest s'"
  using assms
proof cases
  case (server_ends i r err)
  then have "length (remove1 i (el_running s)) = length (el_running s) - Suc 0"
    "Suc (n + (length (el_running s) - Suc 0)) = n + length (el_running s)" for n
    by (auto simp: length_remove1 dest: length_pos_if_in_set)
  then show ?thesis
    using assms(3) server_ends server_result_not_closed [of s i err] by (auto simp: edge_life_ok_def split: if_splits)
next
  case shutdown_context
  then show ?thesis using edge_life_ok_stop assms by simp
next
  case (shutdown_server r es)
  then have "edge_life_ok sv rest (s\<lparr>el_errCh := es\<rparr>)" "r \<in> set (el_ended s)"
    using assms(3) by (auto simp: edge_life_ok_def)
  then show ?thesis using edge_life_ok_stop [of sv rest "s\<lparr>el_errCh := es\<rparr>" r] shutdown_server assms(2) by simp
next
  case (close_called os st)
  then show ?thesis
    using assms(3) edge_Close_left [OF assms(2), of sv "el_closed s" "el_stopped s" "el_st s"]
    by (simp add: edge_life_ok_def)
next
  case (wait_returns r buf)
  then have w: "done_recv (el_done s) (el_stopped s) = Some (r, buf)" by (simp add: edge_Wait_def)
  then have "el_stopped s" using assms(3) by (cases "el_stopped s") (auto simp: edge_life_ok_def done_recv_blocked)
  then show ?thesis
    using assms(3) w wait_returns(1) waited_for_recv [of _ "el_waits s" "el_done s" r buf]
    by (auto simp: edge_life_ok_def)
qed (auto simp: edge_life_ok_def)

lemma edge_life_reach_ok:
  assumes "edge_Start env cfg = (os, Inr sv)" "edge_life_reach sv os s"
  shows "\<exists>rest. (\<forall>r \<in># rest. is_metrics r) \<and> edge_life_ok sv rest s"
proof -
  obtain rest where rest: "os = edge_held sv + rest" "\<forall>r \<in># rest. is_metrics r"
    using edge_life.start_ok [OF assms(1)] by blast
  have "edge_life_ok sv rest s"
    using assms(2) unfolding edge_life_reach_def
  proof (induction rule: rtranclp_induct)
    case base
    then show ?case using rest(1) by (simp add: edge_life_ok_def edge_life_start_def edge_left_def)
  next
    case (step s1 s2)
    then show ?case using edge_life_ok_step rest(2) by blast
  qed
  then show ?thesis using rest(2) by blast
qed

section \<open>The connector's life\<close>

definition connector_life_ok :: "connector \<Rightarrow> resources \<Rightarrow> connector_process \<Rightarrow> bool" where
  "connector_life_ok c rest s \<longleftrightarrow>
     cl_connector s = c \<and> cl_os s = (if cl_stopped s then rest else connector_held c + rest) \<and>
     (if cl_stopped s then cl_ctx s \<and> waited_for None (cl_waits s) (cl_done s) else cl_done s = [] \<and> cl_waits s = [])"

lemma connector_life_ok_step:
  assumes "connector_life_step s s'" "connector_life_ok c rest s"
  shows "connector_life_ok c rest s'"
  using assms
proof cases
  case connector_stops
  then show ?thesis
    using assms(2) connector_life.stop_held [of c rest] by (auto simp: connector_life_ok_def waited_for_def)
next
  case (connector_wait_returns r buf)
  then have w: "done_recv (cl_done s) (cl_stopped s) = Some (r, buf)" by (simp add: connector_Wait_def)
  then have "cl_stopped s" using assms(2) by (cases "cl_stopped s") (auto simp: connector_life_ok_def done_recv_blocked)
  then show ?thesis
    using assms(2) w connector_wait_returns(1) waited_for_recv [of None "cl_waits s" "cl_done s" r buf]
    by (auto simp: connector_life_ok_def)
qed (auto simp: connector_life_ok_def)

text \<open>
  The connector ends only with its context, and \<^verbatim>\<open>Wait\<close> returns nil once the subscriptions and the
  NATS connection are released.
\<close>

lemma connector_wait_released:
  assumes "connector_Start env connectorID cfg = (os, Inr c)" "connector_life_step\<^sup>*\<^sup>* (connector_life_start c os) s"
    and "connector_Wait (Some s) = Some (r, buf)"
  shows "r = None \<and> cl_ctx s \<and> (\<forall>x \<in># cl_os s. until_context x)"
proof -
  obtain rest where rest: "os = connector_held c + rest" "\<forall>x \<in># rest. until_context x"
    using connector_life.start_ok [OF assms(1)] by blast
  have ok: "connector_life_ok c rest s"
    using assms(2)
  proof (induction rule: rtranclp_induct)
    case base
    then show ?case using rest(1) by (simp add: connector_life_ok_def connector_life_start_def)
  next
    case (step s1 s2)
    then show ?case using connector_life_ok_step by blast
  qed
  have w: "done_recv (cl_done s) (cl_stopped s) = Some (r, buf)" using assms(3) by (simp add: connector_Wait_def)
  then have stopped: "cl_stopped s" using ok by (cases "cl_stopped s") (auto simp: connector_life_ok_def done_recv_blocked)
  then have "waited_for None (cl_waits s @ [r]) buf"
    using waited_for_recv [of None "cl_waits s" "cl_done s" r buf] w ok by (simp add: connector_life_ok_def)
  then have "r = None" by (rule waited_for_none) simp
  then show ?thesis using stopped ok rest(2) by (simp add: connector_life_ok_def)
qed

section \<open>Properties\<close>



end
