(* ===== verification/Metrics.thy ===== *)
theory Metrics
  imports Edge_Unary Grpc_Observer Connector_Tunnel
begin

text \<open>
  The metrics of both processes: the vectors declared in \<^verbatim>\<open>internal/telemetry/metrics.go\<close> and every call
  the edge and the connector make on them. The metrics library is outside the repository; what the
  code does is the list of its calls, each with the vector, the label values and the method.

  The lemmas relate the calls to what happened: the gauge of active sessions to the sessions that
  are relaying, the byte counters to the bytes of the connections, the gauge of the tunnel to the
  state of the tunnel client. By the documentation of the library a counter or gauge shows the sum of
  what was added, or what was set last; a series exists once its label values were used.
\<close>

section \<open>The vectors\<close>

datatype metric =
    HTTPRequests | HTTPDuration | StreamSessionsTotal | StreamSessionsActive | StreamBytes
  | TunnelConnected | TunnelDials | GRPCRPCs | GRPCDuration

datatype metric_type = CounterVec | GaugeVec | HistogramVec

fun metric_vec :: "metric \<Rightarrow> metric_type \<times> string \<times> string list" where
  "metric_vec HTTPRequests = (CounterVec, ''airpc_http_requests_total'', [''route'', ''status''])"
| "metric_vec HTTPDuration = (HistogramVec, ''airpc_http_request_duration_seconds'', [''route''])"
| "metric_vec StreamSessionsTotal = (CounterVec, ''airpc_stream_sessions_total'', [''route'', ''mode''])"
| "metric_vec StreamSessionsActive = (GaugeVec, ''airpc_stream_sessions_active'', [''route'', ''mode''])"
| "metric_vec StreamBytes = (CounterVec, ''airpc_stream_bytes_total'', [''route'', ''direction''])"
| "metric_vec TunnelConnected = (GaugeVec, ''airpc_tunnel_connected'', [''connector_id''])"
| "metric_vec TunnelDials = (CounterVec, ''airpc_tunnel_dials_total'', [''connector_id'', ''outcome''])"
| "metric_vec GRPCRPCs = (CounterVec, ''airpc_grpc_rpcs_total'', [''route'', ''method'', ''code''])"
| "metric_vec GRPCDuration = (HistogramVec, ''airpc_grpc_rpc_duration_seconds'', [''route'', ''method''])"

text \<open>
  A call: the vector, the label values and the method of the series. Durations are nanoseconds.
\<close>

datatype metric_op = Resolved | Inc | Dec | Added int | SetTo int | Observed int

type_synonym metric_call = "metric \<times> string list \<times> metric_op"

text \<open>The methods each type of vector has; a counter refuses to be decreased.\<close>

fun op_fits :: "metric_type \<Rightarrow> metric_op \<Rightarrow> bool" where
  "op_fits t Resolved = True"
| "op_fits t Inc = (t \<noteq> HistogramVec)"
| "op_fits t Dec = (t = GaugeVec)"
| "op_fits t (Added n) = (t = GaugeVec \<or> t = CounterVec \<and> 0 \<le> n)"
| "op_fits t (SetTo n) = (t = GaugeVec)"
| "op_fits t (Observed d) = (t = HistogramVec)"

text \<open>
  The registry of the library refuses a name twice and names and labels with other characters, by
  which the process would end at its start.
\<close>

definition metric_name_ok :: "string \<Rightarrow> bool" where
  "metric_name_ok s \<longleftrightarrow>
     s \<noteq> [] \<and> \<not> is_digit_char (hd s) \<and> list_all (\<lambda>c. is_alnum c \<or> c = CHR ''_'') s"

lemma metric_vecs_registrable:
  "metric_name_ok (fst (snd (metric_vec k)))"
  "distinct (snd (snd (metric_vec k))) \<and> list_all metric_name_ok (snd (snd (metric_vec k)))"
  "fst (snd (metric_vec k)) = fst (snd (metric_vec k')) \<Longrightarrow> k = k'"
proof -
  show "metric_name_ok (fst (snd (metric_vec k)))" by (cases k) (simp only: metric_vec.simps fst_conv snd_conv, code_simp)+
  show "distinct (snd (snd (metric_vec k))) \<and> list_all metric_name_ok (snd (snd (metric_vec k)))"
    by (cases k) (simp only: metric_vec.simps snd_conv, code_simp)+
  show "k = k'" if "fst (snd (metric_vec k)) = fst (snd (metric_vec k'))"
    using that by (cases k; cases k') simp_all
qed

section \<open>What a list of calls amounts to\<close>

fun op_delta :: "metric_op \<Rightarrow> int" where
  "op_delta Inc = 1"
| "op_delta Dec = -1"
| "op_delta (Added n) = n"
| "op_delta _ = 0"

text \<open>The sum of what was added to a series.\<close>

fun added :: "metric_call list \<Rightarrow> metric \<Rightarrow> string list \<Rightarrow> int" where
  "added [] k ls = 0"
| "added ((k', ls', op) # calls) k ls = (if k' = k \<and> ls' = ls then op_delta op else 0) + added calls k ls"

text \<open>What it was set to last.\<close>

fun last_set :: "metric_call list \<Rightarrow> metric \<Rightarrow> string list \<Rightarrow> int option" where
  "last_set [] k ls = None"
| "last_set ((k', ls', op) # calls) k ls =
     (case last_set calls k ls of
        Some n \<Rightarrow> Some n
      | None \<Rightarrow> (case op of SetTo n \<Rightarrow> if k' = k \<and> ls' = ls then Some n else None | _ \<Rightarrow> None))"

text \<open>Whether the series exists.\<close>

definition has_series :: "metric_call list \<Rightarrow> metric \<Rightarrow> string list \<Rightarrow> bool" where
  "has_series calls k ls \<longleftrightarrow> list_ex (\<lambda>(k', ls', _). k' = k \<and> ls' = ls) calls"

lemma added_append [simp]: "added (xs @ ys) k ls = added xs k ls + added ys k ls"
  by (induction xs k ls rule: added.induct) simp_all

lemma last_set_append [simp]:
  "last_set (xs @ ys) k ls = (case last_set ys k ls of Some n \<Rightarrow> Some n | None \<Rightarrow> last_set xs k ls)"
  by (induction xs k ls rule: last_set.induct) (simp_all split: option.split)

lemma has_series_append [simp]: "has_series (xs @ ys) k ls \<longleftrightarrow> has_series xs k ls \<or> has_series ys k ls"
  by (auto simp: has_series_def)

lemma has_series_simps [simp]:
  "\<not> has_series [] k ls" "has_series ((k', ls', op) # calls) k ls \<longleftrightarrow> k' = k \<and> ls' = ls \<or> has_series calls k ls"
  by (auto simp: has_series_def)

section \<open>The calls of the edge\<close>

text \<open>The deferred function of \<^verbatim>\<open>serveUnary\<close>: the calls it saw and the time since the start.\<close>

definition unary_metrics :: "edge_route \<Rightarrow> client_call list \<Rightarrow> int \<Rightarrow> metric_call list" where
  "unary_metrics matched calls elapsed =
     [(HTTPRequests, [fst (request_metric matched calls), snd (request_metric matched calls)], Inc),
      (HTTPDuration, [r_Name (er_cfg matched)], Observed elapsed)]"

text \<open>\<^verbatim>\<open>handleTCPConn\<close> and \<^verbatim>\<open>handleWebSocketRoute\<close> around the relay.\<close>

definition session_begins :: "croute \<Rightarrow> metric_call list" where
  "session_begins r =
     [(StreamSessionsTotal, [r_Name r, r_Mode r], Inc), (StreamSessionsActive, [r_Name r, r_Mode r], Inc)]"

definition session_ends :: "croute \<Rightarrow> metric_call list" where
  "session_ends r = [(StreamSessionsActive, [r_Name r, r_Mode r], Dec)]"

definition observeConn_metrics :: "croute \<Rightarrow> metric_call list" where
  "observeConn_metrics r = [(StreamBytes, [r_Name r, ''in''], Resolved), (StreamBytes, [r_Name r, ''out''], Resolved)]"

definition Read_metrics :: "croute \<Rightarrow> bytes \<Rightarrow> metric_call list" where
  "Read_metrics r p = (if p \<noteq> [] then [(StreamBytes, [r_Name r, ''in''], Added (int (length p)))] else [])"

definition Write_metrics :: "croute \<Rightarrow> nat \<Rightarrow> metric_call list" where
  "Write_metrics r n = (if n > 0 then [(StreamBytes, [r_Name r, ''out''], Added (int n))] else [])"

text \<open>The observer's \<^verbatim>\<open>finish\<close>, for an RPC it records.\<close>

definition rpc_metrics :: "rpc_metric \<Rightarrow> metric_call list" where
  "rpc_metrics rm =
     [(GRPCRPCs, [rm_route rm, rm_method rm, rm_code rm], Inc),
      (GRPCDuration, [rm_route rm, rm_method rm], Observed (rm_duration rm))]"

section \<open>The calls of the connector\<close>

text \<open>What \<^verbatim>\<open>run\<close> calls in a step of the tunnel client.\<close>

definition tunnel_metrics :: "string \<Rightarrow> tunnel_client \<Rightarrow> run_event \<Rightarrow> metric_call list" where
  "tunnel_metrics cid c ev =
     (case (tc_phase c, ev) of
        (RunDialing connectedAt, EvDialFailed ctxErr) \<Rightarrow>
          if ctxErr then [] else [(TunnelDials, [cid, ''failed''], Inc)]
      | (RunDialing connectedAt, EvDialed) \<Rightarrow>
          [(TunnelDials, [cid, ''connected''], Inc), (TunnelConnected, [cid], SetTo 1)]
      | (RunConnected a connectedAt, EvCtx) \<Rightarrow> [(TunnelConnected, [cid], SetTo 0)]
      | (RunConnected a connectedAt, EvRunDone now) \<Rightarrow> [(TunnelConnected, [cid], SetTo 0)]
      | _ \<Rightarrow> [])"

text \<open>A run of the client with its calls and the number of dials that failed before the context ended.\<close>

inductive tunnel_metered :: "string \<Rightarrow> tunnel_client \<Rightarrow> metric_call list \<Rightarrow> nat \<Rightarrow> bool" for cid where
  metered_new: "tunnel_metered cid new_tunnel_client [] 0"
| metered_step: "tunnel_metered cid c log n \<Longrightarrow> tunnel_run_step c ev = Some c' \<Longrightarrow>
    tunnel_metered cid c' (log @ tunnel_metrics cid c ev) (if ev = EvDialFailed False then Suc n else n)"
| metered_traffic: "tunnel_metered cid c log n \<Longrightarrow> a < length (tc_links c) \<Longrightarrow>
    tunnel_metered cid (c\<lparr>tc_links := (tc_links c)[a := l]\<rparr>) log n"

section \<open>The sessions of the edge and their calls\<close>

text \<open>
  A session is known by its route, the wrapped connection (none for a WebSocket) and whether its
  handler has returned. The list only grows. \<open>em_answered\<close> are the routes and statuses of the unary
  requests that were answered.
\<close>

record metered =
  mt_cfg :: croute
  mt_conn :: "observed_conn option"
  mt_ended :: bool

record edge_meters =
  em_sessions :: "metered list"
  em_answered :: "(string \<times> string) list"
  em_calls :: "metric_call list"

definition new_edge_meters :: edge_meters where
  "new_edge_meters = \<lparr>em_sessions = [], em_answered = [], em_calls = []\<rparr>"

text \<open>A session becomes another one, with the calls made meanwhile.\<close>

definition em_session :: "nat \<Rightarrow> metered \<Rightarrow> metric_call list \<Rightarrow> edge_meters \<Rightarrow> edge_meters" where
  "em_session i t calls s = s\<lparr>em_sessions := (em_sessions s)[i := t], em_calls := em_calls s @ calls\<rparr>"

text \<open>
  The steps of the handlers: a TCP, gRPC or WebSocket client whose session could be opened or not;
  a read from or a write to a connection; a turn of the observer's parsers; the end of a relay; an
  answered unary request.
\<close>

inductive edge_meter_step :: "croute list \<Rightarrow> edge_meters \<Rightarrow> edge_meters \<Rightarrow> bool" for routes where
  tcp_starts:
    "r \<in> set (tcpRoutes routes) \<Longrightarrow> handleTCPConn oc now r rand attempts = Some (st, ConnRelay a b relay) \<Longrightarrow>
     edge_meter_step routes s
       (s\<lparr>em_sessions := em_sessions s @ [\<lparr>mt_cfg = r, mt_conn = Some (observeConn r), mt_ended = False\<rparr>],
          em_calls := em_calls s @ session_begins r @ observeConn_metrics r\<rparr>)"
| ws_starts:
    "er \<in> set (wsRoutes routes) \<Longrightarrow>
     handleWebSocketRoute oc now er suffix upgraded rand attempts = Some (st, ConnRelay a b relay) \<Longrightarrow>
     edge_meter_step routes s
       (s\<lparr>em_sessions := em_sessions s @ [\<lparr>mt_cfg = er_cfg er, mt_conn = None, mt_ended = False\<rparr>],
          em_calls := em_calls s @ session_begins (er_cfg er)\<rparr>)"
| tcp_refused:
    "handleTCPConn oc now r rand attempts = Some (st, ConnRefused calls) \<Longrightarrow> edge_meter_step routes s s"
| ws_refused:
    "handleWebSocketRoute oc now er suffix upgraded rand attempts = Some (st, ConnRefused calls') \<Longrightarrow>
     edge_meter_step routes s s"
| conn_reads:
    "i < length (em_sessions s) \<Longrightarrow> em_sessions s ! i = t \<Longrightarrow> mt_conn t = Some c \<Longrightarrow>
     observed_Read (p, err :: read_error option) c = (c', res) \<Longrightarrow>
     edge_meter_step routes s (em_session i (t\<lparr>mt_conn := Some c'\<rparr>) (Read_metrics (mt_cfg t) p) s)"
| conn_writes:
    "i < length (em_sessions s) \<Longrightarrow> em_sessions s ! i = t \<Longrightarrow> mt_conn t = Some c \<Longrightarrow>
     observed_Write p (n, err :: unit option) c = (c', res') \<Longrightarrow>
     edge_meter_step routes s (em_session i (t\<lparr>mt_conn := Some c'\<rparr>) (Write_metrics (mt_cfg t) n) s)"
| rpc_parsed:
    "i < length (em_sessions s) \<Longrightarrow> em_sessions s ! i = t \<Longrightarrow> mt_conn t = Some c \<Longrightarrow> oc_observer c = Some ob \<Longrightarrow>
     ob' = observer_turn ob turn \<Longrightarrow>
     edge_meter_step routes s
       (em_session i (t\<lparr>mt_conn := Some (c\<lparr>oc_observer := Some ob'\<rparr>)\<rparr>)
          (concat (map rpc_metrics (drop (length (ob_metrics ob)) (ob_metrics ob')))) s)"
| session_returns:
    "i < length (em_sessions s) \<Longrightarrow> em_sessions s ! i = t \<Longrightarrow> \<not> mt_ended t \<Longrightarrow>
     edge_meter_step routes s
       (em_session i (t\<lparr>mt_conn := map_option observed_finish (mt_conn t), mt_ended := True\<rparr>)
          (session_ends (mt_cfg t)) s)"
| unary_served:
    "matched \<in> set (httpRoutes routes) \<Longrightarrow>
     edge_meter_step routes s
       (s\<lparr>em_answered := em_answered s @ [request_metric matched calls],
          em_calls := em_calls s @ unary_metrics matched calls elapsed\<rparr>)"

section \<open>What the calls add up to\<close>

text \<open>The share of a session in the sum of a series.\<close>

fun share :: "metric \<Rightarrow> string list \<Rightarrow> metered \<Rightarrow> int" where
  "share StreamSessionsTotal ls t = of_bool (ls = [r_Name (mt_cfg t), r_Mode (mt_cfg t)])"
| "share StreamSessionsActive ls t = of_bool (ls = [r_Name (mt_cfg t), r_Mode (mt_cfg t)] \<and> \<not> mt_ended t)"
| "share StreamBytes ls t =
     (case mt_conn t of
        None \<Rightarrow> 0
      | Some c \<Rightarrow>
          (if ls = [r_Name (mt_cfg t), ''in''] then int (oc_in c)
           else if ls = [r_Name (mt_cfg t), ''out''] then int (oc_out c) else 0))"
| "share GRPCRPCs ls t =
     (case Option.bind (mt_conn t) oc_observer of
        None \<Rightarrow> 0
      | Some ob \<Rightarrow> (\<Sum>m \<leftarrow> ob_metrics ob. of_bool (ls = [rm_route m, rm_method m, rm_code m])))"
| "share _ ls t = 0"

fun answered_share :: "metric \<Rightarrow> string list \<Rightarrow> (string \<times> string) list \<Rightarrow> int" where
  "answered_share HTTPRequests ls as = (\<Sum>(n, c) \<leftarrow> as. of_bool (ls = [n, c]))"
| "answered_share _ ls as = 0"

definition meters_agree :: "edge_meters \<Rightarrow> bool" where
  "meters_agree s \<longleftrightarrow>
     (\<forall>k ls. added (em_calls s) k ls = (\<Sum>t \<leftarrow> em_sessions s. share k ls t) + answered_share k ls (em_answered s))"

lemma sum_list_update_int: "i < length xs \<Longrightarrow> sum_list (map f (xs[i := y])) = sum_list (map f xs) - f (xs ! i) + (f y :: int)"
  by (induction xs arbitrary: i) (auto split: nat.split)

lemma meters_agree_session:
  assumes "meters_agree s" "i < length (em_sessions s)"
    and "\<And>k ls. added calls k ls = share k ls t - share k ls (em_sessions s ! i)"
  shows "meters_agree (em_session i t calls s)"
  using assms(1) sum_list_update_int [OF assms(2)] assms(3) by (simp add: meters_agree_def em_session_def)

lemma meters_agree_new_session:
  assumes "meters_agree s" "\<And>k ls. added calls k ls = share k ls t"
  shows "meters_agree (s\<lparr>em_sessions := em_sessions s @ [t], em_calls := em_calls s @ calls\<rparr>)"
  using assms by (simp add: meters_agree_def)

lemma added_rpcs:
  "added (concat (map rpc_metrics ms)) k ls =
     (if k = GRPCRPCs then (\<Sum>m \<leftarrow> ms. of_bool (ls = [rm_route m, rm_method m, rm_code m])) else 0)"
  by (induction ms) (auto simp: rpc_metrics_def)

text \<open>A turn of the observer only appends to what is recorded.\<close>

lemma observer_turn_metrics: "\<exists>ms. ob_metrics (observer_turn ob t) = ob_metrics ob @ ms"
  by (cases t) (auto simp: parseClient_turn_def parseBackend_turn_def observer_finish_def Let_def
      split: h2_frame.splits option.splits)

lemma edge_meter_step_agree:
  assumes "edge_meter_step routes s s'" "meters_agree s"
  shows "meters_agree s'"
  using assms
proof cases
  case (tcp_starts r)
  have "added (session_begins r @ observeConn_metrics r) k ls =
      share k ls \<lparr>mt_cfg = r, mt_conn = Some (observeConn r), mt_ended = False\<rparr>" for k ls
    by (cases k) (auto simp: session_begins_def observeConn_metrics_def observeConn_def new_observer_def)
  then show ?thesis using tcp_starts(1) meters_agree_new_session [OF assms(2)] by simp
next
  case (ws_starts er)
  have "added (session_begins (er_cfg er)) k ls = share k ls \<lparr>mt_cfg = er_cfg er, mt_conn = None, mt_ended = False\<rparr>" for k ls
    by (cases k) (auto simp: session_begins_def)
  then show ?thesis using ws_starts(1) meters_agree_new_session [OF assms(2)] by simp
next
  case (conn_reads i t c p err c' res)
  have "added (Read_metrics (mt_cfg t) p) k ls = share k ls (t\<lparr>mt_conn := Some c'\<rparr>) - share k ls t" for k ls
    using conn_reads
    by (cases k) (auto simp: Read_metrics_def observed_Read_def ClientBytes_def split: if_splits option.splits)
  then show ?thesis using conn_reads meters_agree_session [OF assms(2)] by simp
next
  case (conn_writes i t c p n err c' res)
  have "added (Write_metrics (mt_cfg t) n) k ls = share k ls (t\<lparr>mt_conn := Some c'\<rparr>) - share k ls t" for k ls
    using conn_writes
    by (cases k) (auto simp: Write_metrics_def observed_Write_def BackendBytes_def split: if_splits option.splits)
  then show ?thesis using conn_writes meters_agree_session [OF assms(2)] by simp
next
  case (rpc_parsed i t c ob ob' turn)
  obtain ms where ms: "ob_metrics ob' = ob_metrics ob @ ms" using observer_turn_metrics rpc_parsed by blast
  have "added (concat (map rpc_metrics ms)) k ls =
      share k ls (t\<lparr>mt_conn := Some (c\<lparr>oc_observer := Some ob'\<rparr>)\<rparr>) - share k ls t" for k ls
    using rpc_parsed ms by (cases k) (simp_all add: added_rpcs)
  then show ?thesis using rpc_parsed ms meters_agree_session [OF assms(2)] by simp
next
  case (session_returns i t)
  have "added (session_ends (mt_cfg t)) k ls =
      share k ls (t\<lparr>mt_conn := map_option observed_finish (mt_conn t), mt_ended := True\<rparr>) - share k ls t" for k ls
    using session_returns(4)
    by (cases k) (auto simp: session_ends_def observed_finish_def observer_Close_def Option.bind_eq_Some_conv
        split: option.splits)
  then show ?thesis using session_returns meters_agree_session [OF assms(2)] by simp
next
  case (unary_served matched calls elapsed)
  have "answered_share k ls (as @ [request_metric matched calls]) =
      answered_share k ls as + added (unary_metrics matched calls elapsed) k ls" for k ls as
    by (cases k) (auto simp: unary_metrics_def split: prod.split)
  then show ?thesis using unary_served assms(2) by (simp add: meters_agree_def)
qed simp_all

lemma edge_meters_agree: "(edge_meter_step routes)\<^sup>*\<^sup>* new_edge_meters s \<Longrightarrow> meters_agree s"
proof (induction rule: rtranclp_induct)
  case base
  have "answered_share k ls [] = 0" for k ls by (cases k) simp_all
  then show ?case by (simp add: meters_agree_def new_edge_meters_def)
next
  case (step s1 s2)
  then show ?case using edge_meter_step_agree by blast
qed

section \<open>Labels\<close>

text \<open>
  The policy for labels: as many values as the vector has labels, and nothing but names and modes of
  configured routes, directions, decimal status codes, method paths and status codes of gRPC.
\<close>

definition session_label :: "croute list \<Rightarrow> string \<Rightarrow> bool" where
  "session_label routes n \<longleftrightarrow> (\<exists>r \<in> set routes. n = r_Name r)"

fun edge_labels_ok :: "croute list \<Rightarrow> metric \<Rightarrow> string list \<Rightarrow> bool" where
  "edge_labels_ok routes HTTPRequests ls \<longleftrightarrow> (\<exists>r \<in> set routes. \<exists>code. ls = [r_Name r, itoa code])"
| "edge_labels_ok routes HTTPDuration ls \<longleftrightarrow> (\<exists>r \<in> set routes. ls = [r_Name r])"
| "edge_labels_ok routes StreamSessionsTotal ls \<longleftrightarrow> (\<exists>r \<in> set routes. ls = [r_Name r, r_Mode r])"
| "edge_labels_ok routes StreamSessionsActive ls \<longleftrightarrow> (\<exists>r \<in> set routes. ls = [r_Name r, r_Mode r])"
| "edge_labels_ok routes StreamBytes ls \<longleftrightarrow> (\<exists>r \<in> set routes. \<exists>d \<in> {''in'', ''out''}. ls = [r_Name r, d])"
| "edge_labels_ok routes GRPCRPCs ls \<longleftrightarrow>
     (\<exists>r \<in> set routes. \<exists>m code. ls = [r_Name r, m, code] \<and> method_allowed m \<and> code_allowed code)"
| "edge_labels_ok routes GRPCDuration ls \<longleftrightarrow> (\<exists>r \<in> set routes. \<exists>m. ls = [r_Name r, m] \<and> method_allowed m)"
| "edge_labels_ok routes _ ls \<longleftrightarrow> False"

fun edge_call_ok :: "croute list \<Rightarrow> metric_call \<Rightarrow> bool" where
  "edge_call_ok routes (k, ls, op) \<longleftrightarrow> edge_labels_ok routes k ls \<and> op_fits (fst (metric_vec k)) op"

text \<open>An observer records under the name of its route, with an allowed method and code.\<close>

definition observer_labels :: "string \<Rightarrow> observer \<Rightarrow> bool" where
  "observer_labels route ob \<longleftrightarrow>
     ob_route ob = route \<and> (\<forall>rpc \<in> snd ` set (ob_started ob). method_allowed (rp_method rpc)) \<and>
     (\<forall>m \<in> set (ob_metrics ob). rm_route m = route \<and> method_allowed (rm_method m) \<and> code_allowed (rm_code m))"

lemma edge_labels_length: "edge_labels_ok routes k ls \<Longrightarrow> length ls = length (snd (snd (metric_vec k)))"
  by (cases k) auto

lemma observer_labels_calls [simp]:
  "observer_labels route (ClientBytes p ob) = observer_labels route ob"
  "observer_labels route (BackendBytes p ob) = observer_labels route ob"
  "observer_labels route (observer_Close ob) = observer_labels route ob"
  by (simp_all add: observer_labels_def ClientBytes_def BackendBytes_def observer_Close_def)

lemma observer_labels_finish:
  assumes "observer_labels route ob" "code_allowed code"
  shows "observer_labels route (observer_finish now sid code ob)"
proof -
  have "set (AList.delete sid (ob_started ob)) \<subseteq> set (ob_started ob)" by (auto simp: AList.delete_eq)
  then show ?thesis
    using assms map_of_SomeD [of "ob_started ob" sid]
    by (fastforce simp: observer_labels_def observer_finish_def Let_def split: option.splits)
qed

lemma observer_labels_turn:
  assumes "observer_labels route ob"
  shows "observer_labels route (observer_turn ob t)"
proof (cases t)
  case (ClientTurn now f)
  have "set (AList.update sid x xs) \<subseteq> insert (sid, x) (set xs)" for sid and x :: rpcStart and xs
    by (induction xs) auto
  then have "snd ` set (AList.update sid x xs) \<subseteq> insert x (snd ` set xs)" for sid and x :: rpcStart and xs
    by fastforce
  moreover have "method_allowed (method_label path)" for path by (simp add: method_allowed_def method_label_def)
  ultimately show ?thesis
    using ClientTurn assms by (fastforce simp: observer_labels_def parseClient_turn_def split: h2_frame.splits)
next
  case (BackendTurn now f)
  have "code_allowed ''canceled''" by (simp add: code_allowed_def)
  then show ?thesis
    using BackendTurn assms observer_labels_finish statusCode_allowed
    by (auto simp: parseBackend_turn_def split: h2_frame.splits option.splits)
qed

definition meter_session_ok :: "croute list \<Rightarrow> metered \<Rightarrow> bool" where
  "meter_session_ok routes t \<longleftrightarrow>
     mt_cfg t \<in> set routes \<and>
     (\<forall>ob. Option.bind (mt_conn t) oc_observer = Some ob \<longrightarrow> observer_labels (r_Name (mt_cfg t)) ob)"

definition labels_ok :: "croute list \<Rightarrow> edge_meters \<Rightarrow> bool" where
  "labels_ok routes s \<longleftrightarrow> list_all (meter_session_ok routes) (em_sessions s) \<and> list_all (edge_call_ok routes) (em_calls s)"

lemma labels_ok_session:
  assumes "labels_ok routes s" "meter_session_ok routes t" "list_all (edge_call_ok routes) calls"
  shows "labels_ok routes (em_session i t calls s)"
  using assms set_update_subset_insert [of "em_sessions s" i t] by (auto simp: labels_ok_def em_session_def list_all_iff)

lemma route_sets:
  "set (tcpRoutes routes) \<subseteq> set routes" "er_cfg ` set (wsRoutes routes) \<subseteq> set routes"
  "er_cfg ` set (httpRoutes routes) \<subseteq> set routes"
proof -
  have "er_cfg ` set (http_routes_loop rs) \<subseteq> set rs" for rs
    by (induction rs) (auto simp: new_edge_route_def)
  then show "er_cfg ` set (httpRoutes routes) \<subseteq> set routes" by (simp add: httpRoutes_def sortRoutes_def)
qed (auto simp: tcpRoutes_def wsRoutes_def sortRoutes_def new_edge_route_def)

lemma edge_meter_step_labels:
  assumes "edge_meter_step routes s s'" "labels_ok routes s"
  shows "labels_ok routes s'"
  using assms
proof cases
  case (tcp_starts r)
  have "observer_labels (r_Name r) (new_observer (r_Name r))" by (simp add: observer_labels_def new_observer_def)
  then show ?thesis
    using tcp_starts(1,2) route_sets(1) [of routes] assms(2)
    by (auto simp: labels_ok_def meter_session_ok_def session_begins_def observeConn_metrics_def observeConn_def)
next
  case (ws_starts er)
  then show ?thesis
    using route_sets(2) [of routes] assms(2) by (auto simp: labels_ok_def meter_session_ok_def session_begins_def)
next
  case (unary_served matched calls elapsed)
  then show ?thesis
    using route_sets(3) [of routes] assms(2)
    by (auto simp: labels_ok_def unary_metrics_def request_metric_def)
next
  case (conn_reads i t c p err c' res)
  have t: "meter_session_ok routes t" using conn_reads assms(2) by (auto simp: labels_ok_def list_all_length)
  then have "meter_session_ok routes (t\<lparr>mt_conn := Some c'\<rparr>)"
    using conn_reads by (auto simp: meter_session_ok_def observed_Read_def split: if_splits)
  moreover have "list_all (edge_call_ok routes) (Read_metrics (mt_cfg t) p)"
    using t by (auto simp: Read_metrics_def meter_session_ok_def)
  ultimately show ?thesis using conn_reads(1) labels_ok_session [OF assms(2)] by simp
next
  case (conn_writes i t c p n err c' res)
  have t: "meter_session_ok routes t" using conn_writes assms(2) by (auto simp: labels_ok_def list_all_length)
  then have "meter_session_ok routes (t\<lparr>mt_conn := Some c'\<rparr>)"
    using conn_writes by (auto simp: meter_session_ok_def observed_Write_def split: if_splits)
  moreover have "list_all (edge_call_ok routes) (Write_metrics (mt_cfg t) n)"
    using t by (auto simp: Write_metrics_def meter_session_ok_def)
  ultimately show ?thesis using conn_writes(1) labels_ok_session [OF assms(2)] by simp
next
  case (rpc_parsed i t c ob ob' turn)
  have t: "meter_session_ok routes t" using rpc_parsed assms(2) by (auto simp: labels_ok_def list_all_length)
  then have ob: "observer_labels (r_Name (mt_cfg t)) ob'"
    using rpc_parsed observer_labels_turn by (auto simp: meter_session_ok_def)
  then have "meter_session_ok routes (t\<lparr>mt_conn := Some (c\<lparr>oc_observer := Some ob'\<rparr>)\<rparr>)"
    using t by (simp add: meter_session_ok_def)
  moreover have "list_all (edge_call_ok routes) (concat (map rpc_metrics (drop n (ob_metrics ob'))))" for n
    using ob t by (fastforce simp: observer_labels_def meter_session_ok_def list_all_iff rpc_metrics_def dest: in_set_dropD)
  ultimately show ?thesis using rpc_parsed(1) labels_ok_session [OF assms(2)] by simp
next
  case (session_returns i t)
  have t: "meter_session_ok routes t" using session_returns assms(2) by (auto simp: labels_ok_def list_all_length)
  then have "meter_session_ok routes (t\<lparr>mt_conn := map_option observed_finish (mt_conn t), mt_ended := True\<rparr>)"
    by (auto simp: meter_session_ok_def observed_finish_def Option.bind_eq_Some_conv)
  moreover have "list_all (edge_call_ok routes) (session_ends (mt_cfg t))"
    using t by (auto simp: session_ends_def meter_session_ok_def)
  ultimately show ?thesis using session_returns(1) labels_ok_session [OF assms(2)] by simp
qed (use assms(2) in simp_all)

lemma edge_labels: "(edge_meter_step routes)\<^sup>*\<^sup>* new_edge_meters s \<Longrightarrow> labels_ok routes s"
proof (induction rule: rtranclp_induct)
  case base
  then show ?case by (simp add: labels_ok_def new_edge_meters_def)
next
  case (step s1 s2)
  then show ?case using edge_meter_step_labels by blast
qed

section \<open>The tunnel client's metrics\<close>

fun tunnel_labels_ok :: "string \<Rightarrow> metric \<Rightarrow> string list \<Rightarrow> bool" where
  "tunnel_labels_ok cid TunnelConnected ls \<longleftrightarrow> ls = [cid]"
| "tunnel_labels_ok cid TunnelDials ls \<longleftrightarrow> ls = [cid, ''connected''] \<or> ls = [cid, ''failed'']"
| "tunnel_labels_ok cid _ ls \<longleftrightarrow> False"

definition tunnel_meters_ok :: "string \<Rightarrow> tunnel_client \<Rightarrow> metric_call list \<Rightarrow> nat \<Rightarrow> bool" where
  "tunnel_meters_ok cid c calls n \<longleftrightarrow>
     last_set calls TunnelConnected [cid] = (if tc_links c = [] then None else if connected c then Some 1 else Some 0) \<and>
     (has_series calls TunnelConnected [cid] \<longleftrightarrow> tc_links c \<noteq> []) \<and>
     added calls TunnelDials [cid, ''connected''] = int (length (tc_links c)) \<and>
     added calls TunnelDials [cid, ''failed''] = int n \<and>
     list_all (\<lambda>(k, ls, op). op_fits (fst (metric_vec k)) op \<and> tunnel_labels_ok cid k ls) calls"

lemma tunnel_metered_reach: "tunnel_metered cid c calls n \<Longrightarrow> tunnel_reach c"
  by (induction rule: tunnel_metered.induct) (auto intro: tunnel_reach.intros)

lemma tunnel_metered_ok: "tunnel_metered cid c calls n \<Longrightarrow> tunnel_meters_ok cid c calls n"
proof (induction rule: tunnel_metered.induct)
  case metered_new
  then show ?case by (simp add: tunnel_meters_ok_def new_tunnel_client_def)
next
  case (metered_step c calls n ev c')
  have "tunnel_client_ok c" by (rule tunnel_reach_ok [OF tunnel_metered_reach [OF metered_step(1)]])
  then show ?case
    using metered_step(2,3)
    by (cases "tc_phase c"; cases ev)
      (auto simp: tunnel_run_step_def tunnel_metrics_def tunnel_meters_ok_def tunnel_client_ok_def connected_def
        currentLink_def attemptDone_def setLink_def close_link_def Let_def split: if_splits)
next
  case (metered_traffic c calls n a l)
  then show ?case by (simp add: tunnel_meters_ok_def connected_def currentLink_def)
qed

section \<open>The bytes of an observed connection\<close>

text \<open>The call of the wrapped connection that a step of the edge's relay makes, if any.\<close>

definition meter_event :: "link \<Rightarrow> conn_call relay \<Rightarrow> conn_event \<Rightarrow> observed_conn \<Rightarrow> observed_conn" where
  "meter_event l r ev c =
     (case ev of
        RcRead payload err \<Rightarrow> fst (observed_Read (payload, err) c)
      | RcRecv werr now \<Rightarrow>
          (case s_recv (sess l (ry_addr r)) of
             [] \<Rightarrow> c
           | f # fs \<Rightarrow>
               if f_Type f \<noteq> FrameData then c
               else
                 let res = (case werr of None \<Rightarrow> (length (f_Payload f), None)
                            | Some k \<Rightarrow> (length (take k (f_Payload f)), Some ())) in
                 fst (observed_Write (f_Payload f) res c))
      | _ \<Rightarrow> c)"

text \<open>
  A run of two relays and the tunnel between them in which the first relay, the edge's, works on an
  observed connection.
\<close>

inductive metered_pipe_step ::
  "frame marshal \<Rightarrow> frame unmarshal \<Rightarrow> string \<Rightarrow>
   (conn_party \<times> conn_party) \<times> observed_conn \<Rightarrow> (conn_party \<times> conn_party) \<times> observed_conn \<Rightarrow> bool"
  for m u sid where
  edge_relay: "RelayConn_step m (pa_link x) (pa_state x) ev = Some (l', r') \<Longrightarrow>
    metered_pipe_step m u sid ((x, y), c)
      ((x\<lparr>pa_link := l', pa_state := r', pa_in := pa_in x @ event_input ev\<rparr>, y),
       meter_event (pa_link x) (pa_state x) ev c)"
| elsewhere: "conn_pipe_step m u sid (x, y) (x', y') \<Longrightarrow> pa_state x' = pa_state x \<Longrightarrow> pa_in x' = pa_in x \<Longrightarrow>
    metered_pipe_step m u sid ((x, y), c) ((x', y'), c)"

definition bytes_counted :: "conn_party \<Rightarrow> observed_conn \<Rightarrow> bool" where
  "bytes_counted x c \<longleftrightarrow> oc_in c = length (pa_in x) \<and> oc_out c = length (written (ry_log (pa_state x)))"

lemma meter_event_counts:
  assumes "RelayConn_step m l r ev = Some (l', r')"
  shows "oc_in (meter_event l r ev c) = oc_in c + length (event_input ev) \<and>
    oc_out (meter_event l r ev c) + length (written (ry_log r)) = oc_out c + length (written (ry_log r'))"
  using assms
proof (cases rule: RelayConn_cases)
  case (read payload err)
  then show ?thesis
    by (auto simp: meter_event_def observed_Read_def event_input_def conn_read_def split: if_splits option.splits)
next
  case (send pick now)
  then show ?thesis
    by (auto simp: meter_event_def event_input_def reader_send_def Let_def split: reader.splits option.splits)
next
  case result
  then show ?thesis
    by (auto simp: meter_event_def event_input_def conn_result_def finish_relay_def Let_def
        split: option.splits prod.splits if_splits)
next
  case (recv werr now)
  from recv(3) show ?thesis
    by (cases rule: conn_recv_cases)
      (auto simp: recv(1) meter_event_def event_input_def observed_Write_def finish_eq frame_type_defs)
next
  case (idle now)
  from idle(3) show ?thesis
    by (cases rule: relay_idle_cases) (simp_all add: idle(1) meter_event_def event_input_def finish_eq)
qed (simp_all add: meter_event_def event_input_def finish_eq)

lemma metered_pipe_ok:
  assumes "metered_pipe_step m u sid (s, c) (s', c')" "bytes_counted (fst s) c"
  shows "conn_pipe_step m u sid s s' \<and> bytes_counted (fst s') c'"
  using assms
proof cases
  case (edge_relay x ev l' r' y)
  then have "conn_pipe_step m u sid s s'" by (auto intro: pair_left party_own)
  then show ?thesis
    using edge_relay assms(2) meter_event_counts [OF edge_relay(4), of c] by (simp add: bytes_counted_def)
qed (use assms(2) in \<open>auto simp: bytes_counted_def\<close>)

lemma metered_pipe_run:
  assumes "(metered_pipe_step m u sid)\<^sup>*\<^sup>* (s0, c0) (s, c)" "bytes_counted (fst s0) c0"
  shows "(conn_pipe_step m u sid)\<^sup>*\<^sup>* s0 s \<and> bytes_counted (fst s) c"
  using assms
proof (induction "(s, c)" arbitrary: s c rule: rtranclp_induct)
  case (step z)
  obtain s1 c1 where z: "z = (s1, c1)" by fastforce
  then show ?case
    using step(3) [OF z] metered_pipe_ok [of m u sid s1 c1 s c] step(2,4) by auto
qed auto

section \<open>Properties\<close>

lemma count_sessions: "(\<Sum>t \<leftarrow> ts. of_bool (P t)) = int (length (filter P ts))"
  by (induction ts) auto

lemma count_answered: "answered_share HTTPRequests [n, code] as = int (count_list as (n, code))"
  by (induction as) auto


text \<open>A client of the TCP route connects, the connector accepts, and two bytes are read.\<close>

definition sample_meter_codecs :: open_codecs where
  "sample_meter_codecs =
     sample_codecs\<lparr>oc_response := (\<lambda>_. Inr \<lparr>os_Version = 1, os_RequestID = ''61'', os_Accepted = True,
                                             os_ConnectorID = ''c1'', os_Error = []\<rparr>)\<rparr>"

definition sample_metered :: "observed_conn \<Rightarrow> metered" where
  "sample_metered c = \<lparr>mt_cfg = sample_tcp, mt_conn = Some c, mt_ended = False\<rparr>"

lemma sample_meter_run:
  "(edge_meter_step [sample_tcp])\<^sup>*\<^sup>* new_edge_meters
     \<lparr>em_sessions = [sample_metered (fst (observed_Read (''hi'', None :: read_error option) (observeConn sample_tcp)))],
      em_answered = [],
      em_calls = session_begins sample_tcp @ observeConn_metrics sample_tcp @ Read_metrics sample_tcp ''hi''\<rparr>"
  (is "_ \<^sup>*\<^sup>* _ ?s2")
proof -
  let ?h = "handleTCPConn sample_meter_codecs 0 sample_tcp (Some ''a'') [(sample_edge_state, sample_nats, False)]"
  let ?s1 = "\<lparr>em_sessions = [sample_metered (observeConn sample_tcp)], em_answered = [],
    em_calls = session_begins sample_tcp @ observeConn_metrics sample_tcp\<rparr>"
  have "case ?h of Some (_, ConnRelay _ _ _) \<Rightarrow> True | _ \<Rightarrow> False" by code_simp
  then obtain st a b relay where h: "?h = Some (st, ConnRelay a b relay)"
    by (cases ?h) (auto split: prod.splits conn_start.splits)
  have "sample_tcp \<in> set (tcpRoutes [sample_tcp])" by (simp add: tcpRoutes_def sample_tcp_def ModeTCP_def)
  from tcp_starts [OF this h, of new_edge_meters] have "edge_meter_step [sample_tcp] new_edge_meters ?s1"
    by (simp add: new_edge_meters_def sample_metered_def)
  moreover obtain c' res where r: "observed_Read (''hi'', None :: read_error option) (observeConn sample_tcp) = (c', res)"
    by (rule prod.exhaust)
  have "edge_meter_step [sample_tcp] ?s1 ?s2"
    using conn_reads [where s = ?s1 and i = 0 and t = "sample_metered (observeConn sample_tcp)" and routes = "[sample_tcp]",
        OF _ _ _ r] r
    by (simp add: em_session_def sample_metered_def)
  ultimately show ?thesis by simp
qed


text \<open>
  C30. Metrics reveal nothing of the traffic, and no call on them can panic on its labels. Every call
  the edge makes has as many label values as its vector has labels, is a method of that kind of
  vector, and its label values are the name or mode of a configured route, a direction, a decimal
  status, a method path or \<^verbatim>\<open>other\<close>, or a gRPC status: no body, header value or token.
\<close>

theorem metrics_reveal_no_traffic:
  assumes "(edge_meter_step routes)\<^sup>*\<^sup>* new_edge_meters s" "(k, ls, op) \<in> set (em_calls s)"
  shows "length ls = length (snd (snd (metric_vec k))) \<and> op_fits (fst (metric_vec k)) op \<and> edge_labels_ok routes k ls"
proof -
  have "edge_call_ok routes (k, ls, op)"
    using edge_labels [OF assms(1)] assms(2) unfolding labels_ok_def list_all_iff by blast
  then show ?thesis using edge_labels_length [of routes k ls] by simp
qed

theorem metrics_reveal_no_traffic_witness:
  "edge_labels_ok [sample_tcp] StreamBytes [r_Name sample_tcp, ''in'']"
  using metrics_reveal_no_traffic [OF sample_meter_run, of StreamBytes "[r_Name sample_tcp, ''in'']" Resolved]
  by (simp add: observeConn_metrics_def)

text \<open>
  C29. The metrics of the tunnel say what its state is. In every reachable state of the tunnel client
  the gauge was last set to 1 if it is connected and to 0 if it was connected before; the counters
  of dials are the numbers of tunnels that came up and of dials that failed before the context
  ended; every call has the labels of its vector, which name the connector. A client that has never
  connected has no series of the gauge at all: the documented alert \<^verbatim>\<open>airpc_tunnel_connected == 0\<close>
  cannot fire for it.
\<close>

theorem tunnel_gauge_exact:
  assumes "tunnel_metered cid c calls failed"
  shows "last_set calls TunnelConnected [cid] = (if tc_links c = [] then None else if connected c then Some 1 else Some 0) \<and>
    (has_series calls TunnelConnected [cid] \<longleftrightarrow> tc_links c \<noteq> []) \<and>
    added calls TunnelDials [cid, ''connected''] = int (length (tc_links c)) \<and>
    added calls TunnelDials [cid, ''failed''] = int failed \<and>
    list_all (\<lambda>(k, ls, op). op_fits (fst (metric_vec k)) op \<and> tunnel_labels_ok cid k ls) calls"
  using tunnel_metered_ok [OF assms] by (simp add: tunnel_meters_ok_def)

theorem tunnel_gauge_exact_witness:
  "\<exists>c calls. tunnel_metered ''c1'' c calls 1 \<and> tc_phase c = RunTop \<and> \<not> has_series calls TunnelConnected [''c1''] \<and>
     added calls TunnelDials [''c1'', ''failed''] = 1"
proof -
  let ?c1 = "new_tunnel_client\<lparr>tc_phase := RunDialing 7\<rparr>"
  let ?c2 = "(attemptDone ?c1)\<lparr>tc_backoff := nextBackoff 0, tc_phase := RunTop\<rparr>"
  have "tunnel_run_step new_tunnel_client (EvTop 7) = Some ?c1"
    by (simp add: tunnel_run_step_def new_tunnel_client_def)
  from tunnel_metered.metered_step [OF metered_new this, of "''c1''"] have "tunnel_metered ''c1'' ?c1 [] 0"
    by (simp add: tunnel_metrics_def new_tunnel_client_def)
  moreover have "tunnel_run_step ?c1 (EvDialFailed False) = Some ?c2"
    by (simp add: tunnel_run_step_def new_tunnel_client_def attemptDone_def Let_def)
  ultimately have m: "tunnel_metered ''c1'' ?c2 (tunnel_metrics ''c1'' ?c1 (EvDialFailed False)) 1"
    using tunnel_metered.metered_step [of "''c1''" ?c1 "[]" 0 "EvDialFailed False" ?c2] by simp
  have "tc_links ?c2 = []" "tc_phase ?c2 = RunTop" by (simp_all add: new_tunnel_client_def attemptDone_def)
  then show ?thesis
    using m tunnel_gauge_exact [OF m]
    by (intro exI [of _ ?c2] exI [of _ "tunnel_metrics ''c1'' ?c1 (EvDialFailed False)"]) simp
qed

text \<open>
  C28. The byte counters of a connection bound what reached the two ends. In every run of the edge's
  relay on an observed connection, the tunnel and the connector's relay, the counter of direction
  \<^verbatim>\<open>in\<close> is the number of bytes read from the client and at least what was written to the backend,
  and the counter of direction \<^verbatim>\<open>out\<close> is the number of bytes written to the client, short writes
  included, and at most what was read from the backend.
\<close>

theorem edge_bytes_accounted:
  assumes "codec_inverse m u" "pipe_start u sid (x0, y0)" "x0 = \<lparr>pa_link = l, pa_state = new_relay a i t, pa_in = []\<rparr>"
    and "(metered_pipe_step m u sid)\<^sup>*\<^sup>* ((x0, y0), observeConn r) ((x, y), c)"
  shows "oc_in c = length (pa_in x) \<and> oc_out c = length (written (ry_log (pa_state x))) \<and>
    length (written (ry_log (pa_state y))) \<le> oc_in c \<and> oc_out c \<le> length (pa_in y)"
proof -
  have "bytes_counted x0 (observeConn r)" using assms(3) by (simp add: bytes_counted_def observeConn_def new_relay_def)
  then have run: "(conn_pipe_step m u sid)\<^sup>*\<^sup>* (x0, y0) (x, y)" and counted: "bytes_counted x c"
    using metered_pipe_run [OF assms(4)] by auto
  obtain e where e: "system_inv u sid e" "conn_pair.pair_matches (x0, y0) e" using pipe_start_pair [OF assms(2)] by blast
  obtain r1 r2 where "pa_in x = written (ry_log (pa_state y)) @ r1" "pa_in y = written (ry_log (pa_state x)) @ r2"
    using conn_pair.transparent [OF assms(1) e run] conn_pair.transparent_back [OF assms(1) e run]
    by (auto simp: conn_out_def)
  then show ?thesis using counted by (simp add: bytes_counted_def)
qed

theorem edge_bytes_accounted_witness:
  "\<exists>x c. (metered_pipe_step sample_marshal sample_unmarshal ''s'')\<^sup>*\<^sup>* (sample_pipe, observeConn sample_tcp) ((x, snd sample_pipe), c) \<and>
     pa_in x = ''hi'' \<and> oc_in c = 2"
proof -
  let ?start = "fst sample_pipe" and ?y = "snd sample_pipe"
  let ?r = "(pa_state ?start)\<lparr>ry_reader := Sending DataBinary ''hi'' None\<rparr>"
  let ?x = "?start\<lparr>pa_link := pa_link ?start, pa_state := ?r, pa_in := pa_in ?start @ ''hi''\<rparr>"
  have step: "RelayConn_step sample_marshal (pa_link ?start) (pa_state ?start) (RcRead ''hi'' None) = Some (pa_link ?start, ?r)"
    by (simp add: RelayConn_step_def conn_read_def sample_pipe_def new_relay_def)
  obtain c where run: "(metered_pipe_step sample_marshal sample_unmarshal ''s'')\<^sup>*\<^sup>*
      ((?start, ?y), observeConn sample_tcp) ((?x, ?y), c)"
    using edge_relay [OF step, of sample_unmarshal "''s''" ?y "observeConn sample_tcp"] by (auto simp: event_input_def)
  have x0: "?start = \<lparr>pa_link = ep_link sample_edge, pa_state = new_relay 0 0 0, pa_in = []\<rparr>" by (simp add: sample_pipe_def)
  have "pipe_start sample_unmarshal ''s'' (?start, ?y)" using sample_pipe_start by simp
  from edge_bytes_accounted [OF sample_codec this x0 run] have "oc_in c = length (pa_in ?x)" by simp
  moreover have "pa_in ?x = ''hi''" by (simp add: x0)
  ultimately show ?thesis using run by (intro exI [of _ ?x] exI [of _ c]) simp
qed

end
