(* ===== verification/Command_Line.thy ===== *)
theory Command_Line
  imports Edge_Server Connector_Start
begin

text \<open>
  \<^verbatim>\<open>cmd/airpc/main.go\<close>: the commands, with the parts of the \<^verbatim>\<open>flag\<close> package they use (string flags). A
  command line is refused or leads to one of the two \<^verbatim>\<open>Run\<close> functions with a configuration; the
  file system and the YAML decoder are arguments.

  The lemmas state which command lines start what, and that everything started is validated.
\<close>

section \<open>The flag package\<close>

datatype flag_error =
    FlagSyntax string | FlagHelp | FlagUndefined string | FlagNeedsArgument string | FlagBadValue string string

definition flag_split :: "string \<Rightarrow> string \<times> string option" where
  "flag_split name =
     (let k = takeWhile (\<lambda>c. c \<noteq> CHR ''='') name in
      if length k < length name then (k, Some (drop (length k + 1) name)) else (name, None))"

text \<open>
  \<^verbatim>\<open>FlagSet.Parse\<close>: the values, and the arguments that are left. \<open>ok\<close> says which texts a flag accepts; a
  string flag accepts all.
\<close>

fun parse_flags_with ::
  "(string \<Rightarrow> string \<Rightarrow> bool) \<Rightarrow> string list \<Rightarrow> (string \<times> string) list \<Rightarrow> string list \<Rightarrow>
   (flag_error, (string \<times> string) list \<times> string list) result" where
  "parse_flags_with ok defined vals [] = Inr (vals, [])"
| "parse_flags_with ok defined vals (s # args) =
     (if length s < 2 \<or> hd s \<noteq> CHR ''-'' then Inr (vals, s # args)
      else if s = ''--'' then Inr (vals, args)
      else
        (let name = (if s ! 1 = CHR ''-'' then drop 2 s else drop 1 s) in
         if name = [] \<or> hd name = CHR ''-'' \<or> hd name = CHR ''='' then Inl (FlagSyntax s)
         else
           (case flag_split name of
              (key, val) \<Rightarrow>
                if key \<notin> set defined then
                  Inl (if key = ''help'' \<or> key = ''h'' then FlagHelp else FlagUndefined key)
                else
                  (case val of
                     Some v \<Rightarrow>
                       if \<not> ok key v then Inl (FlagBadValue key v)
                       else parse_flags_with ok defined (AList.update key v vals) args
                   | None \<Rightarrow>
                       (case args of
                          [] \<Rightarrow> Inl (FlagNeedsArgument key)
                        | v # rest \<Rightarrow>
                            if \<not> ok key v then Inl (FlagBadValue key v)
                            else parse_flags_with ok defined (AList.update key v vals) rest)))))"

abbreviation parse_flags ::
  "string list \<Rightarrow> (string \<times> string) list \<Rightarrow> string list \<Rightarrow> (flag_error, (string \<times> string) list \<times> string list) result" where
  "parse_flags \<equiv> parse_flags_with (\<lambda>_ _. True)"

definition flag_value :: "(string \<times> string) list \<Rightarrow> string \<Rightarrow> string" where
  "flag_value vals key = (case map_of vals key of None \<Rightarrow> [] | Some v \<Rightarrow> v)"

section \<open>The commands\<close>

datatype cli_error =
    MissingCommand | UnknownCommand string | MissingSubcommand string | UnknownSubcommand string string
  | FlagFailed flag_error | PositionalArguments string | RequiresConfig string | RequiresID
  | InvalidID config_error | LoadFailed config_error

datatype cli_command = StartEdge config | StartConnector config string

type_synonym config_loader = "string \<Rightarrow> (config_error, config) result"

definition runEdge :: "config_loader \<Rightarrow> string list \<Rightarrow> (cli_error, cli_command) result" where
  "runEdge load args =
     (case args of
        [] \<Rightarrow> Inl (MissingSubcommand ''edge'')
      | sub # rest \<Rightarrow>
          if sub \<noteq> ''start'' then Inl (UnknownSubcommand ''edge'' sub)
          else
            (case parse_flags [''config''] [] rest of
               Inl e \<Rightarrow> Inl (FlagFailed e)
             | Inr (vals, extra) \<Rightarrow>
                 (let configPath = flag_value vals ''config'' in
                  if length extra \<noteq> 0 then Inl (PositionalArguments ''edge'')
                  else if configPath = [] then Inl (RequiresConfig ''edge'')
                  else (case load configPath of
                      Inl e \<Rightarrow> Inl (LoadFailed e)
                    | Inr cfg \<Rightarrow> Inr (StartEdge cfg)))))"

definition runConnector :: "config_loader \<Rightarrow> string list \<Rightarrow> (cli_error, cli_command) result" where
  "runConnector load args =
     (case args of
        [] \<Rightarrow> Inl (MissingSubcommand ''connector'')
      | sub # rest \<Rightarrow>
          if sub \<noteq> ''start'' then Inl (UnknownSubcommand ''connector'' sub)
          else
            (case parse_flags [''config'', ''id''] [] rest of
               Inl e \<Rightarrow> Inl (FlagFailed e)
             | Inr (vals, extra) \<Rightarrow>
                 (let configPath = flag_value vals ''config''; connectorID = flag_value vals ''id'' in
                  if length extra \<noteq> 0 then Inl (PositionalArguments ''connector'')
                  else if configPath = [] then Inl (RequiresConfig ''connector'')
                  else if connectorID = [] then Inl RequiresID
                  else (case ValidateSubjectToken ''connector id'' connectorID of
                      Some e \<Rightarrow> Inl (InvalidID e)
                    | None \<Rightarrow>
                        (case load configPath of
                           Inl e \<Rightarrow> Inl (LoadFailed e)
                         | Inr cfg \<Rightarrow> Inr (StartConnector cfg connectorID))))))"

definition run_command :: "config_loader \<Rightarrow> string list \<Rightarrow> (cli_error, cli_command) result" where
  "run_command load args =
     (case args of
        [] \<Rightarrow> Inl MissingCommand
      | cmd # rest \<Rightarrow>
          if cmd = ''edge'' then runEdge load rest
          else if cmd = ''connector'' then runConnector load rest
          else Inl (UnknownCommand cmd))"

section \<open>Lemmas\<close>

lemma LoadFile_valid: "LoadFile rd dec path = Inr cfg \<Longrightarrow> Config_Validate cfg = None"
  by (auto simp: LoadFile_def Load_def split: sum.splits option.splits)

lemma run_connector_ok:
  assumes "run_command load args = Inr (StartConnector cfg connectorID)"
  shows "ValidateSubjectToken ''connector id'' connectorID = None" "\<exists>path. load path = Inr cfg"
  using assms
  by (auto simp: run_command_def runEdge_def runConnector_def Let_def
      split: list.splits if_splits sum.splits option.splits)

lemma run_edge_ok:
  assumes "run_command load args = Inr (StartEdge cfg)"
  shows "\<exists>path. load path = Inr cfg"
  using assms
  by (auto simp: run_command_def runEdge_def runConnector_def Let_def
      split: list.splits if_splits sum.splits option.splits)

lemma edge_Start_token: "edge_Start env cfg = (os, Inr sv) \<Longrightarrow> sv_token sv = cn_TunnelToken (c_Connector cfg)"
  by (auto simp: edge_Start_def Let_def split: prod.splits option.splits sum.splits)

lemma connector_Start_dial:
  "connector_Start env connectorID cfg = (os, Inr c) \<Longrightarrow> tunnel_dial_url (c_Connector cfg) connectorID = Some (co_dialURL c)"
  by (auto simp: connector_Start_def startTunnelClient_def Let_def split: prod.splits option.splits sum.splits)

section \<open>Properties\<close>


definition sample_read_file :: "string \<Rightarrow> string + bytes" where
  "sample_read_file path = (if path = ''airpc.yaml'' then Inr ''yaml'' else Inl ''no such file'')"

definition sample_yaml :: "bytes \<Rightarrow> string + config" where
  "sample_yaml b = Inr sample_config"

lemma sample_load: "LoadFile sample_read_file sample_yaml ''airpc.yaml'' = Inr sample_config"
  by (simp add: LoadFile_def Load_def sample_read_file_def sample_yaml_def sample_config_valid)

lemma sample_commands:
  "run_command (LoadFile sample_read_file sample_yaml)
     [''connector'', ''start'', ''--config'', ''airpc.yaml'', ''-id=c1''] = Inr (StartConnector sample_config ''c1'')"
  "run_command (LoadFile sample_read_file sample_yaml) [''edge'', ''start'', ''--config=airpc.yaml''] =
     Inr (StartEdge sample_config)"
proof -
  have "ValidateSubjectToken ''connector id'' ''c1'' = None" by code_simp
  then show "run_command (LoadFile sample_read_file sample_yaml)
     [''connector'', ''start'', ''--config'', ''airpc.yaml'', ''-id=c1''] = Inr (StartConnector sample_config ''c1'')"
    by (simp add: run_command_def runConnector_def flag_split_def flag_value_def sample_load)
  show "run_command (LoadFile sample_read_file sample_yaml) [''edge'', ''start'', ''--config=airpc.yaml''] =
     Inr (StartEdge sample_config)"
    by (simp add: run_command_def runEdge_def flag_split_def flag_value_def sample_load)
qed


text \<open>
  The command line decides by its flags alone. A flag may be written with one dash or two,
  with its value after an equals sign or as the next argument, and the last one wins; a
  command is refused, whatever the files hold, without a configuration path, for a connector
  without a valid id, or with positional arguments, and otherwise the outcome is that of
  loading the file.
\<close>

theorem cli_flag_forms:
  assumes "path \<noteq> []"
  shows "(\<forall>flags \<in> {[''--config'', path], [''-config'', path], [''--config='' @ path], [''-config='' @ path],
                [''-config'', ''other'', ''--config'', path]}.
      run_command load (''edge'' # ''start'' # flags) =
        (case load path of Inl e \<Rightarrow> Inl (LoadFailed e) | Inr cfg \<Rightarrow> Inr (StartEdge cfg)) \<and>
      run_command load (''connector'' # ''start'' # flags) = Inl RequiresID \<and>
      run_command load (''edge'' # ''start'' # flags @ [''extra'']) = Inl (PositionalArguments ''edge'')) \<and>
    run_command load [''edge'', ''start''] = Inl (RequiresConfig ''edge'')"
  using assms
  by (simp add: run_command_def runEdge_def runConnector_def flag_split_def flag_value_def)

theorem cli_flag_forms_witness:
  "run_command (LoadFile sample_read_file sample_yaml) (''connector'' # ''start'' # [''-config'', ''airpc.yaml'']) = Inl RequiresID"
  using cli_flag_forms [of "''airpc.yaml''" "LoadFile sample_read_file sample_yaml"] by simp

end
