(* ===== verification/E2e_Program.thy ===== *)
theory E2e_Program
  imports Command_Line
begin

text \<open>
  \<^verbatim>\<open>cmd/airpc-e2e/main.go\<close>, the program the compose stack tests airpc with: four backends and the
  checks a client makes against the edge. The checks are functions of the network: what an HTTP
  request is answered, and connections as values with the functions that write to and read from
  them. A backend is a function from what it receives to what it sends.

  The lemmas show that every check accepts its backend over a transparent connection; that the
  HTTP check passes through the edge and the connector is shown in \<open>E2e_Checks\<close>.
\<close>

section \<open>Requests of the client\<close>

text \<open>
  \<^verbatim>\<open>http.NewRequest\<close> and what the server sees of the request: the URL must parse, its host is the
  request's, and an empty path is sent as a slash.
\<close>

definition new_request :: "string \<Rightarrow> string \<Rightarrow> header \<Rightarrow> bytes \<Rightarrow> http_request option" where
  "new_request method raw h body =
     map_option (\<lambda>u. \<lparr>hq_Method = method, hq_Host = u_Host u,
                      hq_Path = (if u_Path u = [] then ''/'' else u_Path u), hq_RawQuery = u_RawQuery u,
                      hq_Header = h, hq_TLS = (u_Scheme u = ''https''),
                      hq_Body = \<lparr>hb_data = body, hb_fails = False\<rparr>\<rparr>) (Url_Parse raw)"

text \<open>\<^verbatim>\<open>URL.RequestURI\<close> on the server, of a path whose encoding is the default one.\<close>

definition path_escape :: "string \<Rightarrow> string" where
  "path_escape s =
     concat (map (\<lambda>c. if shouldEscape encodePath c
                      then [CHR ''%'', upperhex (of_char c div 16), upperhex (of_char c mod 16)] else [c]) s)"

definition RequestURI :: "http_request \<Rightarrow> string" where
  "RequestURI r =
     (let path = (if hq_Path r = ''*'' then ''*'' else path_escape (hq_Path r)) in
      withQuery (if path = [] then ''/'' else path) (hq_RawQuery r))"

section \<open>The backends\<close>

text \<open>\<^verbatim>\<open>serveHTTPBackend\<close>'s handler.\<close>

definition http_backend :: "http_request \<Rightarrow> http_reply" where
  "http_backend r =
     (if hb_fails (hq_Body r) then http_Error ''read body'' 400
      else
        let body = hb_data (hq_Body r) in
        if hq_Path r \<noteq> ''/api/echo'' \<or> hq_RawQuery r \<noteq> ''x=1&y=two'' then
          http_Error (''unexpected path or query: '' @ RequestURI r) 400
        else if hq_Method r \<noteq> ''POST'' \<or> body \<noteq> ''hello-http'' then
          http_Error ''unexpected method or body'' 400
        else if header_Get (hq_Header r) ''X-Airpc-Test'' \<noteq> ''allowed'' \<or>
                header_Get (hq_Header r) ''X-Blocked'' \<noteq> [] \<or>
                header_Get (hq_Header r) ''Authorization'' \<noteq> [] then
          http_Error ''unexpected forwarded headers'' 400
        else
          \<lparr>hr_status = 201,
           hr_header = header_Set (header_Set [] ''X-Backend-Header'' ''preserved'') ''Connection'' ''close'',
           hr_body = ''http-ok:'' @ RequestURI r @ '':'' @ body @ '':'' @
             header_Get (hq_Header r) ''X-Airpc-Test''\<rparr>)"

text \<open>
  The TCP backend's \<^verbatim>\<open>io.Copy(conn, conn)\<close>: a read returns data or an error or both, and the write
  of the data succeeds or fails after some bytes.
\<close>

fun io_Copy :: "(bytes \<times> bool \<times> nat option) list \<Rightarrow> bytes" where
  "io_Copy [] = []"
| "io_Copy ((p, readEnds, werr) # reads) =
     (if p \<noteq> [] then
        (case werr of
           Some k \<Rightarrow> take k p
         | None \<Rightarrow> p @ (if readEnds then [] else io_Copy reads))
      else if readEnds then [] else io_Copy reads)"

text \<open>The WebSocket backend: the messages it reads until an error, each with whether its echo is written.\<close>

fun ws_backend :: "(ws_type \<times> bytes \<times> bool) list \<Rightarrow> (ws_type \<times> bytes) list" where
  "ws_backend [] = []"
| "ws_backend ((t, p, ok) # reads) =
     (if t \<noteq> WsText \<and> t \<noteq> WsBinary then ws_backend reads
      else if \<not> ok then [] else (t, p) # ws_backend reads)"

text \<open>Its handler, which only serves connections that could be upgraded.\<close>

definition serveWebSocketBackend :: "bool \<Rightarrow> (ws_type \<times> bytes \<times> bool) list \<Rightarrow> (ws_type \<times> bytes) list" where
  "serveWebSocketBackend upgraded reads = (if \<not> upgraded then [] else ws_backend reads)"

text \<open>
  The gRPC backend: the unary method with the decoding of its argument and an optional
  interceptor, and the stream, which gets messages until the end or an error.
\<close>

definition grpc_Unary :: "string \<Rightarrow> string" where
  "grpc_Unary v = ''grpc-unary:'' @ v"

definition grpc_unary_handler ::
  "('e + string) \<Rightarrow> (string \<Rightarrow> (string \<Rightarrow> string) \<Rightarrow> string) option \<Rightarrow> 'e + string" where
  "grpc_unary_handler dec interceptor =
     (case dec of
        Inl e \<Rightarrow> Inl e
      | Inr req \<Rightarrow> Inr (case interceptor of None \<Rightarrow> grpc_Unary req | Some i \<Rightarrow> i req grpc_Unary))"

datatype 'e recv_end = RecvEOF | RecvError 'e

fun grpc_Chat :: "('e recv_end + string \<times> 'e option) list \<Rightarrow> string list \<times> 'e option option" where
  "grpc_Chat [] = ([], None)"
| "grpc_Chat (Inl RecvEOF # msgs) = ([], Some None)"
| "grpc_Chat (Inl (RecvError e) # msgs) = ([], Some (Some e))"
| "grpc_Chat (Inr (v, sendErr) # msgs) =
     (case sendErr of
        Some e \<Rightarrow> ([], Some (Some e))
      | None \<Rightarrow> (let (out, res) = grpc_Chat msgs in ((''grpc-stream:'' @ v) # out, res)))"

text \<open>
  The service the backend registers. A gRPC server routes a call by its path, the names of the
  service and of the method, to the handler of a unary method or of a stream; a stream says whether
  the server and the client send streams.
\<close>

record service_desc =
  sd_ServiceName :: string
  sd_Methods :: "string list"
  sd_Streams :: "(string \<times> bool \<times> bool) list"

definition echo_service :: service_desc where
  "echo_service = \<lparr>sd_ServiceName = ''airpc.e2e.Echo'', sd_Methods = [''Unary''], sd_Streams = [(''Chat'', True, True)]\<rparr>"

definition full_method :: "service_desc \<Rightarrow> string \<Rightarrow> string" where
  "full_method sd name = ''/'' @ sd_ServiceName sd @ ''/'' @ name"

section \<open>The checks\<close>

datatype e2e_error =
    NetError
  | HttpStatus int | HttpBody bytes | HttpHeader string | HopByHopForwarded | LargeRequestStatus int
  | HttpNotDown int | WsEcho ws_type bytes | WsStayedOpen | TcpMismatch nat | TcpEchoedDown
  | GrpcUnaryResponse string | GrpcStreamResponse string | GrpcSucceededDown
  | Reachable string | HealthNotReady string | CheckFailed string e2e_error
  | NoCommand | NoSuchCommand string | BadFlags flag_error | BackendFlags | UnsupportedMode string
  | UnreachableArgs

type_synonym http_do = "http_request \<Rightarrow> string + backend_response"

definition defaultBaseURL :: string where "defaultBaseURL = ''http://edge:8080''"
definition defaultTCPAddr :: string where "defaultTCPAddr = ''edge:7000''"
definition defaultWSURL :: string where "defaultWSURL = ''ws://edge:8080/ws''"
definition defaultGRPCAddr :: string where "defaultGRPCAddr = ''edge:7003''"

definition echo_url :: "string \<Rightarrow> string" where
  "echo_url baseURL = TrimRight baseURL CHR ''/'' @ ''/http/api/echo?x=1&y=two''"

definition check_header :: header where
  "check_header =
     header_Set (header_Set (header_Set (header_Set (header_Set []
       ''Content-Type'' ''text/plain'') ''X-Airpc-Test'' ''allowed'') ''X-Blocked'' ''must-not-forward'')
       ''Authorization'' ''must-not-forward'') ''Connection'' ''keep-alive''"

text \<open>The request that is too large: 128 bytes.\<close>

definition check_large :: "http_do \<Rightarrow> string \<Rightarrow> e2e_error option" where
  "check_large client baseURL =
     (case new_request ''POST'' (echo_url baseURL) [] (replicate 128 CHR ''x'') of
        None \<Rightarrow> Some NetError
      | Some req \<Rightarrow>
          (case client req of
             Inl _ \<Rightarrow> Some NetError
           | Inr resp \<Rightarrow> if br_Status resp \<noteq> 413 then Some (LargeRequestStatus (br_Status resp)) else None))"

definition checkHTTP :: "http_do \<Rightarrow> string \<Rightarrow> e2e_error option" where
  "checkHTTP client baseURL =
     (case new_request ''POST'' (echo_url baseURL) check_header ''hello-http'' of
        None \<Rightarrow> Some NetError
      | Some req \<Rightarrow>
          (case client req of
             Inl _ \<Rightarrow> Some NetError
           | Inr resp \<Rightarrow>
               if hb_fails (br_Body resp) then Some NetError
               else if br_Status resp \<noteq> 201 then Some (HttpStatus (br_Status resp))
               else if hb_data (br_Body resp) \<noteq> ''http-ok:/api/echo?x=1&y=two:hello-http:allowed'' then
                 Some (HttpBody (hb_data (br_Body resp)))
               else if header_Get (br_Header resp) ''X-Backend-Header'' \<noteq> ''preserved'' then
                 Some (HttpHeader (header_Get (br_Header resp) ''X-Backend-Header''))
               else if header_Get (br_Header resp) ''Connection'' \<noteq> [] then Some HopByHopForwarded
               else check_large client baseURL))"

definition checkHTTPDown :: "http_do \<Rightarrow> string \<Rightarrow> e2e_error option" where
  "checkHTTPDown client baseURL =
     (case new_request ''POST'' (echo_url baseURL) (header_Set [] ''Content-Type'' ''text/plain'') ''hello-http'' of
        None \<Rightarrow> None
      | Some req \<Rightarrow>
          (case client req of
             Inl _ \<Rightarrow> None
           | Inr resp \<Rightarrow> if br_Status resp \<in> {503, 504, 502} then None else Some (HttpNotDown (br_Status resp))))"

text \<open>
  A connection is a value; dialling, writing and reading may fail. \<open>ws_read\<close> is \<^verbatim>\<open>ReadMessage\<close>, \<open>tcp_full\<close> is
  \<^verbatim>\<open>io.ReadFull\<close>, \<open>tcp_read\<close> one \<^verbatim>\<open>Read\<close>.
\<close>

record 'w ws_net =
  wn_dial :: "string \<Rightarrow> 'w option"
  wn_write :: "'w \<Rightarrow> ws_type \<Rightarrow> bytes \<Rightarrow> 'w option"
  wn_read :: "'w \<Rightarrow> ('w \<times> ws_type \<times> bytes) option"

record 't tcp_net =
  tn_dial :: "string \<Rightarrow> 't option"
  tn_write :: "'t \<Rightarrow> bytes \<Rightarrow> 't option"
  tn_full :: "'t \<Rightarrow> nat \<Rightarrow> ('t \<times> bytes) option"
  tn_read :: "'t \<Rightarrow> nat \<Rightarrow> ('t \<times> bytes) option"

record 'g grpc_net =
  gn_dial :: "string \<Rightarrow> bool"
  gn_invoke :: "string \<Rightarrow> string \<Rightarrow> string option"
  gn_stream :: "string \<Rightarrow> 'g option"
  gn_send :: "'g \<Rightarrow> string \<Rightarrow> 'g option"
  gn_recv :: "'g \<Rightarrow> ('g \<times> string) option"
  gn_close :: "'g \<Rightarrow> bool"

fun ws_exchange :: "'w ws_net \<Rightarrow> (ws_type \<times> bytes) list \<Rightarrow> 'w \<Rightarrow> e2e_error option" where
  "ws_exchange n [] c = None"
| "ws_exchange n ((kind, data) # msgs) c =
     (case wn_write n c kind data of
        None \<Rightarrow> Some NetError
      | Some c1 \<Rightarrow>
          (case wn_read n c1 of
             None \<Rightarrow> Some NetError
           | Some (c2, kind', data') \<Rightarrow>
               if kind' \<noteq> kind \<or> data' \<noteq> data then Some (WsEcho kind' data') else ws_exchange n msgs c2))"

definition ws_messages :: "(ws_type \<times> bytes) list" where
  "ws_messages =
     [(WsText, ''hello text''), (WsBinary, [CHR 0x00, CHR 0x01, CHR 0x02, CHR 0x03, CHR 0xFF]),
      (WsText, ''second text'')]"

definition checkWebSocket :: "'w ws_net \<Rightarrow> string \<Rightarrow> e2e_error option" where
  "checkWebSocket n rawURL =
     (case wn_dial n rawURL of None \<Rightarrow> Some NetError | Some c \<Rightarrow> ws_exchange n ws_messages c)"

definition checkWebSocketDown :: "'w ws_net \<Rightarrow> string \<Rightarrow> e2e_error option" where
  "checkWebSocketDown n rawURL =
     (case wn_dial n rawURL of
        None \<Rightarrow> None
      | Some c \<Rightarrow>
          (case wn_write n c WsText ''should-close'' of
             None \<Rightarrow> None
           | Some c1 \<Rightarrow> (case wn_read n c1 of None \<Rightarrow> None | Some _ \<Rightarrow> Some WsStayedOpen)))"

definition writeAndReadTCP :: "'t tcp_net \<Rightarrow> 't \<Rightarrow> bytes \<Rightarrow> e2e_error + 't" where
  "writeAndReadTCP n c payload =
     (case tn_write n c payload of
        None \<Rightarrow> Inl NetError
      | Some c1 \<Rightarrow>
          (case tn_full n c1 (length payload) of
             None \<Rightarrow> Inl NetError
           | Some (c2, got) \<Rightarrow> if got \<noteq> payload then Inl (TcpMismatch (length got)) else Inr c2))"

definition checkTCPSession :: "'t tcp_net \<Rightarrow> string \<Rightarrow> bytes \<Rightarrow> e2e_error option" where
  "checkTCPSession n addr first =
     (case tn_dial n addr of
        None \<Rightarrow> Some NetError
      | Some c \<Rightarrow>
          (case writeAndReadTCP n c first of
             Inl e \<Rightarrow> Some e
           | Inr c1 \<Rightarrow>
               (case writeAndReadTCP n c1 ''second-write'' of Inl e \<Rightarrow> Some e | Inr _ \<Rightarrow> None)))"

fun first_error :: "e2e_error option list \<Rightarrow> e2e_error option" where
  "first_error [] = None"
| "first_error (None # es) = first_error es"
| "first_error (Some e # es) = Some e"

text \<open>
  \<open>large\<close> are the 64 KiB of random bytes, if there are any; \<open>order\<close> is the order in which the eight
  concurrent sessions end.
\<close>

definition checkTCP :: "'t tcp_net \<Rightarrow> string \<Rightarrow> bytes option \<Rightarrow> nat list \<Rightarrow> e2e_error option" where
  "checkTCP n addr large order =
     (case checkTCPSession n addr ''first'' of
        Some e \<Rightarrow> Some e
      | None \<Rightarrow>
          (case large of
             None \<Rightarrow> Some NetError
           | Some bytes \<Rightarrow>
               (case checkTCPSession n addr bytes of
                  Some e \<Rightarrow> Some e
                | None \<Rightarrow> first_error (map (\<lambda>i. checkTCPSession n addr (''concurrent-'' @ itoa_nat i)) order))))"

definition checkTCPDown :: "'t tcp_net \<Rightarrow> string \<Rightarrow> e2e_error option" where
  "checkTCPDown n addr =
     (case tn_dial n addr of
        None \<Rightarrow> None
      | Some c \<Rightarrow>
          (case tn_write n c ''down'' of
             None \<Rightarrow> None
           | Some c1 \<Rightarrow> (case tn_read n c1 4 of None \<Rightarrow> None | Some _ \<Rightarrow> Some TcpEchoedDown)))"

definition unary_method :: string where "unary_method = ''/airpc.e2e.Echo/Unary''"
definition chat_method :: string where "chat_method = ''/airpc.e2e.Echo/Chat''"

fun grpc_exchange :: "'g grpc_net \<Rightarrow> string list \<Rightarrow> 'g \<Rightarrow> e2e_error + 'g" where
  "grpc_exchange n [] s = Inr s"
| "grpc_exchange n (v # vs) s =
     (case gn_send n s v of
        None \<Rightarrow> Inl NetError
      | Some s1 \<Rightarrow>
          (case gn_recv n s1 of
             None \<Rightarrow> Inl NetError
           | Some (s2, resp) \<Rightarrow>
               if resp \<noteq> ''grpc-stream:'' @ v then Inl (GrpcStreamResponse resp) else grpc_exchange n vs s2))"

definition checkGRPC :: "'g grpc_net \<Rightarrow> string \<Rightarrow> e2e_error option" where
  "checkGRPC n addr =
     (if \<not> gn_dial n addr then Some NetError
      else case gn_invoke n unary_method ''payload'' of
          None \<Rightarrow> Some NetError
        | Some resp \<Rightarrow>
            if resp \<noteq> ''grpc-unary:payload'' then Some (GrpcUnaryResponse resp)
            else case gn_stream n chat_method of
                None \<Rightarrow> Some NetError
              | Some s \<Rightarrow>
                  (case grpc_exchange n [''one'', ''two'', ''three''] s of
                     Inl e \<Rightarrow> Some e
                   | Inr s1 \<Rightarrow> if gn_close n s1 then None else Some NetError))"

definition checkGRPCDown :: "'g grpc_net \<Rightarrow> string \<Rightarrow> e2e_error option" where
  "checkGRPCDown n addr =
     (if \<not> gn_dial n addr then None
      else case gn_invoke n unary_method ''payload'' of None \<Rightarrow> None | Some _ \<Rightarrow> Some GrpcSucceededDown)"

definition checkUnreachable :: "(string \<Rightarrow> bool) \<Rightarrow> string \<Rightarrow> e2e_error option" where
  "checkUnreachable dial addr = (if \<not> dial addr then None else Some (Reachable addr))"

text \<open>The checks of a command in turn: the names printed as passed, and the first error.\<close>

fun run_checks :: "(string \<times> e2e_error option) list \<Rightarrow> string list \<times> e2e_error option" where
  "run_checks [] = ([], None)"
| "run_checks ((name, res) # checks) =
     (case res of
        Some e \<Rightarrow> ([], Some (CheckFailed name e))
      | None \<Rightarrow> (let (oks, err) = run_checks checks in (name # oks, err)))"

fun runCheckUnreachable_loop :: "(string \<Rightarrow> bool) \<Rightarrow> string list \<Rightarrow> string list \<times> e2e_error option" where
  "runCheckUnreachable_loop dial [] = ([], None)"
| "runCheckUnreachable_loop dial (addr # addrs) =
     (case checkUnreachable dial addr of
        Some e \<Rightarrow> ([], Some e)
      | None \<Rightarrow> (let (oks, err) = runCheckUnreachable_loop dial addrs in (addr # oks, err)))"

definition runCheckUnreachable :: "(string \<Rightarrow> bool) \<Rightarrow> string list \<Rightarrow> string list \<times> e2e_error option" where
  "runCheckUnreachable dial args =
     (if length args = 0 then ([], Some UnreachableArgs) else runCheckUnreachable_loop dial args)"

text \<open>
  The network of a run of the checks, and what its random source and its scheduler did; \<open>health\<close> is
  the answer to each attempt of \<^verbatim>\<open>wait-health\<close> (at most \<open>attempts\<close> are made).
\<close>

record ('w, 't, 'g) e2e_net =
  en_http :: http_do
  en_ws :: "'w ws_net"
  en_tcp :: "'t tcp_net"
  en_grpc :: "'g grpc_net"
  en_reach :: "string \<Rightarrow> bool"
  en_large :: "bytes option"
  en_order :: "nat list"
  en_health :: "nat \<Rightarrow> http_request \<Rightarrow> string + backend_response"

definition runDownChecks ::
  "('w, 't, 'g) e2e_net \<Rightarrow> string \<Rightarrow> string \<Rightarrow> string \<Rightarrow> string \<Rightarrow> string list \<times> e2e_error option" where
  "runDownChecks n baseURL tcpAddr wsURL grpcAddr =
     run_checks
       [(''http down'', checkHTTPDown (en_http n) baseURL),
        (''websocket down'', checkWebSocketDown (en_ws n) wsURL),
        (''tcp down'', checkTCPDown (en_tcp n) tcpAddr),
        (''grpc down'', checkGRPCDown (en_grpc n) grpcAddr)]"

definition flag_default :: "(string \<times> string) list \<Rightarrow> string \<Rightarrow> string \<Rightarrow> string" where
  "flag_default vals key dflt = (case map_of vals key of None \<Rightarrow> dflt | Some v \<Rightarrow> v)"

definition runCheck :: "('w, 't, 'g) e2e_net \<Rightarrow> string list \<Rightarrow> bool \<Rightarrow> string list \<times> e2e_error option" where
  "runCheck n args down =
     (case parse_flags [''base-url'', ''tcp-addr'', ''ws-url'', ''grpc-addr''] [] args of
        Inl e \<Rightarrow> ([], Some (BadFlags e))
      | Inr (vals, _) \<Rightarrow>
          (let baseURL = flag_default vals ''base-url'' defaultBaseURL;
               tcpAddr = flag_default vals ''tcp-addr'' defaultTCPAddr;
               wsURL = flag_default vals ''ws-url'' defaultWSURL;
               grpcAddr = flag_default vals ''grpc-addr'' defaultGRPCAddr in
           if down then runDownChecks n baseURL tcpAddr wsURL grpcAddr
           else
             run_checks
               [(''http unary'', checkHTTP (en_http n) baseURL),
                (''websocket'', checkWebSocket (en_ws n) wsURL),
                (''tcp'', checkTCP (en_tcp n) tcpAddr (en_large n) (en_order n)),
                (''grpc'', checkGRPC (en_grpc n) grpcAddr)]))"

text \<open>The loop of \<^verbatim>\<open>wait-health\<close>: attempt \<open>i\<close> of the remaining \<open>k\<close>.\<close>

fun wait_health ::
  "(nat \<Rightarrow> http_request \<Rightarrow> string + backend_response) \<Rightarrow> string \<Rightarrow> nat \<Rightarrow> nat \<Rightarrow> e2e_error option" where
  "wait_health get baseURL i 0 = Some (HealthNotReady baseURL)"
| "wait_health get baseURL i (Suc k) =
     (case new_request ''GET'' (TrimRight baseURL CHR ''/'' @ ''/_airpc/healthz'') [] [] of
        None \<Rightarrow> wait_health get baseURL (Suc i) k
      | Some req \<Rightarrow>
          (case get i req of
             Inl _ \<Rightarrow> wait_health get baseURL (Suc i) k
           | Inr resp \<Rightarrow> if br_Status resp = 200 then None else wait_health get baseURL (Suc i) k))"

section \<open>The commands\<close>

text \<open>
  An integer flag is read by \<^verbatim>\<open>strconv.ParseInt(s, 0, 64)\<close>: a prefix gives the base, and underscores may
  separate digits.
\<close>

definition base_digit :: "char \<Rightarrow> nat option" where
  "base_digit c =
     (if is_digit_char c then Some (of_char c - 48)
      else let l = ascii_lower c in if is_lower_alpha l then Some (of_char l - 87) else None)"

fun base_value :: "nat \<Rightarrow> int \<Rightarrow> string \<Rightarrow> int option" where
  "base_value base acc [] = Some acc"
| "base_value base acc (c # cs) =
     (if c = CHR ''_'' then base_value base acc cs
      else case base_digit c of
          None \<Rightarrow> None
        | Some d \<Rightarrow> if base \<le> d then None else base_value base (acc * int base + int d) cs)"

definition base_prefix :: "string \<Rightarrow> (nat \<times> string) option" where
  "base_prefix s =
     (if length s < 2 \<or> hd s \<noteq> CHR ''0'' then None
      else let l = ascii_lower (s ! 1) in
        if l = CHR ''b'' then Some (2, drop 2 s) else if l = CHR ''o'' then Some (8, drop 2 s)
        else if l = CHR ''x'' then Some (16, drop 2 s) else None)"

text \<open>\<open>seen\<close> is what the last byte was: a digit (or the prefix), an underscore, or anything else.\<close>

datatype seen = SeenDigit | SeenUnderscore | SeenOther

fun underscores_ok :: "bool \<Rightarrow> seen \<Rightarrow> string \<Rightarrow> bool" where
  "underscores_ok hex seen [] = (seen \<noteq> SeenUnderscore)"
| "underscores_ok hex seen (c # cs) =
     (if is_digit_char c \<or> (hex \<and> is_hex c) then underscores_ok hex SeenDigit cs
      else if c = CHR ''_'' then seen = SeenDigit \<and> underscores_ok hex SeenUnderscore cs
      else seen \<noteq> SeenUnderscore \<and> underscores_ok hex SeenOther cs)"

definition ParseInt0 :: "string \<Rightarrow> int option" where
  "ParseInt0 s =
     (let neg = HasPrefix s ''-''; t = (if neg \<or> HasPrefix s ''+'' then tl s else s);
          (base, body) =
            (case base_prefix t of
               Some (b, rest) \<Rightarrow> if length t \<ge> 3 then (b, rest) else (8, tl t)
             | None \<Rightarrow> if HasPrefix t ''0'' then (8, tl t) else (10, t));
          separated =
            (case base_prefix t of
               Some (b, rest) \<Rightarrow> underscores_ok (b = 16) SeenDigit rest
             | None \<Rightarrow> underscores_ok False SeenOther t) in
      if t = [] then None
      else case base_value base 0 body of
          None \<Rightarrow> None
        | Some n \<Rightarrow>
            let v = (if neg then - n else n) in
            if CHR ''_'' \<in> set t \<and> \<not> separated then None
            else if is_int64 v then Some v else None)"

text \<open>\<^verbatim>\<open>backend\<close> ends in a server that runs until it fails.\<close>

definition runWaitHealth ::
  "('w, 't, 'g) e2e_net \<Rightarrow> string list \<Rightarrow> string list \<times> e2e_error option" where
  "runWaitHealth n args =
     (case parse_flags_with (\<lambda>key v. key \<noteq> ''attempts'' \<or> ParseInt0 v \<noteq> None)
             [''base-url'', ''attempts''] [] args of
        Inl e \<Rightarrow> ([], Some (BadFlags e))
      | Inr (vals, _) \<Rightarrow>
          (let attempts = (case Option.bind (map_of vals ''attempts'') ParseInt0 of None \<Rightarrow> 60 | Some k \<Rightarrow> k) in
           case wait_health (en_health n) (flag_default vals ''base-url'' defaultBaseURL) 0 (nat attempts) of
             Some e \<Rightarrow> ([], Some e)
           | None \<Rightarrow> ([''edge health is ready''], None)))"

datatype e2e_backend = HttpBackend string | TcpBackend string | WsBackend string | GrpcBackend string

definition runBackend :: "string list \<Rightarrow> e2e_error + e2e_backend" where
  "runBackend args =
     (case parse_flags [''mode'', ''addr''] [] args of
        Inl e \<Rightarrow> Inl (BadFlags e)
      | Inr (vals, _) \<Rightarrow>
          (let mode = flag_value vals ''mode''; addr = flag_value vals ''addr'' in
           if mode = [] \<or> addr = [] then Inl BackendFlags
           else if mode = ''http'' then Inr (HttpBackend addr)
           else if mode = ''tcp'' then Inr (TcpBackend addr)
           else if mode = ''websocket'' then Inr (WsBackend addr)
           else if mode = ''grpc'' then Inr (GrpcBackend addr)
           else Inl (UnsupportedMode mode)))"

datatype e2e_result = Served e2e_backend | Checked "string list" "e2e_error option" | Refused e2e_error

definition e2e_run ::
  "('w, 't, 'g) e2e_net \<Rightarrow> string list \<Rightarrow> e2e_result" where
  "e2e_run n args =
     (let checked = (\<lambda>(oks, err). Checked oks err) in
      case args of
        [] \<Rightarrow> Refused NoCommand
      | cmd # rest \<Rightarrow>
          if cmd = ''backend'' then (case runBackend rest of Inl e \<Rightarrow> Refused e | Inr b \<Rightarrow> Served b)
          else if cmd = ''check'' then checked (runCheck n rest False)
          else if cmd = ''check-down'' then checked (runCheck n rest True)
          else if cmd = ''check-unreachable'' then checked (runCheckUnreachable (en_reach n) rest)
          else if cmd = ''wait-health'' then checked (runWaitHealth n rest)
          else Refused (NoSuchCommand cmd))"

end
