(* ===== verification/Spec2Isabelle.thy ===== *)
theory Spec2Isabelle
  imports Http_Stream WebSocket_Pipe Grpc_Observer Duration_Text Process_Life Metrics E2e_Checks
begin

text \<open>
  Verification of airpc (the Go sources under \<^verbatim>\<open>src/\<close>), a pair of programs that publishes
  private services: the edge takes public HTTP, WebSocket, TCP and gRPC traffic, the connector
  runs next to the private backends, and both dial NATS.

  \<^bold>\<open>The program and how its parts interact.\<close> A unary HTTP request is read and bounded by the
  edge (\<^verbatim>\<open>internal/edge/edge.go\<close>), put into a MessagePack envelope
  (\<^verbatim>\<open>internal/protocol/httpunary\<close>), sent as a NATS request, decoded and forwarded to the backend
  by the connector (\<^verbatim>\<open>internal/connector/proxy.go\<close>), and the answer comes back in an envelope. A
  response that is a stream or too large for an envelope goes through the data tunnel instead:
  one WebSocket that the connector keeps open to the edge (\<^verbatim>\<open>internal/connector/data.go\<close>,
  \<^verbatim>\<open>internal/edge/data.go\<close>) and on which sessions with credit flow control are multiplexed
  (\<^verbatim>\<open>internal/datatunnel\<close>, frames in \<^verbatim>\<open>internal/protocol/tunnel\<close>). TCP, gRPC and WebSocket routes
  use a session for each client connection: the edge asks for it with an open request over
  NATS, the connector that accepts is sent an open frame on its tunnel, and a relay at each end
  copies between the session and the connection. gRPC connections are read along by an observer
  (\<^verbatim>\<open>internal/grpcobs\<close>) that only feeds metrics. Both programs are started by \<^verbatim>\<open>cmd/airpc\<close> from
  one configuration file (\<^verbatim>\<open>internal/config\<close>).

  \<^bold>\<open>Theories and sources.\<close> Names of definitions are the source's, with a suffix or the
  receiver's type in front where HOL or another package has the name already.
  \<^item> \<open>Airpc_Prelude\<close>: Go's basic types, errors as values, \<^verbatim>\<open>int64\<close> arithmetic with its wrap-around,
    buffered channels. \<open>Go_Text\<close>, \<open>Go_Net\<close>: the parts of \<^verbatim>\<open>strings\<close>, \<^verbatim>\<open>strconv\<close>, \<^verbatim>\<open>unicode\<close>,
    \<^verbatim>\<open>time\<close>, \<^verbatim>\<open>net\<close> and \<^verbatim>\<open>net/url\<close> that the sources call.
  \<^item> \<open>Envelope_Codec\<close>: the contract of every envelope codec. \<open>Tunnel_Envelope\<close>:
    \<^verbatim>\<open>internal/protocol/tunnel/envelope.go\<close>. \<open>Unary_Envelope\<close>:
    \<^verbatim>\<open>internal/protocol/httpunary/envelope.go\<close>. \<open>Http_Headers\<close>: \<^verbatim>\<open>internal/httpheaders\<close>.
  \<^item> \<open>Airpc_Config\<close>, \<open>Duration_Text\<close>, \<open>Tls_Material\<close>: \<^verbatim>\<open>internal/config\<close>, its validation, the scalars
    it reads from YAML, subjects and limits, and the TLS configurations made from it.
  \<^item> \<open>Data_Tunnel\<close>: \<^verbatim>\<open>session.go\<close> and \<^verbatim>\<open>link.go\<close> of \<^verbatim>\<open>internal/datatunnel\<close>. Sessions are shared by
    the link and its users, so they live in an explicit store; a mutex is the atomicity of an
    operation, a channel is a bounded list, the WebSocket is the list of messages written.
  \<^item> \<open>Flow_Control\<close>: two ends of one session as a transition system whose steps are operations of
    \<open>Data_Tunnel\<close>. \<open>Session_Pipe\<close>: what a user of a session may rely on and owes.
  \<^item> \<open>Data_Relay\<close>, \<open>WebSocket_Pipe\<close>: \<^verbatim>\<open>internal/datatunnel/relay.go\<close>; the goroutines of a relay are
    the interleaved steps of a state machine, a step being the passage from one blocking call
    to the next.
  \<^item> \<open>Edge_Routes\<close>, \<open>Edge_Unary\<close>, \<open>Edge_Server\<close>: \<^verbatim>\<open>internal/edge/edge.go\<close>. \<open>Edge_Data\<close>:
    \<^verbatim>\<open>internal/edge/data.go\<close>.
  \<^item> \<open>Connector_Proxy\<close>, \<open>Connector_Tunnel\<close>, \<open>Tunnel_Dial\<close>, \<open>Connector_Start\<close>: \<^verbatim>\<open>proxy.go\<close>, \<^verbatim>\<open>data.go\<close> and
    \<^verbatim>\<open>connector.go\<close> of \<^verbatim>\<open>internal/connector\<close>.
  \<^item> \<open>Http_Stream\<close>: the connector's response pump and the edge's stream handler at the two ends of
    a session. \<open>Grpc_Observer\<close>: \<^verbatim>\<open>internal/grpcobs/observer.go\<close> and the \<^verbatim>\<open>observedConn\<close> that feeds it.
  \<^item> \<open>Process_Resources\<close>: \<^verbatim>\<open>internal/natscore\<close> and the server of \<^verbatim>\<open>internal/telemetry\<close>, as resources
    acquired and released, and the requests and messages of NATS. \<open>Command_Line\<close>: \<^verbatim>\<open>cmd/airpc/main.go\<close>.
  \<^item> \<open>Process_Life\<close>: the goroutines of both processes from their start to their end, \<^verbatim>\<open>Run\<close> and \<^verbatim>\<open>Wait\<close>.
  \<^item> \<open>Metrics\<close>: the vectors of \<^verbatim>\<open>internal/telemetry/metrics.go\<close> and the calls on them in \<^verbatim>\<open>edge.go\<close>,
    \<^verbatim>\<open>observer.go\<close> and both \<^verbatim>\<open>data.go\<close>, as a list of calls next to the state they report on.
  \<^item> \<open>E2e_Program\<close>: \<^verbatim>\<open>cmd/airpc-e2e/main.go\<close>, its backends, checks and commands. \<open>E2e_Checks\<close>: its run
    on the composed models, with the configuration of \<^verbatim>\<open>deploy/airpc.yaml\<close>.
  \<^item> This theory: the properties that need the edge and the connector together.

  \<^bold>\<open>Interfaces.\<close>
  \<^item> \<open>validated_codec\<close> (encode validates then marshals, decode unmarshals then validates) is
    interpreted on the five codecs of the two protocol packages.
  \<^item> \<open>credit_flow\<close> (window, acknowledgement threshold and slack of a receive queue) is interpreted
    on the constants of \<^verbatim>\<open>session.go\<close>: a frame always finds room, and a blocked sender always has
    something on its way.
  \<^item> \<open>session_client\<close> and \<open>session_pair\<close> (a party that uses one end of a session, and two of them on
    the same session) are interpreted on the TCP relay, the WebSocket relay, the response pump
    and the stream handler. What one party took in is what the other gives out, proved once.
  \<^item> \<open>startup\<close> (a start that fails leaves nothing behind, a stop releases what the start acquired) is
    interpreted on the \<^verbatim>\<open>Start\<close> functions of the edge and of the connector.

  \<^bold>\<open>What the lemmas show.\<close>
  \<^item> Data path: the credit protocol never overflows a queue and never strands a sender; a session
    delivers in order; two relays and a session are a transparent byte pipe with half-close, or
    a transparent message pipe for WebSockets that relays close codes; a response stream that ends cleanly is complete,
    and a truncated one is never shown as complete; the idle timeout is exact.
  \<^item> Request path: routing picks the most specific route; at most one request is sent, and its
    envelope decodes to the client's request; only allowlisted headers pass; the target of a
    forwarded request stays below the configured base; the client receives the backend's answer
    or an error page of the edge. The checks of the repository's end-to-end test pass on the
    composition of edge, NATS, connector and test backend.
  \<^item> Registries: the edge's table of tunnels and the connector's table of requests in flight keep
    their invariants, also across a reconnect; one handler claims a response stream; opening a
    session disturbs no other one.
  \<^item> Metrics: gauges and counters agree with the sessions, bytes, requests and tunnels they report on;
    byte counters bound what crossed the tunnel; labels reveal nothing of the traffic.
  \<^item> Control: a running edge ends cleanly and \<^verbatim>\<open>Wait\<close> reports why; when the connector accepts an open request, how its dial backs off, how both
    programs start and stop, which TLS policy each listener has, how the command line and
    the configuration are read, and that a connector and an edge with one configuration agree.

  \<^bold>\<open>Environment.\<close> These are arguments of the definitions. Where a property needs a law of one, the
  law is a hypothesis with a name, and its witness has an instance:
  MessagePack's \<^verbatim>\<open>Marshal\<close> and \<^verbatim>\<open>Unmarshal\<close> (\<open>codec_inverse\<close>: decoding gives back what was encoded);
  the answer NATS gives to a request; the YAML decoder; files, key pairs and PEM blocks; the
  answer of a backend; whether a dial, a listen or a subscription succeeds; random bytes; clock
  readings; the connections of the end-to-end checks; the frames \<^verbatim>\<open>golang.org/x/net/http2\<close> reads from observed bytes.

  \<^bold>\<open>Bounds and fuel.\<close> No definition uses fuel. The loop that opens a session until its deadline
  recurses on the list of attempts, with what each one finds, and a property shows that it returns
  once an attempt decides or the deadline has passed; the redial loop, the relays and the
  observer are step relations. Integers that can wrap are \<^verbatim>\<open>int\<close> values with the wrap-around of
  \<^verbatim>\<open>int64\<close> written out; channel capacities and windows are those of the source.

  \<^bold>\<open>Not modelled.\<close> What the metrics library makes of the calls on it, its help texts and histogram
  buckets; what \<^verbatim>\<open>main\<close> prints and what is logged; listening, serving and timeouts of
  \<^verbatim>\<open>cmd/airpc-e2e\<close>, which are calls of the standard library; the scheduling of goroutines below the
  steps above.
\<close>

section \<open>A unary request from the client to the backend and back\<close>

lemma readBounded_whole:
  assumes "readBounded body limit = Inr data" "0 \<le> limit" "limit < max_int64"
  shows "data = hb_data body" "\<not> hb_fails body"
proof -
  have "wrap64 (limit + 1) = limit + 1"
    using assms by (intro wrap64_id) (simp add: is_int64_def min_int64_def)
  then show "data = hb_data body" "\<not> hb_fails body"
    using assms by (auto simp: readBounded_def read_limited_def min_def split: if_splits)
qed

lemma serveUnary_unsent:
  assumes "ur_requests (serveUnary m u env req matched suffix) = []"
  shows "\<exists>msg code. ur_outcome (serveUnary m u env req matched suffix) = Replied (http_Error msg code) \<and>
    code \<in> {400, 413, 500, 502}"
  using assms
  by (auto simp: serveUnary_def readBounded_def Let_def split: sum.splits option.splits if_splits)

text \<open>What the connector's callback puts into an envelope without error and without a stream.\<close>

lemma callback_answer:
  assumes "codec_inverse mr ur" "DecodeResponse ur (snd (unary_callback mr uq fenv data p)) = Inr resp"
    and "unary_callback mr uq fenv data p = (run, payload)" "payload \<noteq> []"
  shows "resp = fr_response run \<or> rs_Error resp \<noteq> None"
proof -
  have run: "run = handle uq fenv data p" using assms(3) by (simp add: unary_callback_def Let_def)
  let ?fb = "NewErrorResponse (rs_RequestID (fr_response run)) ''protocol_error'' ''failed to encode connector response''"
  consider "EncodeResponse mr (fr_response run) = Inr payload"
    | "EncodeResponse mr ?fb = Inr payload"
    using assms(3,4) run by (auto simp: unary_callback_def Let_def split: sum.splits)
  then show ?thesis
    using assms(2,3) unary_response_codec.round_trip [OF assms(1)]
    by cases (auto simp: NewErrorResponse_def)
qed

text \<open>
  C4. The client gets the backend's answer or an error, never anything else. With NATS carrying
  the edge's request to the connector's callback and its answer back, a reply of the edge is
  either one of its own error pages, or it is the answer of the backend that the configured
  route names: the backend was asked with the client's method, the whole request body, the
  allowlisted headers and the target URL of the request's suffix, and the client receives the
  status, the end-to-end headers and the whole body.
\<close>

theorem unary_end_to_end:
  assumes "codec_inverse mq uq" "codec_inverse mr ur"
    and "\<And>s d. ue_nats env s d = Inr (snd (unary_callback mr uq fenv d p))"
    and "ur [] = Inl e"
    and "ur_outcome (serveUnary mq ur env req matched suffix) = Replied rep"
    and "routeRequestLimit (er_cfg matched) \<in> {0..<max_int64}"
    and "\<And>r. map_of (px_routes p) (r_Name (er_cfg matched)) = Some r \<Longrightarrow> routeResponseLimit (pr_cfg r) \<in> {0..<max_int64}"
  shows "(\<exists>msg code. rep = http_Error msg code \<and> code \<in> {400, 413, 500, 502}) \<or>
    (\<exists>r target br. map_of (px_routes p) (r_Name (er_cfg matched)) = Some r \<and>
       targetURL (pr_target r) suffix = Some target \<and>
       fe_do fenv (hq_Method req) target (FilterRequest (hq_Header req) (r_ForwardedHeaders (er_cfg matched)))
         (hb_data (hq_Body req)) = Inr br \<and> \<not> hb_fails (hq_Body req) \<and> \<not> hb_fails (br_Body br) \<and>
       rep = \<lparr>hr_status = br_Status br, hr_header = add_all [] (FilterResponse (FilterResponse (br_Header br))),
              hr_body = hb_data (br_Body br)\<rparr>)"
  using serveUnary_cases [of mq ur env req matched suffix]
proof cases
  case (early rep')
  then show ?thesis using serveUnary_unsent [of mq ur env req matched suffix] assms(5) by auto
next
  case (sent body rid payload)
  let ?q = "unary_envelope rid ((ue_now env + routeTimeout (er_cfg matched)) div 1000000) req matched suffix body"
  obtain run data where cb: "unary_callback mr uq fenv payload p = (run, data)" by fastforce
  have body: "body = hb_data (hq_Body req)" "\<not> hb_fails (hq_Body req)"
    using readBounded_whole [OF sent(1)] assms(6) by simp_all
  show ?thesis
  proof (cases "\<exists>resp. DecodeResponse ur data = Inr resp \<and> rs_RequestID resp = rid \<and> rs_Error resp = None")
    case False
    then have "rep = http_Error ''connector error'' 502"
      using assms(3,5) sent(6) cb by (auto split: sum.splits if_splits)
    then show ?thesis by blast
  next
    case True
    then obtain resp where resp: "DecodeResponse ur data = Inr resp" "rs_RequestID resp = rid" "rs_Error resp = None"
      by blast
    have "data \<noteq> []" using resp(1) assms(4) by (auto simp: DecodeResponse_def)
    then have h: "resp = fr_response (handle uq fenv payload p)"
      using callback_answer [OF assms(2) _ cb, of resp] resp(1,3) cb by (auto simp: unary_callback_def Let_def)
    have rep: "rs_StreamSessionID resp = []" "rep = writeResponse resp"
      using assms(3,5) sent(6) cb resp by (auto split: if_splits)
    have dec: "DecodeRequest uq payload = Inr ?q" using unary_request_codec.round_trip [OF assms(1) sent(3)] .
    then have "unary_request_ok ?q" using unary_request_codec.decode_ok_iff Request_Validate_iff by blast
    then have rid: "rq_RequestID ?q \<noteq> []" by (simp add: unary_request_ok_def)
    obtain r where r: "map_of (px_routes p) (r_Name (er_cfg matched)) = Some r" "resp = fr_response (forward fenv r ?q p)"
      using h resp(3) dec
      by (auto simp: handle_def Let_def NewErrorResponse_def unary_envelope_def split: option.splits)
    then show ?thesis
      using forward_inline_whole [OF r(2) [symmetric] resp(3) rep(1) rid] assms(7) [OF r(1)] rep(2) body
      by (fastforce simp: unary_envelope_def writeResponse_def)
  qed
qed

definition sample_reply :: unary_response where
  "sample_reply =
     \<lparr>rs_Version = 1, rs_RequestID = hex_encode (replicate 16 CHR ''x''), rs_Status = 200, rs_Headers = [],
      rs_Body = ''ok'', rs_StreamSessionID = [], rs_ConnectorID = [], rs_Error = None\<rparr>"

definition sample_reply_marshal :: "unary_response marshal" where
  "sample_reply_marshal r = (if r = sample_reply then Inr ''reply'' else Inl ''unknown'')"

definition sample_reply_unmarshal :: "unary_response unmarshal" where
  "sample_reply_unmarshal b = (if b = ''reply'' then Inr sample_reply else Inl ''unknown'')"

definition sample_connected_env :: unary_env where
  "sample_connected_env =
     \<lparr>ue_rand = Some (replicate 16 CHR ''x''), ue_now = 0,
      ue_nats = (\<lambda>_ d. Inr (snd (unary_callback sample_reply_marshal (\<lambda>_. Inr sample_envelope) sample_forward_env d sample_proxy))),
      ue_ctx_err = False\<rparr>"

lemma sample_reply_codec: "codec_inverse sample_reply_marshal sample_reply_unmarshal"
  by (simp add: codec_inverse_def sample_reply_marshal_def sample_reply_unmarshal_def)

lemma sample_proxy_routes: "map_of (px_routes sample_proxy) (r_Name sample_http) = Some sample_proxy_route"
  by (simp add: sample_proxy_def newHTTPProxy_def sample_proxy_route_def)

lemma sample_callback:
  "snd (unary_callback sample_reply_marshal (\<lambda>_. Inr sample_envelope) sample_forward_env d sample_proxy) = ''reply''"
proof -
  have "Request_Validate sample_envelope = None" by code_simp
  then have dec: "DecodeRequest (\<lambda>_. Inr sample_envelope) d = Inr sample_envelope" by (simp add: DecodeRequest_def)
  have env: "rq_Route sample_envelope = r_Name sample_http" "rq_Path sample_envelope = ''/items''"
    "rq_RequestID sample_envelope = hex_encode (replicate 16 CHR ''x'')"
    by (simp_all add: sample_envelope_def unary_envelope_def new_edge_route_def)
  have "targetURL sample_backend ''/items'' \<noteq> None" by code_simp
  then obtain t where "targetURL sample_backend (rq_Path sample_envelope) = Some t" using env(2) by auto
  then have "fr_response (handle (\<lambda>_. Inr sample_envelope) sample_forward_env d sample_proxy) = sample_reply"
    using sample_forward_any(2) dec env sample_proxy_routes
    by (simp add: handle_def sample_reply_def UnaryVersion_def)
  moreover have "EncodeResponse sample_reply_marshal sample_reply = Inr ''reply''" by code_simp
  ultimately show ?thesis by (simp add: unary_callback_def Let_def)
qed

lemma sample_round_trip:
  "ur_outcome (serveUnary sample_unary_marshal sample_reply_unmarshal sample_connected_env sample_request
     (new_edge_route sample_http) ''/items'') = Replied (writeResponse sample_reply)"
proof -
  let ?cfg = "er_cfg (new_edge_route sample_http)"
  have read: "readBounded (hq_Body sample_request) (routeRequestLimit ?cfg) = Inr ''hi''" by code_simp
  have "routeTimeout ?cfg div 1000000 = 30000" by code_simp
  then have parts: "requestID (ue_rand sample_connected_env) = Some (hex_encode (replicate 16 CHR ''x''))"
    "(ue_now sample_connected_env + routeTimeout ?cfg) div 1000000 = 30000"
    by (simp_all add: sample_connected_env_def requestID_def)
  have "EncodeRequest sample_unary_marshal sample_envelope = Inr ''env''" by code_simp
  then have "EncodeRequest sample_unary_marshal
      (unary_envelope (hex_encode (replicate 16 CHR ''x'')) 30000 sample_request (new_edge_route sample_http) ''/items'' ''hi'') =
      Inr ''env''" by (simp add: sample_envelope_def)
  moreover have "DecodeResponse sample_reply_unmarshal ''reply'' = Inr sample_reply" by code_simp
  moreover have "ue_nats sample_connected_env s d = Inr ''reply''" for s d
    by (simp add: sample_connected_env_def sample_callback)
  ultimately show ?thesis
    by (simp add: serveUnary_def read parts sample_reply_def)
qed

theorem unary_end_to_end_witness:
  "\<exists>target. targetURL sample_backend ''/items'' = Some target \<and>
     ur_outcome (serveUnary sample_unary_marshal sample_reply_unmarshal sample_connected_env sample_request
       (new_edge_route sample_http) ''/items'') =
     Replied \<lparr>hr_status = 200, hr_header = add_all [] (FilterResponse (FilterResponse [])), hr_body = ''ok''\<rparr>"
proof -
  let ?out = "ur_outcome (serveUnary sample_unary_marshal sample_reply_unmarshal sample_connected_env sample_request
       (new_edge_route sample_http) ''/items'')"
  obtain rep where rep: "?out = Replied rep" "hr_status rep = 200"
    using sample_round_trip by (simp add: writeResponse_def sample_reply_def)
  have lim: "routeRequestLimit (er_cfg (new_edge_route sample_http)) \<in> {0..<max_int64}"
    "routeResponseLimit sample_http \<in> {0..<max_int64}" by (simp_all only: atLeastLessThan_iff) code_simp+
  have routes: "map_of (px_routes sample_proxy) (r_Name (er_cfg (new_edge_route sample_http))) = Some sample_proxy_route"
    using sample_proxy_routes by (simp add: new_edge_route_def)
  have nats: "ue_nats sample_connected_env s d =
      Inr (snd (unary_callback sample_reply_marshal (\<lambda>_. Inr sample_envelope) sample_forward_env d sample_proxy))" for s d
    by (simp add: sample_connected_env_def)
  have bad: "sample_reply_unmarshal [] = Inl ''unknown''" by (simp add: sample_reply_unmarshal_def)
  have "hr_status (http_Error msg code) = code" for msg code by (simp add: http_Error_def)
  then have "\<not> (\<exists>msg code. rep = http_Error msg code \<and> code \<in> {400, 413, 500, 502})" using rep(2) by auto
  then obtain r target br where r: "map_of (px_routes sample_proxy) (r_Name (er_cfg (new_edge_route sample_http))) = Some r"
    "targetURL (pr_target r) ''/items'' = Some target"
    "rep = \<lparr>hr_status = br_Status br, hr_header = add_all [] (FilterResponse (FilterResponse (br_Header br))),
            hr_body = hb_data (br_Body br)\<rparr>"
    "fe_do sample_forward_env (hq_Method sample_request) target
       (FilterRequest (hq_Header sample_request) (r_ForwardedHeaders (er_cfg (new_edge_route sample_http))))
       (hb_data (hq_Body sample_request)) = Inr br"
    using unary_end_to_end [OF sample_unary_codec sample_reply_codec nats bad rep(1) lim(1)] lim(2) routes
    by (auto simp: sample_proxy_route_def)
  then show ?thesis using routes rep(1) by (auto simp: sample_proxy_route_def sample_forward_env_def)
qed


text \<open>
  An exact public path never reaches the base path of a target as it is: the suffix is a slash
  and is appended, so a target with base path \<^verbatim>\<open>/rpc\<close> is asked for \<^verbatim>\<open>/rpc/\<close>.
\<close>

theorem exact_path_target_slash:
  "let r = new_edge_route (sample_http\<lparr>r_PublicPrefix := [], r_PublicPath := ''/users-rpc''\<rparr>) in
   map_option snd (matchRoute [r] (sample_request\<lparr>hq_Path := ''/users-rpc''\<rparr>)) = Some ''/'' \<and>
   map_option u_Path (targetURL (the (Url_Parse ''http://svc.internal:8080/rpc'')) ''/'') = Some ''/rpc/''"
  by code_simp

section \<open>A data session from the public listener to the backend\<close>

lemma pipe_start_new:
  assumes "established u sid (new_endpoint l a, new_endpoint k b)"
  shows "pipe_start u sid
    (\<lparr>pa_link = l, pa_state = new_relay a i t, pa_in = []\<rparr>, \<lparr>pa_link = k, pa_state = new_relay b i' t', pa_in = []\<rparr>)"
proof -
  have "conn_matches l (new_relay a i t) [] (new_endpoint l a)" for l a i t
    by (simp add: conn_matches_def sent_matches_def got_matches_def relay_calls_def)
      (simp add: new_relay_def new_endpoint_def)
  then show ?thesis using assms unfolding pipe_start_def by fastforce
qed

lemma open_accepted_reply:
  assumes "DecodeOpenRequest qu data = Inr req" "map_of routes (oq_Route req) = Some sr"
    and "r_Mode (st_cfg sr) = oq_Kind req" "connected tc"
  shows "handleOpenMessage rm qu cid routes (Some tc) data = open_reply rm (open_accepted (oq_RequestID req) cid)"
  using assms by (simp add: handleOpenMessage_def)

text \<open>An open that finds a live link with a fresh id succeeds.\<close>

lemma Open_fresh:
  assumes "fresh_id u (f_SessionID f) l" "\<not> l_broken l" "EncodeFrame m f = Inr d"
  shows "\<exists>l' b. Open m l f = (l', Inr b) \<and> l_out l' = l_out l @ [d]"
proof -
  have none: "Session l (f_SessionID f) = None"
    using assms link_wfD(1,2) [of l "f_SessionID f"] by (cases "Session l (f_SessionID f)") (auto simp: fresh_id_def)
  then show ?thesis using assms(2,3) by (simp add: Open_def addSession_def WriteFrame_def)
qed

lemma Accept_fresh:
  assumes "fresh_id u sid k"
  shows "\<exists>k' b. Accept k sid = (k', Inr b)"
  using fresh_add(1) [OF assms] by (simp add: Accept_def) (metis prod.collapse)

text \<open>
  C5. A TCP or gRPC connection gets a working session. If both ends are configured with the
  route, the connector's tunnel is up and registered, the codecs carry the messages and the
  session id is fresh, then one attempt to open succeeds, the connector's read loop accepts
  the open frame and starts the relay to the route's target, and the two relays are connected
  by an established session: the state from which the byte pipe is proved transparent.
\<close>

theorem tcp_session_established:
  fixes oc :: open_codecs and r :: croute and sid path :: string
  defines "m \<equiv> oc_frame oc" and "f \<equiv> openFrame r sid path"
  assumes codecs: "codec_inverse m u" "codec_inverse (oc_request oc) qu" "codec_inverse rm (oc_response oc)"
    and enc: "EncodeOpenRequest (oc_request oc) (openRequest r sid path deadline) = Inr payload"
      "EncodeOpenResponse rm (open_accepted sid cid) = Inr reply" "EncodeFrame m f = Inr d"
    and conf: "map_of routes (r_Name r) = Some sr" "r_Mode (st_cfg sr) = r_Mode r" "r_Mode r \<in> {ModeTCP, ModeGRPC}"
    and up: "connected tc" "\<And>s b. nats s b = Inr (handleOpenMessage rm qu cid routes (Some tc) b)"
    and edge: "edge_ok st" "registry_get st cid = Some a" "\<not> l_broken (es_links st ! a)"
      "fresh_id u sid (es_links st ! a)" "fresh_id u sid k"
  shows "\<exists>st' b k' b'. attemptOpenDataSession oc nats deadline r sid path st = (st', Inr (a, b)) \<and>
    l_out (es_links st' ! a) = l_out (es_links st ! a) @ [d] \<and>
    Run_turn m u (Some (\<lambda>l f. fst (handleOpen m routes l f))) pick k (BinaryMessage d) = k' \<and>
    handleOpen m routes k f = (k', Some (sr, b')) \<and>
    start_relay m True ws now' sr k' b' path =
      (k', TcpRelay (r_Target (st_cfg sr)) (new_relay b' (r_IdleTimeout (st_cfg sr)) now')) \<and>
    pipe_start u sid
      (\<lparr>pa_link = (es_links st' ! a)\<lparr>l_out := []\<rparr>, pa_state = new_relay b (r_IdleTimeout r) now, pa_in = []\<rparr>,
       \<lparr>pa_link = k', pa_state = new_relay b' (r_IdleTimeout (st_cfg sr)) now', pa_in = []\<rparr>)"
proof -
  have f: "f_SessionID f = sid" "f_Route f = r_Name r" "f_Kind f = r_Mode r" "f_Type f = FrameOpen"
    by (simp_all add: f_def openFrame_def NewFrame_def)
  obtain l' b where l': "Open m (es_links st ! a) f = (l', Inr b)" "l_out l' = l_out (es_links st ! a) @ [d]"
    using Open_fresh [of u f "es_links st ! a" m d] edge(3,4) enc(3) f(1) by auto
  obtain k' b' where k': "Accept k sid = (k', Inr b')" using Accept_fresh [OF edge(5)] by blast
  have req: "DecodeOpenRequest qu payload = Inr (openRequest r sid path deadline)"
    using open_request_codec.round_trip [OF codecs(2) enc(1)] .
  have nats: "nats (OpenSubject r) payload = Inr (open_reply rm (open_accepted sid cid))"
    using up open_accepted_reply [OF req, of routes sr tc rm cid] conf by (simp add: openRequest_def)
  have "open_reply rm (open_accepted sid cid) = reply" using enc(2) by (simp add: open_reply_def)
  then have dec: "DecodeOpenResponse (oc_response oc) (open_reply rm (open_accepted sid cid)) = Inr (open_accepted sid cid)"
    using open_response_codec.round_trip [OF codecs(3) enc(2)] by simp
  have att: "attemptOpenDataSession oc nats deadline r sid path st = (upd_link a (\<lambda>_. l') st, Inr (a, b))"
    using enc(1) nats dec edge(2) l'(1)
    by (simp add: attemptOpenDataSession_def open_accepted_def f_def m_def)
  have a: "a < length (es_links st)" using edge(1,2) by (simp add: edge_ok_def)
  have h: "handleOpen m routes k f = (k', Some (sr, b'))" using conf(1,2) k' f by (simp add: handleOpen_def)
  have "DecodeFrame u d = Inr f" using frame_codec.round_trip [OF codecs(1) enc(3)] .
  then have run: "Run_turn m u (Some (\<lambda>l f. fst (handleOpen m routes l f))) pick k (BinaryMessage d) = k'"
    using f(4) h by (simp add: Run_turn_def)
  have relay: "start_relay m True ws now' sr k' b' path =
      (k', TcpRelay (r_Target (st_cfg sr)) (new_relay b' (r_IdleTimeout (st_cfg sr)) now'))"
    using conf(2,3) by (auto simp: start_relay_def relayTCPBackend_def)
  have est: "established u sid (new_endpoint (l'\<lparr>l_out := []\<rparr>) b, new_endpoint k' b')"
    by (rule Open_Accept_established [OF edge(4) f(1) l'(1) edge(5) k'])
  show ?thesis
    using att a l'(2) run h relay pipe_start_new [OF est] 
    by (intro exI [of _ "upd_link a (\<lambda>_. l') st"] exI [of _ b] exI [of _ k'] exI [of _ b']) simp
qed

definition sample_open_frame :: frame where
  "sample_open_frame = openFrame sample_tcp ''s'' ''/''"

definition sample_open_codecs :: open_codecs where
  "sample_open_codecs =
     \<lparr>oc_frame = (\<lambda>f. if f = sample_open_frame then Inr ''o'' else Inl ''unknown''),
      oc_request = (\<lambda>q. if q = sample_open_request then Inr ''q'' else Inl ''unknown''),
      oc_response = sample_accept_unmarshal\<rparr>"

theorem tcp_session_established_witness:
  "\<exists>st' b k' b'.
     attemptOpenDataSession sample_open_codecs
       (\<lambda>_ d. Inr (handleOpenMessage sample_accept_marshal sample_request_unmarshal ''c1'' sample_stream_routes
                    (Some sample_tunnel_client) d)) 1000 sample_tcp ''s'' ''/'' sample_edge_state = (st', Inr (0, b)) \<and>
     pipe_start (\<lambda>_. Inr sample_open_frame) ''s''
       (\<lparr>pa_link = (es_links st' ! 0)\<lparr>l_out := []\<rparr>, pa_state = new_relay b 0 0, pa_in = []\<rparr>,
        \<lparr>pa_link = k', pa_state = new_relay b' 0 0, pa_in = []\<rparr>)"
proof -
  let ?oc = sample_open_codecs
  have codecs: "codec_inverse (oc_frame ?oc) (\<lambda>_. Inr sample_open_frame)" "codec_inverse (oc_request ?oc) sample_request_unmarshal"
    "codec_inverse sample_accept_marshal (oc_response ?oc)"
    using sample_accept_inverse by (simp_all add: codec_inverse_def sample_open_codecs_def sample_request_unmarshal_def)
  have enc: "EncodeOpenRequest (oc_request ?oc) (openRequest sample_tcp ''s'' ''/'' 1000) = Inr ''q''"
    "EncodeOpenResponse sample_accept_marshal (open_accepted ''s'' ''c1'') = Inr ''reply''"
    "EncodeFrame (oc_frame ?oc) (openFrame sample_tcp ''s'' ''/'') = Inr ''o''" by code_simp+
  have conf: "map_of sample_stream_routes (r_Name sample_tcp) = Some \<lparr>st_cfg = sample_tcp, st_target = None\<rparr>"
    "r_Mode (st_cfg \<lparr>st_cfg = sample_tcp, st_target = None\<rparr>) = r_Mode sample_tcp" "r_Mode sample_tcp \<in> {ModeTCP, ModeGRPC}"
    by (simp_all add: sample_stream_routes_def sample_tcp_def ModeTCP_def)
  have up: "connected sample_tunnel_client" by code_simp
  have edge: "registry_get sample_edge_state ''c1'' = Some 0" "es_links sample_edge_state ! 0 = NewLink" "\<not> l_broken NewLink"
    by code_simp+
  show ?thesis
    using tcp_session_established [of ?oc "\<lambda>_. Inr sample_open_frame" sample_request_unmarshal sample_accept_marshal
        sample_tcp "''s''" "''/''" 1000 "''q''" "''c1''" "''reply''" "''o''" sample_stream_routes
        "\<lparr>st_cfg = sample_tcp, st_target = None\<rparr>" sample_tunnel_client
        "\<lambda>_ d. Inr (handleOpenMessage sample_accept_marshal sample_request_unmarshal ''c1'' sample_stream_routes
                    (Some sample_tunnel_client) d)" sample_edge_state 0 NewLink, OF codecs enc conf up refl sample_edge_ok edge(1)]
      sample_fresh edge(2,3)
    by (simp add: sample_tcp_def) blast
qed

text \<open>
  Opening one session disturbs no other: the open handlers of both ends, the connector's
  \<^verbatim>\<open>handleOpen\<close> on every branch and the edge's \<^verbatim>\<open>acceptStreamOpen\<close>, keep the link well formed and
  leave every session with another id untouched, as the theorems on sessions require of the
  handler of a read loop.
\<close>

theorem open_handlers_isolated:
  assumes "codec_inverse m u"
  shows "handler_ok u sid (Some (\<lambda>l f. fst (handleOpen m routes l f))) \<and>
    handler_ok u sid (Some (\<lambda>l f. fst (acceptStreamOpen l f)))"
proof -
  have "link_wf (fst (acceptStreamOpen l f)) \<and> untouched u sid l (fst (acceptStreamOpen l f))"
    if "link_wf l" "f_SessionID f \<noteq> sid" for l f
    using link_wf_add [OF that(1), of "f_SessionID f"] untouched_add [OF that(2), of u l] that(1)
    by (auto simp: acceptStreamOpen_def Accept_def split: prod.splits sum.splits)
  then show ?thesis
    using handleOpen_wf handleOpen_untouched [OF assms] by (simp add: handler_ok_def)
qed

theorem open_handlers_isolated_witness:
  "untouched sample_unmarshal ''t'' NewLink (fst (handleOpen sample_marshal sample_stream_routes NewLink sample_open))"
  using open_handlers_isolated [OF sample_codec, of "''t''" sample_stream_routes] link_wf_NewLink
  by (simp add: handler_ok_def sample_open_def NewFrame_def)

end
